(* ===== verification/Xv6_Prelude.thy ===== *)
theory Xv6_Prelude
  imports Main "HOL-Library.Word"
begin

text \<open>
  Shared ground of the development: the widths of the C types, the outcome type of a kernel
  routine, the sequencing combinators the routines are written with, the search loop over a
  static table, and the generic facts the component theories use.

  A kernel routine is a function of the state and of a list of \<^emph>\<open>interference steps\<close>. The
  routine itself runs alone; each time it gives up the processor (in \<^verbatim>\<open>sched\<close>), the next
  interference step says what the rest of the system does before the thread is dispatched
  again. A routine that runs out of interference steps is still asleep.
\<close>

section \<open>Collections of facts\<close>

named_theorems kdefs \<open>definitions of the sequencing combinators\<close>
named_theorems klock \<open>rules of the lock discipline\<close>

section \<open>C types\<close>

type_synonym uchar = "8 word"
type_synonym ushort = "16 word"
type_synonym uint32 = "32 word"
type_synonym addr = "32 word"
type_synonym memory = "32 word \<Rightarrow> 8 word"

unbundle bit_operations_syntax

section \<open>Outcomes of a kernel routine\<close>

text \<open>
  \<open>Ok r s e\<close>: the routine returned \<open>r\<close> in state \<open>s\<close> with the interference steps \<open>e\<close> left.
  \<open>Panic m\<close>: it called \<^verbatim>\<open>panic(m)\<close>. \<open>Dies s e\<close>: the thread left the routine by calling
  \<^verbatim>\<open>kthread_exit()\<close> in state \<open>s\<close>, which does not return. \<open>Gone s\<close>: the thread has switched
  to the scheduler as a zombie. \<open>Blocked s\<close>: the thread waits in \<^verbatim>\<open>sched\<close> and has not been
  dispatched again. \<open>Spins s\<close>: the thread is still in a loop when the bound on the iterations,
  or the list of interference steps, is used up.
\<close>

datatype (dead 's, 'a) res =
    Ok 'a 's "('s \<Rightarrow> 's) list"
  | Panic string
  | Dies 's "('s \<Rightarrow> 's) list"
  | Gone 's
  | Blocked 's
  | Spins 's

type_synonym 's env = "('s \<Rightarrow> 's) list"
type_synonym ('s, 'a) kprog = "'s \<Rightarrow> 's env \<Rightarrow> ('s, 'a) res"

definition kret :: "'a \<Rightarrow> ('s, 'a) kprog" where
  "kret x = (\<lambda>s e. Ok x s e)"

definition kbind :: "('s, 'a) kprog \<Rightarrow> ('a \<Rightarrow> ('s, 'b) kprog) \<Rightarrow> ('s, 'b) kprog" where
  "kbind m f = (\<lambda>s e. case m s e of
       Ok x s' e' \<Rightarrow> f x s' e'
     | Panic msg \<Rightarrow> Panic msg
     | Dies s' e' \<Rightarrow> Dies s' e'
     | Gone s' \<Rightarrow> Gone s'
     | Blocked s' \<Rightarrow> Blocked s'
     | Spins s' \<Rightarrow> Spins s')"

definition kseq :: "('s, 'a) kprog \<Rightarrow> ('s, 'b) kprog \<Rightarrow> ('s, 'b) kprog" where
  "kseq m n = kbind m (\<lambda>_. n)"

definition kget :: "('s \<Rightarrow> 'a) \<Rightarrow> ('s, 'a) kprog" where
  "kget f = (\<lambda>s e. Ok (f s) s e)"

definition kmod :: "('s \<Rightarrow> 's) \<Rightarrow> ('s, unit) kprog" where
  "kmod f = (\<lambda>s e. Ok () (f s) e)"

definition kpanic :: "string \<Rightarrow> ('s, 'a) kprog" where
  "kpanic msg = (\<lambda>s e. Panic msg)"

definition kwhen :: "bool \<Rightarrow> ('s, unit) kprog \<Rightarrow> ('s, unit) kprog" where
  "kwhen b m = (if b then m else kret ())"

primrec kfor :: "('x \<Rightarrow> ('s, unit) kprog) \<Rightarrow> 'x list \<Rightarrow> ('s, unit) kprog" where
  "kfor f [] = kret ()"
| "kfor f (x # xs) = kseq (f x) (kfor f xs)"

text \<open>
  A loop: the body returns \<open>Inl\<close> the variables of the next iteration or \<open>Inr\<close> the value the
  loop ends with. \<open>kloop n\<close> runs at most \<open>n\<close> iterations. In \<open>kwait\<close>, the loop of a routine that
  sleeps in every iteration that does not end it, the bound is the number of interference
  steps: a sleep uses up at least one of them or stays blocked.
\<close>

primrec kloop :: "nat \<Rightarrow> ('x \<Rightarrow> ('s, 'x + 'a) kprog) \<Rightarrow> 'x \<Rightarrow> ('s, 'a) kprog" where
  "kloop 0 f x = (\<lambda>s e. Spins s)"
| "kloop (Suc n) f x = kbind (f x) (\<lambda>r. case r of Inl x' \<Rightarrow> kloop n f x' | Inr a \<Rightarrow> kret a)"

definition kwait :: "('s, 'a option) kprog \<Rightarrow> ('s, 'a) kprog" where
  "kwait f = (\<lambda>s e. kloop (Suc (length e))
     (\<lambda>_. kbind f (\<lambda>r. case r of None \<Rightarrow> kret (Inl ()) | Some a \<Rightarrow> kret (Inr a))) () s e)"

text \<open>One iteration of a busy wait: the other threads run for a while.\<close>

definition kspin :: "('s, unit) kprog" where
  "kspin = (\<lambda>s e. case e of [] \<Rightarrow> Spins s | f # e' \<Rightarrow> Ok () (f s) e')"

lemmas kprog_defs [kdefs] =
  kret_def kbind_def kseq_def kget_def kmod_def kpanic_def kwhen_def

lemma kret_apply [simp]: "kret x s e = Ok x s e"
  by (simp add: kret_def)

lemma kget_apply [simp]: "kget f s e = Ok (f s) s e"
  by (simp add: kget_def)

lemma kmod_apply [simp]: "kmod f s e = Ok () (f s) e"
  by (simp add: kmod_def)

lemma kpanic_apply [simp]: "kpanic msg s e = Panic msg"
  by (simp add: kpanic_def)

lemma kbind_Ok [simp]: "m s e = Ok x t e' \<Longrightarrow> kbind m f s e = f x t e'"
  by (simp add: kbind_def)

lemma kseq_Ok [simp]: "m s e = Ok x t e' \<Longrightarrow> kseq m n s e = n t e'"
  by (simp add: kseq_def)

lemma kbind_Panic [simp]: "m s e = Panic msg \<Longrightarrow> kbind m f s e = Panic msg"
  by (simp add: kbind_def)

lemma kseq_Panic [simp]: "m s e = Panic msg \<Longrightarrow> kseq m n s e = Panic msg"
  by (simp add: kseq_def)

lemma kwhen_simps [simp]: "kwhen True m = m" "kwhen False m = kret ()"
  by (simp_all add: kwhen_def)

lemma kbind_eq_Ok:
  "kbind m f s e = Ok r s' e' \<longleftrightarrow> (\<exists>x t d. m s e = Ok x t d \<and> f x t d = Ok r s' e')"
  by (simp add: kbind_def split: res.splits)

lemma kseq_eq_Ok:
  "kseq m n s e = Ok r s' e' \<longleftrightarrow> (\<exists>x t d. m s e = Ok x t d \<and> n t d = Ok r s' e')"
  by (simp add: kseq_def kbind_eq_Ok)

lemma kwhen_eq_Ok:
  "kwhen b m s e = Ok r s' e' \<longleftrightarrow> (if b then m s e = Ok r s' e' else s' = s \<and> e' = e)"
  by (auto simp: kwhen_def)

lemmas keq_Ok = kbind_eq_Ok kseq_eq_Ok kwhen_eq_Ok

text \<open>
  Loops: one iteration at a time; a bound that was enough stays enough when it grows; and a
  waiting loop whose iterations use up interference steps never runs out of its bound.
\<close>

lemma kwait_Some: "f s e = Ok (Some a) t d \<Longrightarrow> kwait f s e = Ok a t d"
  by (simp add: kwait_def)

lemma kwait_stops:
  "f s e = Panic msg \<Longrightarrow> kwait f s e = Panic msg"
  "f s e = Dies t d \<Longrightarrow> kwait f s e = Dies t d"
  "f s e = Gone t \<Longrightarrow> kwait f s e = Gone t"
  "f s e = Blocked t \<Longrightarrow> kwait f s e = Blocked t"
  by (simp_all add: kwait_def kbind_def)

lemma kloop_mono:
  "(\<And>t. kloop n f x s e \<noteq> Spins t) \<Longrightarrow> n \<le> m \<Longrightarrow> kloop m f x s e = kloop n f x s e"
proof (induction n arbitrary: m x s e)
  case 0
  from 0(1) [of s] show ?case by simp
next
  case (Suc n)
  then obtain k where m: "m = Suc k" "n \<le> k" by (cases m) auto
  show ?case
  proof (cases "f x s e")
    case (Ok y t d)
    show ?thesis
    proof (cases y)
      case (Inl z)
      have "kloop k f z t d = kloop n f z t d"
      proof (rule Suc.IH [OF _ m(2)])
        show "kloop n f z t d \<noteq> Spins u" for u using Suc.prems(1) [of u] Ok Inl by simp
      qed
      then show ?thesis using Ok Inl m(1) by simp
    qed (use Ok m(1) in simp)
  qed (use m(1) in \<open>simp_all add: kbind_def\<close>)
qed

definition uses_env :: "('s \<Rightarrow> 's env \<Rightarrow> bool) \<Rightarrow> ('s, 'a option) kprog \<Rightarrow> bool" where
  "uses_env P f \<longleftrightarrow> (\<forall>s e. P s e \<longrightarrow> (case f s e of
       Ok None t d \<Rightarrow> P t d \<and> length d < length e
     | Spins t \<Rightarrow> False | _ \<Rightarrow> True))"

lemma uses_envD:
  assumes "uses_env P f" "P s e"
  shows "f s e = Ok None t d \<Longrightarrow> P t d \<and> length d < length e" "f s e \<noteq> Spins t"
  using assms unfolding uses_env_def by (fastforce split: res.splits option.splits)+

lemma kwait_never_spins:
  assumes "uses_env P f" "P s e"
  shows "kwait f s e \<noteq> Spins t"
proof -
  let ?f = "\<lambda>_ :: unit. kbind f (\<lambda>r. case r of None \<Rightarrow> kret (Inl ()) | Some a \<Rightarrow> kret (Inr a))"
  have "kloop n ?f () s e \<noteq> Spins t" if "P s e" "length e < n" for n s e t
    using that
  proof (induction n arbitrary: s e)
    case (Suc n)
    note u = uses_envD [OF assms(1) Suc.prems(1)]
    show ?case
    proof (cases "f s e")
      case (Ok r t d)
      then show ?thesis using Suc u(1) by (cases r) auto
    qed (use u(2) in \<open>auto simp: kbind_def\<close>)
  qed simp
  from this [OF assms(2), of "Suc (length e)" t] show ?thesis
    by (simp add: kwait_def del: kloop.simps)
qed

lemma kwait_None:
  assumes "uses_env P f" "P s e" "f s e = Ok None t d"
  shows "kwait f s e = kwait f t d"
proof -
  let ?f = "\<lambda>_ :: unit. kbind f (\<lambda>r. case r of None \<Rightarrow> kret (Inl ()) | Some a \<Rightarrow> kret (Inr a))"
  have d: "P t d" "Suc (length d) \<le> length e"
    using uses_envD(1) [OF assms] by simp_all
  have "kloop (Suc (length d)) ?f () t d = kwait f t d" by (simp add: kwait_def)
  then have "kloop (length e) ?f () t d = kwait f t d"
    using kloop_mono [of "Suc (length d)" ?f "()" t d "length e"]
      kwait_never_spins [OF assms(1) d(1)] d(2) by metis
  then show ?thesis using assms(3) by (simp add: kwait_def)
qed

section \<open>Scanning a static table\<close>

text \<open>
  \<open>find_idx P xs\<close> is the loop \<^verbatim>\<open>for(p = tab; p < &tab[N]; p++) if(P(p)) goto found;\<close>: the
  index of the first entry that satisfies \<open>P\<close>.
\<close>

primrec find_idx :: "('a \<Rightarrow> bool) \<Rightarrow> 'a list \<Rightarrow> nat option" where
  "find_idx P [] = None"
| "find_idx P (x # xs) = (if P x then Some 0 else map_option Suc (find_idx P xs))"

lemma find_idx_None_iff: "find_idx P xs = None \<longleftrightarrow> (\<forall>x \<in> set xs. \<not> P x)"
  by (induction xs) auto

lemma find_idx_SomeD:
  "find_idx P xs = Some i \<Longrightarrow> i < length xs \<and> P (xs ! i) \<and> (\<forall>j < i. \<not> P (xs ! j))"
proof (induction xs arbitrary: i)
  case Nil
  then show ?case by simp
next
  case (Cons x xs)
  show ?case
  proof (cases "P x")
    case True
    with Cons.prems show ?thesis by simp
  next
    case False
    with Cons.prems obtain k where k: "find_idx P xs = Some k" and i: "i = Suc k"
      by auto
    from Cons.IH [OF k] i False show ?thesis
      by (auto simp: nth_Cons split: nat.splits)
  qed
qed

lemma find_idx_SomeI:
  "i < length xs \<Longrightarrow> P (xs ! i) \<Longrightarrow> (\<And>j. j < i \<Longrightarrow> \<not> P (xs ! j)) \<Longrightarrow> find_idx P xs = Some i"
proof (induction xs arbitrary: i)
  case Nil
  then show ?case by simp
next
  case (Cons x xs)
  show ?case
  proof (cases i)
    case 0
    with Cons.prems show ?thesis by simp
  next
    case (Suc k)
    from Cons.prems(3) [of 0] Suc have "\<not> P x" by simp
    moreover have "find_idx P xs = Some k"
    proof (rule Cons.IH)
      show "k < length xs" "P (xs ! k)" using Cons.prems(1,2) Suc by simp_all
      show "\<not> P (xs ! j)" if "j < k" for j
        using Cons.prems(3) [of "Suc j"] Suc that by simp
    qed
    ultimately show ?thesis using Suc by simp
  qed
qed

lemma find_idx_lt: "find_idx P xs = Some i \<Longrightarrow> i < length xs"
  using find_idx_SomeD by blast

lemma find_idx_holds: "find_idx P xs = Some i \<Longrightarrow> P (xs ! i)"
  using find_idx_SomeD by blast

text \<open>Updating one entry of a table in place.\<close>

definition upd_nth :: "nat \<Rightarrow> ('a \<Rightarrow> 'a) \<Rightarrow> 'a list \<Rightarrow> 'a list" where
  "upd_nth i f xs = xs[i := f (xs ! i)]"

lemma length_upd_nth [simp]: "length (upd_nth i f xs) = length xs"
  by (simp add: upd_nth_def)

lemma nth_upd_nth_eq [simp]: "i < length xs \<Longrightarrow> upd_nth i f xs ! i = f (xs ! i)"
  by (simp add: upd_nth_def)

lemma nth_upd_nth_neq [simp]: "i \<noteq> j \<Longrightarrow> upd_nth i f xs ! j = xs ! j"
  by (simp add: upd_nth_def)

lemma nth_upd_nth:
  "j < length xs \<Longrightarrow> upd_nth i f xs ! j = (if i = j then f (xs ! j) else xs ! j)"
  by simp

lemma upd_nth_upd_nth [simp]: "upd_nth i f (upd_nth i g xs) = upd_nth i (f \<circ> g) xs"
  by (cases "i < length xs") (simp_all add: upd_nth_def list_update_beyond)

lemma map_upd_nth_cong:
  "(\<And>x. g (f x) = g x) \<Longrightarrow> map g (upd_nth i f xs) = map g xs"
  by (cases "i < length xs")
    (simp_all add: upd_nth_def map_update list_update_same_conv, metis list_update_id map_update nth_map)

lemma set_upd_nth_subset: "set (upd_nth i f xs) \<subseteq> insert (f (xs ! i)) (set xs)"
  by (simp add: upd_nth_def set_update_subset_insert)

lemma ex_less_4: "(\<exists>j < (4 :: nat). P j) \<longleftrightarrow> P 0 \<or> P 1 \<or> P 2 \<or> P 3"
proof -
  have "{j :: nat. j < 4} = {0, 1, 2, 3}" by auto
  then show ?thesis by (metis (mono_tags, lifting) insert_iff mem_Collect_eq empty_iff)
qed

lemma word_less_succ:
  fixes x :: uint32
  assumes "x \<noteq> -1"
  shows "x < x + 1"
proof -
  have "1 + x \<noteq> 0" using assms by (simp add: eq_neg_iff_add_eq_0 add.commute)
  then have "unat (1 + x) = Suc (unat x)" by (rule unatSuc)
  then show ?thesis by (simp add: word_less_nat_alt add.commute)
qed

text \<open>A 32-bit number read as signed.\<close>

lemma sint_uint32: "sint (x :: 32 word) = (if uint x < 2 ^ 31 then uint x else uint x - 2 ^ 32)"
proof -
  have s: "sint x = (uint x + 2 ^ 31) mod 2 ^ 32 - 2 ^ 31"
    by (simp add: sint_uint signed_take_bit_eq_take_bit_shift take_bit_eq_mod)
  have lt: "0 \<le> uint x" "uint x < 2 ^ 32" using uint_bounded [of x] by simp_all
  show ?thesis
  proof (cases "uint x < 2 ^ 31")
    case True
    then have "(uint x + 2 ^ 31) mod 2 ^ 32 = uint x + 2 ^ 31" using lt by (intro mod_pos_pos_trivial) simp_all
    then show ?thesis using s True by simp
  next
    case False
    have "(uint x + 2 ^ 31) mod 2 ^ 32 = (uint x + 2 ^ 31 - 2 ^ 32) mod 2 ^ 32"
      using minus_mod_self2 [of "uint x + 2 ^ 31" "2 ^ 32"] by (rule sym)
    also have "\<dots> = uint x + 2 ^ 31 - 2 ^ 32" using False lt by (intro mod_pos_pos_trivial) simp_all
    finally show ?thesis using s False by simp
  qed
qed

lemma abs_sint: "\<bar>sint (x :: 32 word)\<bar> = int (unat (if sint x < 0 then - x else x))"
proof (cases "sint x < 0")
  case True
  have "uint x < 2 ^ 32" "0 \<le> uint x" using uint_bounded [of x] by simp_all
  then have u: "sint x = uint x - 2 ^ 32" using True by (auto simp: sint_uint32 split: if_splits)
  have "uint (- x) = (2 ^ 32 - uint x) mod 2 ^ 32"
    by (simp add: uint_word_ariths)
  also have "\<dots> = 2 ^ 32 - uint x" using True u uint_bounded [of x]
    by (intro mod_pos_pos_trivial) (simp_all add: sint_uint32 split: if_splits)
  finally show ?thesis using True u by simp
next
  case False
  have "0 \<le> uint x" "uint x < 2 ^ 32" using uint_bounded [of x] by simp_all
  then have "sint x = uint x" using False by (auto simp: sint_uint32 split: if_splits)
  then show ?thesis using False by simp
qed
section \<open>Tables with fresh identifiers\<close>

text \<open>
  A table whose entries get their identifier from a counter: every identifier is below the
  counter, and no two live entries share one.
\<close>

definition ids_ok :: "('a \<Rightarrow> uint32) \<Rightarrow> ('a \<Rightarrow> bool) \<Rightarrow> uint32 \<Rightarrow> 'a list \<Rightarrow> bool" where
  "ids_ok key live n xs \<longleftrightarrow> (\<forall>x \<in> set xs. key x < n) \<and>
     (\<forall>i < length xs. \<forall>j < length xs. i \<noteq> j \<longrightarrow> live (xs ! i) \<longrightarrow> live (xs ! j) \<longrightarrow>
        key (xs ! i) \<noteq> key (xs ! j))"

lemma ids_ok_alloc:
  assumes inv: "ids_ok key live n xs" and p: "p < length xs" and "n \<noteq> -1"
    and f: "\<And>x. key (f x) = n"
  shows "ids_ok key live (n + 1) (upd_nth p f xs)"
proof -
  have lt: "n < n + 1" using assms(3) by (rule word_less_succ)
  have old: "key x < n" if "x \<in> set xs" for x
    using inv that by (simp add: ids_ok_def)
  have fresh: "key (xs ! i) \<noteq> n" if "i < length xs" for i
    using old [OF nth_mem [OF that]] by auto
  have "key q < n + 1" if "q \<in> set (upd_nth p f xs)" for q
  proof -
    from that set_upd_nth_subset consider "q = f (xs ! p)" | "q \<in> set xs" by fastforce
    then show ?thesis using old lt f by cases (auto intro: less_trans)
  qed
  moreover have "key (upd_nth p f xs ! i) \<noteq> key (upd_nth p f xs ! j)"
    if "i < length xs" "j < length xs" "i \<noteq> j"
      "live (upd_nth p f xs ! i)" "live (upd_nth p f xs ! j)" for i j
  proof -
    consider "i = p" | "j = p" | "i \<noteq> p" "j \<noteq> p" by blast
    then show ?thesis
    proof cases
      case 1
      then show ?thesis using that p f fresh [of j] by (simp add: nth_upd_nth)
    next
      case 2
      then show ?thesis using that p f fresh [of i] by (simp add: nth_upd_nth)
    next
      case 3
      then have "live (xs ! i)" "live (xs ! j)" using that(4,5) by simp_all
      then show ?thesis using that(1-3) inv 3 by (simp add: ids_ok_def)
    qed
  qed
  ultimately show ?thesis by (simp add: ids_ok_def)
qed

end
