(* ===== verification/Memory.thy ===== *)
theory Memory
  imports Xv6_Prelude
begin

text \<open>
  Byte-addressed memory and the string routines of \<^verbatim>\<open>string.c\<close> and \<^verbatim>\<open>ulib.c\<close>. Memory is a
  function from 32-bit addresses to bytes; addresses wrap around as the machine's do. The
  loops of the C code that count down a \<^verbatim>\<open>uint\<close> are recursions on its value.
\<close>

section \<open>Little-endian access\<close>

definition load16 :: "memory \<Rightarrow> addr \<Rightarrow> ushort" where
  "load16 m a = ucast (m a) OR push_bit 8 (ucast (m (a + 1)))"

definition store16 :: "memory \<Rightarrow> addr \<Rightarrow> ushort \<Rightarrow> memory" where
  "store16 m a v = m(a := ucast v, a + 1 := ucast (drop_bit 8 v))"

definition load32 :: "memory \<Rightarrow> addr \<Rightarrow> uint32" where
  "load32 m a = ucast (m a) OR push_bit 8 (ucast (m (a + 1)))
     OR push_bit 16 (ucast (m (a + 2))) OR push_bit 24 (ucast (m (a + 3)))"

definition store32 :: "memory \<Rightarrow> addr \<Rightarrow> uint32 \<Rightarrow> memory" where
  "store32 m a v = m(a := ucast v, a + 1 := ucast (drop_bit 8 v),
     a + 2 := ucast (drop_bit 16 v), a + 3 := ucast (drop_bit 24 v))"

text \<open>A block of memory as a list of bytes.\<close>

primrec write_bytes :: "memory \<Rightarrow> addr \<Rightarrow> uchar list \<Rightarrow> memory" where
  "write_bytes m a [] = m"
| "write_bytes m a (b # bs) = write_bytes (m(a := b)) (a + 1) bs"

definition read_bytes :: "memory \<Rightarrow> addr \<Rightarrow> nat \<Rightarrow> uchar list" where
  "read_bytes m a n = map (\<lambda>i. m (a + of_nat i)) [0..<n]"

section \<open>The x86 string instructions (\<^verbatim>\<open>x86.h\<close>)\<close>

primrec stosb :: "memory \<Rightarrow> addr \<Rightarrow> uint32 \<Rightarrow> nat \<Rightarrow> memory" where
  "stosb m a d 0 = m"
| "stosb m a d (Suc k) = stosb (m(a := ucast d)) (a + 1) d k"

primrec stosl :: "memory \<Rightarrow> addr \<Rightarrow> uint32 \<Rightarrow> nat \<Rightarrow> memory" where
  "stosl m a d 0 = m"
| "stosl m a d (Suc k) = stosl (store32 m a d) (a + 4) d k"

section \<open>\<^verbatim>\<open>string.c\<close>\<close>

definition memset :: "memory \<Rightarrow> addr \<Rightarrow> uint32 \<Rightarrow> uint32 \<Rightarrow> memory" where
  "memset m dst c n =
     (if dst mod 4 = 0 \<and> n mod 4 = 0 then
        (let c = c AND 0xFF in
         stosl m dst (push_bit 24 c OR push_bit 16 c OR push_bit 8 c OR c) (unat (n div 4)))
      else stosb m dst c (unat n))"

text \<open>\<^verbatim>\<open>memcmp\<close>: the difference of the first two bytes that differ, or 0.\<close>

primrec memcmp_loop :: "memory \<Rightarrow> addr \<Rightarrow> addr \<Rightarrow> nat \<Rightarrow> int" where
  "memcmp_loop m s1 s2 0 = 0"
| "memcmp_loop m s1 s2 (Suc k) =
     (if m s1 \<noteq> m s2 then uint (m s1) - uint (m s2) else memcmp_loop m (s1 + 1) (s2 + 1) k)"

definition memcmp :: "memory \<Rightarrow> addr \<Rightarrow> addr \<Rightarrow> uint32 \<Rightarrow> int" where
  "memcmp m v1 v2 n = memcmp_loop m v1 v2 (unat n)"

primrec copy_up :: "memory \<Rightarrow> addr \<Rightarrow> addr \<Rightarrow> nat \<Rightarrow> memory" where
  "copy_up m d s 0 = m"
| "copy_up m d s (Suc k) = copy_up (m(d := m s)) (d + 1) (s + 1) k"

primrec copy_down :: "memory \<Rightarrow> addr \<Rightarrow> addr \<Rightarrow> nat \<Rightarrow> memory" where
  "copy_down m d s 0 = m"
| "copy_down m d s (Suc k) = copy_down (m(d - 1 := m (s - 1))) (d - 1) (s - 1) k"

definition memmove :: "memory \<Rightarrow> addr \<Rightarrow> addr \<Rightarrow> uint32 \<Rightarrow> memory" where
  "memmove m dst src n =
     (if src < dst \<and> dst < src + n then copy_down m (dst + n) (src + n) (unat n)
      else copy_up m dst src (unat n))"

definition memcpy :: "memory \<Rightarrow> addr \<Rightarrow> addr \<Rightarrow> uint32 \<Rightarrow> memory" where
  "memcpy m dst src n = memmove m dst src n"

primrec strncmp_loop :: "memory \<Rightarrow> addr \<Rightarrow> addr \<Rightarrow> nat \<Rightarrow> int" where
  "strncmp_loop m p q 0 = 0"
| "strncmp_loop m p q (Suc k) =
     (if m p \<noteq> 0 \<and> m p = m q then strncmp_loop m (p + 1) (q + 1) k
      else uint (m p) - uint (m q))"

definition strncmp :: "memory \<Rightarrow> addr \<Rightarrow> addr \<Rightarrow> uint32 \<Rightarrow> int" where
  "strncmp m p q n = strncmp_loop m p q (unat n)"

text \<open>
  \<^verbatim>\<open>strncpy\<close>: copy up to and including a NUL, then pad with NULs; the count \<^verbatim>\<open>n\<close> is a signed
  \<^verbatim>\<open>int\<close> and nothing is written when it is not positive.
\<close>

primrec pad_zero :: "memory \<Rightarrow> addr \<Rightarrow> nat \<Rightarrow> memory" where
  "pad_zero m s 0 = m"
| "pad_zero m s (Suc k) = pad_zero (m(s := 0)) (s + 1) k"

primrec strncpy_loop :: "memory \<Rightarrow> addr \<Rightarrow> addr \<Rightarrow> nat \<Rightarrow> memory" where
  "strncpy_loop m s t 0 = m"
| "strncpy_loop m s t (Suc k) =
     (if m t \<noteq> 0 then strncpy_loop (m(s := m t)) (s + 1) (t + 1) k
      else pad_zero (m(s := m t)) (s + 1) k)"

definition strncpy :: "memory \<Rightarrow> addr \<Rightarrow> addr \<Rightarrow> int \<Rightarrow> memory" where
  "strncpy m s t n = strncpy_loop m s t (nat n)"

primrec safestrcpy_loop :: "memory \<Rightarrow> addr \<Rightarrow> addr \<Rightarrow> nat \<Rightarrow> memory" where
  "safestrcpy_loop m s t 0 = m(s := 0)"
| "safestrcpy_loop m s t (Suc k) =
     (if m t \<noteq> 0 then safestrcpy_loop (m(s := m t)) (s + 1) (t + 1) k
      else (m(s := m t))(s + 1 := 0))"

definition safestrcpy :: "memory \<Rightarrow> addr \<Rightarrow> addr \<Rightarrow> int \<Rightarrow> memory" where
  "safestrcpy m s t n = (if n \<le> 0 then m else safestrcpy_loop m s t (nat (n - 1)))"

text \<open>\<^verbatim>\<open>strlen\<close> does not return when memory holds no NUL.\<close>

partial_function (option) strlen_from :: "memory \<Rightarrow> addr \<Rightarrow> nat \<Rightarrow> nat option" where
  "strlen_from m s n = (if m (s + of_nat n) \<noteq> 0 then strlen_from m s (Suc n) else Some n)"

definition strlen :: "memory \<Rightarrow> addr \<Rightarrow> nat option" where
  "strlen m s = strlen_from m s 0"

section \<open>\<^verbatim>\<open>ulib.c\<close>\<close>

text \<open>The user library's \<^verbatim>\<open>memset\<close> and \<^verbatim>\<open>memmove\<close> have no word path and no overlap test.\<close>

definition u_memset :: "memory \<Rightarrow> addr \<Rightarrow> uint32 \<Rightarrow> uint32 \<Rightarrow> memory" where
  "u_memset m dst c n = stosb m dst c (unat n)"

definition u_memmove :: "memory \<Rightarrow> addr \<Rightarrow> addr \<Rightarrow> int \<Rightarrow> memory" where
  "u_memmove m vdst vsrc n = copy_up m vdst vsrc (nat n)"

partial_function (option) strcpy_loop :: "memory \<Rightarrow> addr \<Rightarrow> addr \<Rightarrow> memory option" where
  "strcpy_loop m s t =
     (if m t \<noteq> 0 then strcpy_loop (m(s := m t)) (s + 1) (t + 1) else Some (m(s := m t)))"

definition strcpy :: "memory \<Rightarrow> addr \<Rightarrow> addr \<Rightarrow> memory option" where
  "strcpy m s t = strcpy_loop m s t"

partial_function (option) strcmp :: "memory \<Rightarrow> addr \<Rightarrow> addr \<Rightarrow> int option" where
  "strcmp m p q =
     (if m p \<noteq> 0 \<and> m p = m q then strcmp m (p + 1) (q + 1)
      else Some (uint (m p) - uint (m q)))"

text \<open>\<^verbatim>\<open>strchr\<close> returns 0 (here the inner \<open>None\<close>) when the character does not occur.\<close>

partial_function (option) strchr :: "memory \<Rightarrow> addr \<Rightarrow> uchar \<Rightarrow> addr option option" where
  "strchr m s c =
     (if m s \<noteq> 0 then (if m s = c then Some (Some s) else strchr m (s + 1) c)
      else Some None)"

text \<open>\<^verbatim>\<open>atoi\<close> accumulates in a 32-bit \<^verbatim>\<open>int\<close>; \<^verbatim>\<open>char\<close> is signed, so bytes from 128 on are below \<^verbatim>\<open>'0'\<close>.\<close>

partial_function (option) atoi_loop :: "memory \<Rightarrow> addr \<Rightarrow> uint32 \<Rightarrow> uint32 option" where
  "atoi_loop m s n =
     (if 48 \<le> sint (m s) \<and> sint (m s) \<le> 57
      then atoi_loop m (s + 1) (n * 10 + ucast (m s) - 48) else Some n)"

definition atoi :: "memory \<Rightarrow> addr \<Rightarrow> int option" where
  "atoi m s = map_option sint (atoi_loop m s 0)"

section \<open>Facts about access and copying\<close>

lemma unat_addr_lt: "unat (a :: addr) < 2 ^ 32"
  using unsigned_less [of a, where ?'a = nat] by simp

lemma unat_of_nat_addr [simp]: "k < 2 ^ 32 \<Longrightarrow> unat (of_nat k :: addr) = k"
  by (simp add: unat_of_nat take_bit_nat_def)

lemma word_diff_Suc:
  fixes x a :: addr
  assumes "x \<noteq> a"
  shows "unat (x - a) = Suc (unat (x - (a + 1)))"
proof -
  have "x - a \<noteq> 0" using assms by simp
  then have "unat (x - a - 1) = unat (x - a) - 1" "0 < unat (x - a)"
    using unat_minus_one [of "x - a"] unat_gt_0 [of "x - a"] by blast+
  moreover have "x - a - 1 = x - (a + 1)" by simp
  ultimately show ?thesis by simp
qed

lemma unat_neg_one_addr: "unat (a - (a + 1) :: addr) = 2 ^ 32 - 1"
  by (simp add: unsigned_minus_1_eq_mask mask_eq_exp_minus_1)

text \<open>The store instruction in closed form, also where the block wraps around.\<close>

lemma stosb_apply:
  "k \<le> 2 ^ 32 \<Longrightarrow> stosb m a d k x = (if unat (x - a) < k then ucast d else m x)"
proof (induction k arbitrary: m a)
  case 0
  then show ?case by simp
next
  case (Suc k)
  show ?case
  proof (cases "x = a")
    case True
    with Suc show ?thesis by (simp only: stosb.simps unat_neg_one_addr) simp
  next
    case False
    with Suc show ?thesis by (simp add: word_diff_Suc)
  qed
qed

lemma store32_apply:
  "store32 m a v x =
     (if x = a + 3 then ucast (drop_bit 24 v) else if x = a + 2 then ucast (drop_bit 16 v)
      else if x = a + 1 then ucast (drop_bit 8 v) else if x = a then ucast v else m x)"
  by (simp add: store32_def)

lemma load32_store32 [simp]: "load32 (store32 m a v) a = v"
proof (rule bit_word_eqI)
  fix n
  assume "n < LENGTH(32)"
  then consider "n < 8" | "8 \<le> n" "n < 16" | "16 \<le> n" "n < 24" | "24 \<le> n" "n < 32"
    by fastforce
  then show "bit (load32 (store32 m a v) a) n = bit v n"
    by cases (auto simp: load32_def store32_def bit_simps less_diff_conv2)
qed

lemma load16_store16 [simp]: "load16 (store16 m a v) a = v"
  by (rule bit_word_eqI) (auto simp: load16_def store16_def bit_simps)

definition aligned4 :: "addr \<Rightarrow> bool" where
  "aligned4 a \<longleftrightarrow> unat a mod 4 = 0"

lemma unat_aligned_add:
  assumes "aligned4 a" "k < 4"
  shows "unat (a + of_nat k) = unat a + k"
proof -
  have "unat a < 2 ^ 32" using unat_addr_lt [of a] by simp
  with assms have "unat a + k < 2 ^ 32" by (simp add: aligned4_def) presburger
  with assms(2) show ?thesis
    by (simp add: unat_plus_if' unat_of_nat take_bit_nat_def)
qed

lemma aligned_disjoint:
  assumes "aligned4 a" "aligned4 b" "a \<noteq> b" "i < 4" "j < 4"
  shows "a + of_nat i \<noteq> b + of_nat j"
proof
  assume "a + of_nat i = b + of_nat j"
  then have "unat a + i = unat b + j"
    using assms by (metis unat_aligned_add)
  moreover have "unat a mod 4 = 0" "unat b mod 4 = 0"
    using assms by (simp_all add: aligned4_def)
  ultimately have "unat a = unat b" using assms(4,5) by presburger
  then show False using assms(3) by (simp add: word_unat_eq_iff)
qed

lemma load32_store32_other:
  assumes "aligned4 a" "aligned4 b" "a \<noteq> b"
  shows "load32 (store32 m a v) b = load32 m b"
proof -
  note d = aligned_disjoint [OF assms]
  have "store32 m a v (b + of_nat j) = m (b + of_nat j)" if "j < 4" for j
    using d [of 0 j] d [of 1 j] d [of 2 j] d [of 3 j] that by (auto simp: store32_apply)
  from this [of 0] this [of 1] this [of 2] this [of 3] show ?thesis
    by (simp add: load32_def)
qed

lemma unat_diff_shift:
  fixes x a :: addr
  assumes "k \<le> unat (x - a)"
  shows "unat (x - (a + of_nat k)) = unat (x - a) - k"
proof -
  have "k < 2 ^ 32" using assms unat_addr_lt [of "x - a"] by simp
  then have "unat (of_nat k :: addr) = k" by (simp add: unat_of_nat take_bit_nat_def)
  moreover have "x - (a + of_nat k) = (x - a) - of_nat k" by simp
  ultimately show ?thesis
    using assms by (metis unat_sub word_le_nat_alt)
qed

text \<open>The doubleword store with four equal bytes writes those bytes.\<close>

lemma stosl_apply:
  assumes bytes: "ucast d = b" "ucast (drop_bit 8 d) = b" "ucast (drop_bit 16 d) = b"
    "ucast (drop_bit 24 d) = (b :: uchar)"
  shows "4 * k \<le> 2 ^ 32 \<Longrightarrow> stosl m a d k x = (if unat (x - a) < 4 * k then b else m x)"
proof (induction k arbitrary: m a)
  case 0
  then show ?case by simp
next
  case (Suc k)
  have step: "store32 m a d x = (if unat (x - a) < 4 then b else m x)"
  proof -
    have "unat (x - a) < 4 \<longleftrightarrow> (\<exists>j < 4. x = a + of_nat j)"
    proof
      assume "unat (x - a) < 4"
      moreover have "x = a + of_nat (unat (x - a))" by simp
      ultimately show "\<exists>j < 4. x = a + of_nat j" by blast
    next
      assume "\<exists>j < 4. x = a + of_nat j"
      then show "unat (x - a) < 4" by (auto simp: unat_of_nat take_bit_nat_def)
    qed
    moreover have "(\<exists>j < 4. x = a + of_nat j) \<longleftrightarrow> x = a \<or> x = a + 1 \<or> x = a + 2 \<or> x = a + 3"
      by (simp add: ex_less_4)
    ultimately show ?thesis using bytes by (auto simp: store32_apply)
  qed
  have IH: "stosl (store32 m a d) (a + 4) d k x =
      (if unat (x - (a + 4)) < 4 * k then b else store32 m a d x)"
    using Suc by simp
  show ?case
  proof (cases "unat (x - a) < 4")
    case True
    then have "store32 m a d x = b" by (simp add: step)
    then show ?thesis using True IH by simp
  next
    case False
    then have "unat (x - (a + 4)) = unat (x - a) - 4"
      using unat_diff_shift [of 4 x a] by simp
    with False step IH show ?thesis by auto
  qed
qed

lemma byte_pattern:
  fixes c :: uint32
  defines "b \<equiv> c AND 0xFF"
  defines "d \<equiv> push_bit 24 b OR push_bit 16 b OR push_bit 8 b OR b"
  shows "ucast d = (ucast c :: uchar)" "ucast (drop_bit 8 d) = (ucast c :: uchar)"
    "ucast (drop_bit 16 d) = (ucast c :: uchar)" "ucast (drop_bit 24 d) = (ucast c :: uchar)"
proof -
  have "b = take_bit 8 c" by (simp add: b_def take_bit_eq_mask mask_eq_exp_minus_1)
  then show "ucast d = (ucast c :: uchar)" "ucast (drop_bit 8 d) = (ucast c :: uchar)"
    "ucast (drop_bit 16 d) = (ucast c :: uchar)" "ucast (drop_bit 24 d) = (ucast c :: uchar)"
    by (auto intro!: bit_word_eqI simp: d_def bit_simps)
qed

text \<open>
  \<^verbatim>\<open>memset\<close> writes the low byte of its argument to exactly the \<^verbatim>\<open>n\<close> bytes from \<^verbatim>\<open>dst\<close> on,
  whichever of the two instructions it picks.
\<close>

lemma memset_apply:
  "memset m dst c n x = (if unat (x - dst) < unat n then ucast c else m x)"
proof (cases "dst mod 4 = 0 \<and> n mod 4 = 0")
  case True
  have n4: "4 * unat (n div 4) = unat n"
  proof -
    have "unat n mod 4 = unat (n mod 4)" by (simp add: unat_mod_distrib)
    with True have "unat n mod 4 = 0" by simp
    moreover have "unat (n div 4) = unat n div 4" by (simp add: unat_div_distrib)
    ultimately show ?thesis by arith
  qed
  moreover have "unat n \<le> 2 ^ 32" using unat_addr_lt [of n] by simp
  ultimately show ?thesis
    using True stosl_apply [OF byte_pattern, of "unat (n div 4)"]
    by (simp add: memset_def Let_def)
next
  case False
  have "unat n \<le> 2 ^ 32" using unat_addr_lt [of n] by simp
  with False show ?thesis by (simp add: memset_def stosb_apply del: de_Morgan_conj)
qed

text \<open>
  Copying upwards is right when no source byte is overwritten before it is read, copying
  downwards likewise in the other direction.
\<close>

lemma copy_up_apply:
  assumes "k \<le> 2 ^ 32"
    and "\<And>i j. i < j \<Longrightarrow> j < k \<Longrightarrow> d + of_nat i \<noteq> s + of_nat j"
  shows "copy_up m d s k x = (if unat (x - d) < k then m (s + (x - d)) else m x)"
  using assms
proof (induction k arbitrary: m d s)
  case 0
  then show ?case by simp
next
  case (Suc k)
  have nc: "d + 1 + of_nat i \<noteq> s + 1 + of_nat j" if "i < j" "j < k" for i j
    using Suc.prems(2) [of "Suc i" "Suc j"] that by (simp add: add.assoc add.commute)
  have k: "k \<le> 2 ^ 32" using Suc.prems(1) by simp
  have IH: "copy_up (m(d := m s)) (d + 1) (s + 1) k x =
      (if unat (x - (d + 1)) < k then (m(d := m s)) (s + 1 + (x - (d + 1))) else (m(d := m s)) x)"
    by (rule Suc.IH [OF k nc])
  have eq: "s + 1 + (x - (d + 1)) = s + (x - d)" by simp
  show ?case
  proof (cases "x = d")
    case True
    have "\<not> unat (d - (d + 1)) < k"
      using Suc.prems(1) by (simp only: unat_neg_one_addr)
    with True IH show ?thesis by simp
  next
    case False
    then have u: "unat (x - d) = Suc (unat (x - (d + 1)))" by (rule word_diff_Suc)
    have "s + (x - d) \<noteq> d" if "unat (x - d) < Suc k"
      using Suc.prems(2) [of 0 "unat (x - d)"] u that by auto
    with u IH eq False show ?thesis by auto
  qed
qed

lemma copy_down_apply:
  assumes "k \<le> 2 ^ 32"
    and "\<And>i j. i < j \<Longrightarrow> j < k \<Longrightarrow> d + of_nat j \<noteq> s + of_nat i"
  shows "copy_down m (d + of_nat k) (s + of_nat k) k x =
    (if unat (x - d) < k then m (s + (x - d)) else m x)"
  using assms
proof (induction k arbitrary: m)
  case 0
  then show ?case by simp
next
  case (Suc k)
  let ?m = "m(d + of_nat k := m (s + of_nat k))"
  have IH: "copy_down ?m (d + of_nat k) (s + of_nat k) k x =
      (if unat (x - d) < k then ?m (s + (x - d)) else ?m x)"
    using Suc by simp
  have step: "copy_down m (d + of_nat (Suc k)) (s + of_nat (Suc k)) (Suc k) x =
      copy_down ?m (d + of_nat k) (s + of_nat k) k x"
    by (simp add: add.commute)
  have k: "unat (of_nat k :: addr) = k" using Suc.prems(1) by simp
  show ?case
  proof (cases "unat (x - d) < k")
    case True
    have "d + of_nat k \<noteq> s + of_nat (unat (x - d))"
      using Suc.prems(2) [of "unat (x - d)" k] True by simp
    then show ?thesis using True step IH by auto
  next
    case False
    have "x = d + of_nat k \<longleftrightarrow> unat (x - d) = k"
      using k by (metis add_diff_cancel_left' diff_add_cancel add.commute word_unat_eq_iff)
    then show ?thesis using False step IH by (auto simp: less_Suc_eq)
  qed
qed

text \<open>
  \<^verbatim>\<open>memmove\<close> copies correctly for every overlap of the two blocks, provided neither block
  runs past the end of the address space.
\<close>

lemma memmove_apply:
  assumes src: "unat src + unat n < 2 ^ 32" and dst: "unat dst + unat n < 2 ^ 32"
  shows "memmove m dst src n x = (if unat (x - dst) < unat n then m (src + (x - dst)) else m x)"
proof -
  have n: "unat n \<le> 2 ^ 32" using unat_addr_lt [of n] by simp
  have us: "unat (src + of_nat i) = unat src + i" if "i \<le> unat n" for i
    using src that by (simp add: unat_plus_if')
  have ud: "unat (dst + of_nat i) = unat dst + i" if "i \<le> unat n" for i
    using dst that by (simp add: unat_plus_if')
  show ?thesis
  proof (cases "src < dst \<and> dst < src + n")
    case True
    have "dst + of_nat j \<noteq> src + of_nat i" if "i < j" "j < unat n" for i j
    proof
      assume "dst + of_nat j = src + of_nat i"
      then have "unat dst + j = unat src + i" using us [of i] ud [of j] that by simp
      with True that show False by (simp add: word_less_nat_alt)
    qed
    from copy_down_apply [OF n this, of m x] True show ?thesis by (simp add: memmove_def)
  next
    case False
    have "dst + of_nat i \<noteq> src + of_nat j" if "i < j" "j < unat n" for i j
    proof
      assume "dst + of_nat i = src + of_nat j"
      then have "unat dst + i = unat src + j" using us [of j] ud [of i] that by simp
      moreover have "unat (src + n) = unat src + unat n" using us [of "unat n"] by simp
      ultimately show False using False that by (auto simp: word_less_nat_alt)
    qed
    from copy_up_apply [OF n this, of m x] False show ?thesis
      by (simp add: memmove_def del: de_Morgan_conj)
  qed
qed

section \<open>Terminated strings\<close>

text \<open>\<open>nul_at m s n\<close>: the string at \<open>s\<close> has length \<open>n\<close>.\<close>

definition nul_at :: "memory \<Rightarrow> addr \<Rightarrow> nat \<Rightarrow> bool" where
  "nul_at m s n \<longleftrightarrow> m (s + of_nat n) = 0 \<and> (\<forall>i < n. m (s + of_nat i) \<noteq> 0)"

lemma strlen_from_nul_at:
  assumes "nul_at m s n"
  shows "k \<le> n \<Longrightarrow> strlen_from m s (n - k) = Some n"
proof (induction k)
  case 0
  with assms show ?case by (simp add: strlen_from.simps nul_at_def)
next
  case (Suc k)
  then have "m (s + of_nat (n - Suc k)) \<noteq> 0" using assms by (simp add: nul_at_def del: of_nat_diff)
  moreover have "Suc (n - Suc k) = n - k" using Suc.prems by simp
  ultimately show ?case
    using Suc by (subst strlen_from.simps) (simp only: simp_thms if_True Suc_leD)
qed

lemma strlen_nul_at: "nul_at m s n \<Longrightarrow> strlen m s = Some n"
  using strlen_from_nul_at [of m s n n] by (simp add: strlen_def)

lemma pad_zero_apply:
  "k \<le> 2 ^ 32 \<Longrightarrow> pad_zero m s k x = (if unat (x - s) < k then 0 else m x)"
proof (induction k arbitrary: m s)
  case 0
  then show ?case by simp
next
  case (Suc k)
  show ?case
  proof (cases "x = s")
    case True
    with Suc show ?thesis by (simp only: pad_zero.simps unat_neg_one_addr) simp
  next
    case False
    with Suc show ?thesis by (simp add: word_diff_Suc)
  qed
qed

lemma safestrcpy_loop_nul:
  "\<exists>j \<le> k. safestrcpy_loop m s t k (s + of_nat j) = 0"
proof (induction k arbitrary: m s t)
  case 0
  then show ?case by simp
next
  case (Suc k)
  show ?case
  proof (cases "m t \<noteq> 0")
    case True
    obtain j where j: "j \<le> k" "safestrcpy_loop (m(s := m t)) (s + 1) (t + 1) k (s + 1 + of_nat j) = 0"
      using Suc.IH by blast
    then have "safestrcpy_loop m s t (Suc k) (s + of_nat (Suc j)) = 0"
      using True by (simp add: ac_simps)
    with j(1) show ?thesis by (intro exI [of _ "Suc j"]) (simp add: add.assoc)
  next
    case False
    then have "safestrcpy_loop m s t (Suc k) (s + of_nat (Suc 0)) = 0" by simp
    then show ?thesis by (intro exI [of _ "Suc 0"]) simp
  qed
qed

lemma safestrcpy_loop_frame:
  "k < 2 ^ 32 \<Longrightarrow> k < unat (x - s) \<Longrightarrow> safestrcpy_loop m s t k x = m x"
proof (induction k arbitrary: m s t)
  case 0
  then show ?case by auto
next
  case (Suc k)
  then have "x \<noteq> s" by auto
  then have u: "unat (x - s) = Suc (unat (x - (s + 1)))" by (rule word_diff_Suc)
  then have "x \<noteq> s + 1" using Suc.prems by auto
  with Suc u \<open>x \<noteq> s\<close> show ?case by auto
qed

end
