(* ===== verification/Machine.thy ===== *)
theory Machine
  imports Memory
begin

text \<open>
  What every kernel component shares: the compile-time constants of \<^verbatim>\<open>param.h\<close>,
  \<^verbatim>\<open>memlayout.h\<close> and \<^verbatim>\<open>mmu.h\<close>, the names of the kernel's spinlocks and wait channels, the part
  of the state all routines see, and the discipline of holding locks.

  A pointer to a lock or to a wait channel in the C code is only compared, so it is modelled
  by a name. The routines of this level see a spinlock through the list of the locks the
  executing processor holds (\<open>held\<close>, most recent first); the theory \<open>Spinlock\<close> models
  \<^verbatim>\<open>spinlock.c\<close> itself and shows that it behaves like this list.
\<close>

section \<open>Constants\<close>

definition NPROC :: nat where "NPROC = 64"
definition KSTACKSIZE :: uint32 where "KSTACKSIZE = 4096"
definition NCPU :: nat where "NCPU = 8"
definition NOFILE :: nat where "NOFILE = 16"
definition NFILE :: nat where "NFILE = 100"
definition NINODE :: nat where "NINODE = 50"
definition NDEV :: nat where "NDEV = 10"
definition ROOTDEV :: uint32 where "ROOTDEV = 1"
definition MAXARG :: nat where "MAXARG = 32"
definition MAXOPBLOCKS :: nat where "MAXOPBLOCKS = 10"
definition LOGSIZE :: nat where "LOGSIZE = MAXOPBLOCKS * 3"
definition NBUF :: nat where "NBUF = MAXOPBLOCKS * 3"
definition FSSIZE :: nat where "FSSIZE = 1000"
definition NTHREAD :: nat where "NTHREAD = 16"
definition MAX_MUTEXES :: nat where "MAX_MUTEXES = 64"

lemmas param_defs =
  NPROC_def KSTACKSIZE_def NCPU_def NOFILE_def NFILE_def NINODE_def NDEV_def ROOTDEV_def
  MAXARG_def MAXOPBLOCKS_def LOGSIZE_def NBUF_def FSSIZE_def NTHREAD_def MAX_MUTEXES_def

definition PHYSTOP :: uint32 where "PHYSTOP = 0xE000000"
definition EXTMEM :: uint32 where "EXTMEM = 0x100000"
definition DEVSPACE :: uint32 where "DEVSPACE = 0xFE000000"
definition KERNBASE :: uint32 where "KERNBASE = 0x80000000"
definition KERNLINK :: uint32 where "KERNLINK = KERNBASE + EXTMEM"

definition V2P :: "addr \<Rightarrow> addr" where "V2P a = a - KERNBASE"
definition P2V :: "addr \<Rightarrow> addr" where "P2V a = a + KERNBASE"

definition PGSIZE :: uint32 where "PGSIZE = 4096"
definition FL_IF :: uint32 where "FL_IF = 0x200"

definition PGROUNDUP :: "uint32 \<Rightarrow> uint32" where
  "PGROUNDUP sz = (sz + PGSIZE - 1) AND NOT (PGSIZE - 1)"

definition PGROUNDDOWN :: "uint32 \<Rightarrow> uint32" where
  "PGROUNDDOWN a = a AND NOT (PGSIZE - 1)"

lemma V2P_P2V [simp]: "V2P (P2V a) = a" "P2V (V2P a) = a"
  by (simp_all add: V2P_def P2V_def)

text \<open>Rounding to a page boundary, in terms of the numbers.\<close>

lemma unat_PGROUNDDOWN: "unat (PGROUNDDOWN a) = 4096 * (unat a div 4096)"
proof -
  have m: "PGSIZE - 1 = (mask 12 :: uint32)" by (simp add: PGSIZE_def mask_eq_exp_minus_1)
  have "a AND NOT (mask 12) = push_bit 12 (drop_bit 12 a)"
    by (rule bit_word_eqI) (auto simp: bit_simps)
  moreover have "push_bit 12 (drop_bit 12 a) = a - take_bit 12 a"
    using bits_ident [of 12 a] by (simp add: algebra_simps)
  ultimately have "PGROUNDDOWN a = a - take_bit 12 a" by (simp add: PGROUNDDOWN_def m)
  moreover have u: "unat (take_bit 12 a) = unat a mod 4096"
    by (simp add: take_bit_eq_mod unat_mod_distrib)
  moreover have "take_bit 12 a \<le> a" by (simp add: word_le_nat_alt u)
  ultimately have "unat (PGROUNDDOWN a) = unat a - unat a mod 4096" by (simp add: unat_sub)
  then show ?thesis by (simp add: minus_mod_eq_mult_div)
qed

lemma unat_PGROUNDUP:
  assumes "unat a + 4095 < 2 ^ 32"
  shows "unat (PGROUNDUP a) = 4096 * ((unat a + 4095) div 4096)"
proof -
  have "unat (a + 4095) = unat a + 4095" using assms by (simp add: unat_plus_if')
  moreover have "PGROUNDUP a = PGROUNDDOWN (a + 4095)"
    by (simp add: PGROUNDUP_def PGROUNDDOWN_def PGSIZE_def ac_simps)
  ultimately show ?thesis by (simp add: unat_PGROUNDDOWN)
qed

section \<open>Names of locks and wait channels\<close>

datatype sleeplock_id = BufLk nat | InodeLk nat

datatype lockid =
    PtableLock | MtableLock | MutexLock nat | KmemLock | BcacheLock | LogLock | IcacheLock
  | FtableLock | IdeLock | PipeLock addr | ConsLock | TicksLock | SleepLk sleeplock_id

datatype chan =
    ChThread nat nat | ChMutex nat | ChSleep sleeplock_id | ChBuf nat | ChLog
  | ChPipeRead addr | ChPipeWrite addr | ChTicks | ChInput

section \<open>The shared state\<close>

record mach =
  mem :: memory
  held :: "lockid list"

text \<open>
  \<^verbatim>\<open>acquire\<close> and \<^verbatim>\<open>release\<close> as the callers see them. A processor that waits for a lock another
  processor holds spins until that one lets go; the model continues at that point.
\<close>

definition lk_acquire :: "lockid \<Rightarrow> ('z mach_scheme, unit) kprog" where
  "lk_acquire l = kbind (kget held) (\<lambda>h.
     if l \<in> set h then kpanic ''acquire'' else kmod (\<lambda>s. s\<lparr>held := l # held s\<rparr>))"

definition lk_release :: "lockid \<Rightarrow> ('z mach_scheme, unit) kprog" where
  "lk_release l = kbind (kget held) (\<lambda>h.
     if l \<notin> set h then kpanic ''release'' else kmod (\<lambda>s. s\<lparr>held := remove1 l (held s)\<rparr>))"

lemma held_same [simp]: "held s = h \<Longrightarrow> s\<lparr>held := h\<rparr> = s"
  by auto

lemma lk_acquire_apply:
  "lk_acquire l s e =
     (if l \<in> set (held s) then Panic ''acquire'' else Ok () (s\<lparr>held := l # held s\<rparr>) e)"
  by (simp add: lk_acquire_def kdefs)

lemma lk_release_apply:
  "lk_release l s e =
     (if l \<notin> set (held s) then Panic ''release'' else Ok () (s\<lparr>held := remove1 l (held s)\<rparr>) e)"
  by (simp add: lk_release_def kdefs)

section \<open>Lock discipline\<close>

text \<open>
  \<open>lk_ok h m H\<close>: started with exactly the locks \<open>h\<close> held, the routine \<open>m\<close> never panics for a
  reason of locking; if it returns \<open>r\<close> it holds exactly \<open>H r\<close>; if it leaves through
  \<^verbatim>\<open>kthread_exit\<close> it holds nothing; and when it hands the processor to the scheduler it holds
  the process table's lock and nothing else.
\<close>

definition lock_panics :: "string set" where
  "lock_panics = {''acquire'', ''release'', ''sched ptable.lock'', ''sched locks''}"

fun lk_post :: "('a \<Rightarrow> lockid list) \<Rightarrow> ('z mach_scheme, 'a) res \<Rightarrow> bool" where
  "lk_post H (Ok r s e) = (held s = H r)"
| "lk_post H (Panic msg) = (msg \<notin> lock_panics)"
| "lk_post H (Dies s e) = (held s = [])"
| "lk_post H (Gone s) = (held s = [PtableLock])"
| "lk_post H (Blocked s) = (held s = [PtableLock])"
| "lk_post H (Spins s) = True"

definition lk_ok ::
    "lockid list \<Rightarrow> ('z mach_scheme, 'a) kprog \<Rightarrow> ('a \<Rightarrow> lockid list) \<Rightarrow> bool" where
  "lk_ok h m H \<longleftrightarrow> (\<forall>s e. held s = h \<longrightarrow> lk_post H (m s e))"

text \<open>A routine that returns with the locks it was called with.\<close>

abbreviation lk_bal :: "lockid list \<Rightarrow> ('z mach_scheme, 'a) kprog \<Rightarrow> bool" where
  "lk_bal h m \<equiv> lk_ok h m (\<lambda>_. h)"

lemma lk_okI: "(\<And>s e. held s = h \<Longrightarrow> lk_post H (m s e)) \<Longrightarrow> lk_ok h m H"
  by (simp add: lk_ok_def)

lemma lk_okD: "lk_ok h m H \<Longrightarrow> held s = h \<Longrightarrow> lk_post H (m s e)"
  by (simp add: lk_ok_def)

lemma lk_ok_kret [klock]: "h = H x \<Longrightarrow> lk_ok h (kret x) H"
  by (simp add: lk_ok_def)

lemma lk_bal_kret [klock]: "lk_bal h (kret x)"
  by (simp add: lk_ok_def)

lemma lk_ok_kget [klock]: "lk_bal h (kget f)"
  by (simp add: lk_ok_def)

lemma lk_ok_kpanic [klock]: "msg \<notin> lock_panics \<Longrightarrow> lk_ok h (kpanic msg) H"
  by (simp add: lk_ok_def)

lemma lk_ok_kmod [klock]: "(\<And>s. held (f s) = held s) \<Longrightarrow> lk_bal h (kmod f)"
  by (simp add: lk_ok_def)

lemma lk_ok_kbind [klock]:
  fixes m :: "('z mach_scheme, 'a) kprog"
  assumes "lk_ok h m H1" and "\<And>x. lk_ok (H1 x) (f x) H"
  shows "lk_ok h (kbind m f) H"
proof (rule lk_okI)
  fix s :: "'z mach_scheme" and e :: "'z mach_scheme env"
  assume "held s = h"
  with assms(1) have m: "lk_post H1 (m s e)" by (rule lk_okD)
  show "lk_post H (kbind m f s e)"
  proof (cases "m s e")
    case (Ok x s' e')
    with m lk_okD [OF assms(2) [of x]] show ?thesis by simp
  qed (use m in \<open>simp_all add: kbind_def\<close>)
qed

lemma lk_ok_kseq [klock]: "lk_ok h m (\<lambda>_. h1) \<Longrightarrow> lk_ok h1 n H \<Longrightarrow> lk_ok h (kseq m n) H"
  unfolding kseq_def by (rule lk_ok_kbind)

lemma lk_ok_kwhen [klock]: "(b \<Longrightarrow> lk_bal h m) \<Longrightarrow> lk_bal h (kwhen b m)"
  by (simp add: kwhen_def lk_ok_kret)

lemma lk_ok_if [klock]:
  "(b \<Longrightarrow> lk_ok h m H) \<Longrightarrow> (\<not> b \<Longrightarrow> lk_ok h n H) \<Longrightarrow> lk_ok h (if b then m else n) H"
  by simp

lemma lk_ok_option [klock]:
  "(x = None \<Longrightarrow> lk_ok h m H) \<Longrightarrow> (\<And>y. x = Some y \<Longrightarrow> lk_ok h (f y) H) \<Longrightarrow>
   lk_ok h (case x of None \<Rightarrow> m | Some y \<Rightarrow> f y) H"
  by (cases x) simp_all

lemma lk_ok_sum [klock]:
  "(\<And>y. x = Inl y \<Longrightarrow> lk_ok h (f y) H) \<Longrightarrow> (\<And>y. x = Inr y \<Longrightarrow> lk_ok h (g y) H) \<Longrightarrow>
   lk_ok h (case x of Inl y \<Rightarrow> f y | Inr y \<Rightarrow> g y) H"
  by (cases x) simp_all

lemma lk_ok_prod [klock]:
  "(\<And>a b. x = (a, b) \<Longrightarrow> lk_ok h (f a b) H) \<Longrightarrow> lk_ok h (case x of (a, b) \<Rightarrow> f a b) H"
  by (cases x) simp

lemma lk_ok_Let [klock]: "lk_ok h (f x) H \<Longrightarrow> lk_ok h (let y = x in f y) H"
  by simp

lemma lk_ok_kfor [klock]: "(\<And>x. lk_bal h (f x)) \<Longrightarrow> lk_bal h (kfor f xs)"
  by (induction xs) (auto intro: lk_ok_kret lk_ok_kseq)

text \<open>
  A loop: an iteration that goes on leaves the locks as they were at its start, one that ends
  the loop may hold other ones.
\<close>

lemma lk_ok_kloop [klock]:
  assumes "\<And>x. lk_ok h (f x) (\<lambda>r. case r of Inl _ \<Rightarrow> h | Inr a \<Rightarrow> H a)"
  shows "lk_ok h (kloop n f x) H"
proof (induction n arbitrary: x)
  case 0
  show ?case by (simp add: lk_ok_def)
next
  case (Suc n)
  show ?case unfolding kloop.simps
  proof (rule lk_ok_kbind [OF assms])
    fix r
    show "lk_ok (case r of Inl _ \<Rightarrow> h | Inr a \<Rightarrow> H a)
        (case r of Inl x' \<Rightarrow> kloop n f x' | Inr a \<Rightarrow> kret a) H"
      by (cases r) (auto intro: Suc.IH lk_ok_kret)
  qed
qed

lemma lk_ok_kwait [klock]:
  fixes f :: "('z mach_scheme, 'a option) kprog"
  assumes "lk_ok h f (\<lambda>r. case r of None \<Rightarrow> h | Some a \<Rightarrow> H a)"
  shows "lk_ok h (kwait f) H"
proof (rule lk_okI)
  fix s :: "'z mach_scheme" and e :: "'z mach_scheme env"
  assume held: "held s = h"
  let ?f = "\<lambda>_ :: unit. kbind f (\<lambda>r. case r of None \<Rightarrow> kret (Inl ()) | Some a \<Rightarrow> kret (Inr a))"
  have "lk_ok h (kloop (Suc (length e)) ?f ()) H"
    by (rule lk_ok_kloop, rule lk_ok_kbind [OF assms]) (auto intro: klock split: option.splits)
  from lk_okD [OF this held] show "lk_post H (kwait f s e)" by (simp only: kwait_def)
qed

lemma lk_ok_acquire [klock]: "l \<notin> set h \<Longrightarrow> lk_ok h (lk_acquire l) (\<lambda>_. l # h)"
  by (simp add: lk_ok_def lk_acquire_apply)

lemma lk_ok_release [klock]:
  "l \<in> set h \<Longrightarrow> h' = remove1 l h \<Longrightarrow> lk_ok h (lk_release l) (\<lambda>_. h')"
  by (simp add: lk_ok_def lk_release_apply)

end
