(* ===== verification/Kstate.thy ===== *)
theory Kstate
  imports Machine
begin

text \<open>
  The data of the kernel: the structures of \<^verbatim>\<open>proc.h\<close>, \<^verbatim>\<open>kthread.h\<close>, \<^verbatim>\<open>sleeplock.h\<close>,
  \<^verbatim>\<open>buf.h\<close>, \<^verbatim>\<open>fs.h\<close>, \<^verbatim>\<open>file.h\<close>, of the log, the pipes and the console, and one record with all
  the global variables. A pointer into one of the static tables is an index into the list that
  models the table; a null pointer is \<open>None\<close>. A page obtained from \<^verbatim>\<open>kalloc\<close> is an address.
  The spinlock inside a structure is named by its \<open>lockid\<close>.
\<close>

section \<open>Threads and processes\<close>

datatype threadstate = T_UNUSED | T_EMBRYO | T_SLEEPING | T_RUNNABLE | T_RUNNING | T_ZOMBIE

datatype procstate = UNUSED | USED | ZOMBIE

type_synonym tptr = "nat \<times> nat"

text \<open>A thread is addressed by its process and its slot in the process's table.\<close>

record thread =
  kstack :: addr
  tstate :: threadstate
  tf :: addr
  tid :: uint32
  tparent :: "nat option"
  tcontext :: addr
  tchan :: "chan option"
  shouldDie :: uint32
  next_thread :: "tptr option"
  mutex_flag :: uint32
  tname :: string

record proc =
  psz :: uint32
  pgdir :: addr
  pstate :: procstate
  pid :: uint32
  pparent :: "nat option"
  killed :: uint32
  ofile :: "nat option list"
  cwd :: "nat option"
  ttable :: "thread list"
  pname :: string
  numOfthread :: uint32

datatype mutexState = UNINITIALIZED | OPEN | CLOSE

record mutex =
  mid :: uint32
  mlock :: uint32
  numOfWaiting :: uint32
  mstate :: mutexState
  mholding :: "tptr option"
  pid_holder :: uint32

section \<open>Buffers, the log and the file system\<close>

record sleeplock =
  slocked :: uint32
  slpid :: uint32

record buf =
  bflags :: uint32
  bdev :: uint32
  blockno :: uint32
  block :: sleeplock
  refcnt :: uint32
  bprev :: nat
  bnext :: nat
  bdata :: "uchar list"

definition B_VALID :: uint32 where "B_VALID = 2"
definition B_DIRTY :: uint32 where "B_DIRTY = 4"
definition BSIZE :: nat where "BSIZE = 512"

record logheader =
  lh_n :: nat
  lh_block :: "uint32 list"

record logst =
  lstart :: uint32
  lsize :: uint32
  outstanding :: int
  committing :: uint32
  ldev :: uint32
  lh :: logheader

record superblock =
  sb_size :: uint32
  sb_nblocks :: uint32
  sb_ninodes :: uint32
  sb_nlog :: uint32
  sb_logstart :: uint32
  sb_inodestart :: uint32
  sb_bmapstart :: uint32

record inode =
  idev :: uint32
  inum :: uint32
  iref :: int
  ilk :: sleeplock
  ivalid :: uint32
  itype :: ushort
  imajor :: ushort
  iminor :: ushort
  inlink :: ushort
  isize :: uint32
  iaddrs :: "uint32 list"

datatype ftype = FD_NONE | FD_PIPE | FD_INODE

record filest =
  ftyp :: ftype
  fref :: int
  freadable :: uchar
  fwritable :: uchar
  fpipe :: addr
  fip :: "nat option"
  foff :: uint32

record pipe =
  pdata :: "uchar list"
  nread :: uint32
  nwrite :: uint32
  readopen :: uint32
  writeopen :: uint32

record consinput =
  cbuf :: "uchar list"
  cr :: uint32
  cw :: uint32
  ce :: uint32

text \<open>The screen: the cursor position in the controller's registers and the cells of the CGA memory.\<close>

record cga =
  cpos :: int
  crt :: "ushort list"

section \<open>The global variables\<close>

text \<open>
  \<open>syms\<close> holds the addresses the linker fixes and the bytes of \<^verbatim>\<open>initcode\<close>; no routine changes
  them. The buffer cache's list head \<^verbatim>\<open>bcache.head\<close> is the entry \<^verbatim>\<open>NBUF\<close> of \<open>bufs\<close>. \<open>curproc\<close>
  and \<open>curthread\<close> are \<^verbatim>\<open>proc\<close> and \<^verbatim>\<open>thread\<close> of the executing processor. \<open>dwrites\<close> is no variable
  of the code: it records the blocks written to the disk, in order, for the theorems about crashes.
  \<open>cons_out\<close> is what the serial port was sent, \<open>kbd_shift\<close> the static variable of \<^verbatim>\<open>kbdgetc\<close>. An
  entry of \<open>devsw\<close> says whether the device has the console's handlers, the only ones there are.
\<close>

record symbols =
  sym_end :: addr
  sym_data :: addr
  sym_forkret :: addr
  sym_trapret :: addr
  sym_initcode :: "uchar list"

record kernel = mach +
  syms :: symbols
  use_lock :: uint32
  freelist :: addr
  kpgdir :: addr
  cr3 :: addr
  tss_esp0 :: addr
  ptable :: "proc list"
  nextpid :: uint32
  nexttid :: uint32
  initproc :: "nat option"
  curproc :: "nat option"
  curthread :: "tptr option"
  first :: uint32
  mtable :: "mutex list"
  nextmid :: uint32
  ticks :: uint32
  bufs :: "buf list"
  memdisk :: "nat \<Rightarrow> uchar list"
  disksize :: nat
  dwrites :: "(nat \<times> uchar list) list"
  klog :: logst
  sb :: superblock
  icache :: "inode list"
  ftable :: "filest list"
  pipes :: "addr \<Rightarrow> pipe"
  input :: consinput
  cons_locking :: uint32
  uart :: uint32
  cons_out :: "uchar list"
  screen :: cga
  kbd_shift :: uint32
  devsw :: "bool list"

type_synonym 'a kern = "(kernel, 'a) kprog"

text \<open>
  The state the loader leaves: the tables are zero, the counters have their initial values.
  It depends on the addresses of the image, the contents of memory and of the disk.
\<close>

definition thread0 :: thread where
  "thread0 = \<lparr>kstack = 0, tstate = T_UNUSED, tf = 0, tid = 0, tparent = None, tcontext = 0,
     tchan = None, shouldDie = 0, next_thread = None, mutex_flag = 0, tname = []\<rparr>"

definition proc0 :: proc where
  "proc0 = \<lparr>psz = 0, pgdir = 0, pstate = UNUSED, pid = 0, pparent = None, killed = 0,
     ofile = replicate NOFILE None, cwd = None, ttable = replicate NTHREAD thread0,
     pname = [], numOfthread = 0\<rparr>"

definition mutex0 :: mutex where
  "mutex0 = \<lparr>mid = 0, mlock = 0, numOfWaiting = 0, mstate = UNINITIALIZED, mholding = None,
     pid_holder = 0\<rparr>"

definition buf0 :: buf where
  "buf0 = \<lparr>bflags = 0, bdev = 0, blockno = 0, block = \<lparr>slocked = 0, slpid = 0\<rparr>, refcnt = 0,
     bprev = 0, bnext = 0, bdata = replicate BSIZE 0\<rparr>"

definition inode0 :: inode where
  "inode0 = \<lparr>idev = 0, inum = 0, iref = 0, ilk = \<lparr>slocked = 0, slpid = 0\<rparr>, ivalid = 0,
     itype = 0, imajor = 0, iminor = 0, inlink = 0, isize = 0, iaddrs = replicate 13 0\<rparr>"

definition file0 :: filest where
  "file0 = \<lparr>ftyp = FD_NONE, fref = 0, freadable = 0, fwritable = 0, fpipe = 0, fip = None, foff = 0\<rparr>"

definition pipe0 :: pipe where
  "pipe0 = \<lparr>pdata = replicate 512 0, nread = 0, nwrite = 0, readopen = 0, writeopen = 0\<rparr>"

definition boot :: "symbols \<Rightarrow> memory \<Rightarrow> (nat \<Rightarrow> uchar list) \<Rightarrow> nat \<Rightarrow> kernel" where
  "boot sy m d n = \<lparr>mem = m, held = [], syms = sy, use_lock = 0, freelist = 0, kpgdir = 0,
     cr3 = 0, tss_esp0 = 0, ptable = replicate NPROC proc0, nextpid = 1, nexttid = 1,
     initproc = None, curproc = None, curthread = None, first = 1,
     mtable = replicate MAX_MUTEXES mutex0, nextmid = 1, ticks = 0,
     bufs = replicate (Suc NBUF) buf0, memdisk = d, disksize = n, dwrites = [],
     klog = \<lparr>lstart = 0, lsize = 0, outstanding = 0, committing = 0, ldev = 0,
       lh = \<lparr>lh_n = 0, lh_block = replicate LOGSIZE 0\<rparr>\<rparr>,
     sb = \<lparr>sb_size = 0, sb_nblocks = 0, sb_ninodes = 0, sb_nlog = 0, sb_logstart = 0,
       sb_inodestart = 0, sb_bmapstart = 0\<rparr>,
     icache = replicate NINODE inode0, ftable = replicate NFILE file0, pipes = (\<lambda>_. pipe0),
     input = \<lparr>cbuf = replicate 128 0, cr = 0, cw = 0, ce = 0\<rparr>, cons_locking = 0, uart = 0, cons_out = [],
     screen = \<lparr>cpos = 0, crt = replicate 2000 0\<rparr>, kbd_shift = 0, devsw = replicate NDEV False\<rparr>"

lemmas boot_defs = boot_def thread0_def proc0_def mutex0_def buf0_def inode0_def file0_def pipe0_def

text \<open>A small concrete state, with one running thread, at which the properties are tried out.\<close>

definition sample_thread :: thread where
  "sample_thread = thread0\<lparr>kstack := 0x80300000, tstate := T_RUNNING, tid := 1, tparent := Some 0\<rparr>"

definition sample_proc :: proc where
  "sample_proc = proc0\<lparr>pgdir := 0x80400000, pstate := USED, pid := 1,
     ttable := [sample_thread, thread0]\<rparr>"

definition sample :: "lockid list \<Rightarrow> kernel" where
  "sample h = (boot \<lparr>sym_end = 0x80110000, sym_data = 0x80108000, sym_forkret = 0x80103000,
      sym_trapret = 0x80105000, sym_initcode = []\<rparr> (\<lambda>_. 0) (\<lambda>_. []) 0)
    \<lparr>held := h, ptable := [sample_proc, proc0], curproc := Some 0, curthread := Some (0, 0),
     nextpid := 2, nexttid := 2, mtable := [mutex0]\<rparr>"

lemma sample_sel [simp]:
  "held (sample h) = h" "mem (sample h) = (\<lambda>_. 0)" "ptable (sample h) = [sample_proc, proc0]"
  "curproc (sample h) = Some 0" "curthread (sample h) = Some (0, 0)" "nextpid (sample h) = 2"
  "nexttid (sample h) = 2" "mtable (sample h) = [mutex0]" "nextmid (sample h) = 1"
  "freelist (sample h) = 0" "use_lock (sample h) = 0" "ticks (sample h) = 0" "cr3 (sample h) = 0"
  "syms (sample h) = \<lparr>sym_end = 0x80110000, sym_data = 0x80108000, sym_forkret = 0x80103000,
      sym_trapret = 0x80105000, sym_initcode = []\<rparr>"
  by (simp_all add: sample_def boot_def)

lemmas sample_defs = sample_proc_def sample_thread_def proc0_def thread0_def mutex0_def

section \<open>Access to the tables\<close>

definition thread_at :: "kernel \<Rightarrow> tptr \<Rightarrow> thread" where
  "thread_at s t = ttable (ptable s ! fst t) ! snd t"

definition upd_proc :: "nat \<Rightarrow> (proc \<Rightarrow> proc) \<Rightarrow> kernel \<Rightarrow> kernel" where
  "upd_proc p f s = s\<lparr>ptable := upd_nth p f (ptable s)\<rparr>"

definition upd_thread :: "tptr \<Rightarrow> (thread \<Rightarrow> thread) \<Rightarrow> kernel \<Rightarrow> kernel" where
  "upd_thread t f = upd_proc (fst t) (\<lambda>p. p\<lparr>ttable := upd_nth (snd t) f (ttable p)\<rparr>)"

definition upd_buf :: "nat \<Rightarrow> (buf \<Rightarrow> buf) \<Rightarrow> kernel \<Rightarrow> kernel" where
  "upd_buf b f s = s\<lparr>bufs := upd_nth b f (bufs s)\<rparr>"

definition upd_inode :: "nat \<Rightarrow> (inode \<Rightarrow> inode) \<Rightarrow> kernel \<Rightarrow> kernel" where
  "upd_inode i f s = s\<lparr>icache := upd_nth i f (icache s)\<rparr>"

definition upd_file :: "nat \<Rightarrow> (filest \<Rightarrow> filest) \<Rightarrow> kernel \<Rightarrow> kernel" where
  "upd_file i f s = s\<lparr>ftable := upd_nth i f (ftable s)\<rparr>"

definition upd_mutex :: "nat \<Rightarrow> (mutex \<Rightarrow> mutex) \<Rightarrow> kernel \<Rightarrow> kernel" where
  "upd_mutex i f s = s\<lparr>mtable := upd_nth i f (mtable s)\<rparr>"

definition upd_pipe :: "addr \<Rightarrow> (pipe \<Rightarrow> pipe) \<Rightarrow> kernel \<Rightarrow> kernel" where
  "upd_pipe a f s = s\<lparr>pipes := (pipes s)(a := f (pipes s a))\<rparr>"

lemma held_upd [simp]:
  "held (upd_proc p f s) = held s" "held (upd_thread t g s) = held s"
  "held (upd_buf b h s) = held s" "held (upd_inode i k s) = held s"
  "held (upd_file j l s) = held s" "held (upd_mutex n u s) = held s"
  "held (upd_pipe a v s) = held s"
  by (simp_all add: upd_proc_def upd_thread_def upd_buf_def upd_inode_def upd_file_def
      upd_mutex_def upd_pipe_def)

text \<open>A pointer to a slot that exists.\<close>

definition valid_thread :: "kernel \<Rightarrow> tptr \<Rightarrow> bool" where
  "valid_thread s t \<longleftrightarrow> fst t < length (ptable s) \<and> snd t < length (ttable (ptable s ! fst t))"

lemma thread_at_upd_thread:
  "valid_thread s u \<Longrightarrow>
   thread_at (upd_thread t f s) u = (if t = u then f (thread_at s u) else thread_at s u)"
  by (cases t; cases u; cases "fst t = fst u")
    (auto simp: thread_at_def upd_thread_def upd_proc_def valid_thread_def)

lemma thread_at_upd_proc:
  "valid_thread s u \<Longrightarrow> (\<And>p. ttable (f p) = ttable p) \<Longrightarrow>
   thread_at (upd_proc q f s) u = thread_at s u"
  by (cases "q = fst u") (auto simp: thread_at_def upd_proc_def valid_thread_def)

lemma valid_thread_upd_thread [simp]: "valid_thread (upd_thread t f s) u = valid_thread s u"
  by (cases "fst t = fst u"; cases "fst u < length (ptable s)")
    (auto simp: valid_thread_def upd_thread_def upd_proc_def)

lemma valid_thread_upd_proc:
  "(\<And>p. ttable (f p) = ttable p) \<Longrightarrow> valid_thread (upd_proc q f s) u = valid_thread s u"
  by (cases "q = fst u"; cases "fst u < length (ptable s)") (auto simp: valid_thread_def upd_proc_def)

lemma thread_at_cong: "ptable s' = ptable s \<Longrightarrow> thread_at s' t = thread_at s t"
  by (simp add: thread_at_def)

lemma valid_thread_cong: "ptable s' = ptable s \<Longrightarrow> valid_thread s' t = valid_thread s t"
  by (simp add: valid_thread_def)

lemma upd_sel [simp]:
  "ptable (upd_proc p f s) = upd_nth p f (ptable s)"
  "curthread (upd_proc p f s) = curthread s" "curproc (upd_proc p f s) = curproc s"
  "curthread (upd_thread t g s) = curthread s" "curproc (upd_thread t g s) = curproc s"
  "mem (upd_proc p f s) = mem s" "mem (upd_thread t g s) = mem s"
  "freelist (upd_proc p f s) = freelist s" "freelist (upd_thread t g s) = freelist s"
  "use_lock (upd_proc p f s) = use_lock s" "use_lock (upd_thread t g s) = use_lock s"
  "syms (upd_proc p f s) = syms s" "syms (upd_thread t g s) = syms s"
  "nextpid (upd_proc p f s) = nextpid s" "nextpid (upd_thread t g s) = nextpid s"
  "nexttid (upd_proc p f s) = nexttid s" "nexttid (upd_thread t g s) = nexttid s"
  by (simp_all add: upd_proc_def upd_thread_def)

text \<open>\<^verbatim>\<open>myproc()\<close> and \<^verbatim>\<open>mythread()\<close>: the entries of the executing processor.\<close>

definition myproc :: "nat option kern" where
  "myproc = kget curproc"

definition mythread :: "tptr option kern" where
  "mythread = kget curthread"

text \<open>
  Following a null process or thread pointer inside the kernel faults, and \<^verbatim>\<open>trap\<close> then panics
  with this message.
\<close>

definition deref :: "'x option \<Rightarrow> ('x \<Rightarrow> 'a kern) \<Rightarrow> 'a kern" where
  "deref p f = (case p of None \<Rightarrow> kpanic ''trap'' | Some x \<Rightarrow> f x)"

lemma deref_simps [simp]: "deref (Some x) f = f x" "deref None f = kpanic ''trap''"
  by (simp_all add: deref_def)

lemma trap_not_lock_panic [simp]: "''trap'' \<notin> lock_panics"
  by (simp add: lock_panics_def)

lemma lk_ok_deref [klock]: "(\<And>x. p = Some x \<Longrightarrow> lk_ok h (f x) H) \<Longrightarrow> lk_ok h (deref p f) H"
  by (cases p) (auto intro: klock)

lemma lk_ok_myproc [klock]: "lk_bal h myproc"
  unfolding myproc_def by (rule lk_ok_kget)

lemma lk_ok_mythread [klock]: "lk_bal h mythread"
  unfolding mythread_def by (rule lk_ok_kget)

section \<open>Memory access\<close>

definition mstore32 :: "addr \<Rightarrow> uint32 \<Rightarrow> unit kern" where
  "mstore32 a v = kmod (\<lambda>s. s\<lparr>mem := store32 (mem s) a v\<rparr>)"

definition mmod :: "(memory \<Rightarrow> memory) \<Rightarrow> unit kern" where
  "mmod f = kmod (\<lambda>s. s\<lparr>mem := f (mem s)\<rparr>)"

lemma lk_ok_mstore32 [klock]: "lk_bal h (mstore32 a v)"
  unfolding mstore32_def by (rule lk_ok_kmod) simp

lemma lk_ok_mmod [klock]: "lk_bal h (mmod f)"
  unfolding mmod_def by (rule lk_ok_kmod) simp

end
