(* ===== verification/Kalloc.thy ===== *)
theory Kalloc
  imports Kstate
begin

text \<open>
  \<^verbatim>\<open>kalloc.c\<close>: the physical page allocator. The free pages form a linked list through their
  own first words, in the byte memory; \<open>fl_chain\<close> reads that list off the memory, and the
  lemmas show that the routines work on it as on a stack of page addresses.
\<close>

section \<open>Operations\<close>

text \<open>\<^verbatim>\<open>if(kmem.use_lock) acquire(&kmem.lock)\<close>, and the same for \<^verbatim>\<open>release\<close>.\<close>

definition kmem_lock :: "unit kern" where
  "kmem_lock = kbind (kget use_lock) (\<lambda>u. kwhen (u \<noteq> 0) (lk_acquire KmemLock))"

definition kmem_unlock :: "unit kern" where
  "kmem_unlock = kbind (kget use_lock) (\<lambda>u. kwhen (u \<noteq> 0) (lk_release KmemLock))"

definition kfree :: "addr \<Rightarrow> unit kern" where
  "kfree v =
     kbind (kget (\<lambda>s. sym_end (syms s))) (\<lambda>end_addr.
     if v mod PGSIZE \<noteq> 0 \<or> v < end_addr \<or> V2P v \<ge> PHYSTOP then kpanic ''kfree''
     else
       kseq (mmod (\<lambda>m. memset m v 1 PGSIZE))
      (kseq kmem_lock
      (kseq (kmod (\<lambda>s. s\<lparr>mem := store32 (mem s) v (freelist s), freelist := v\<rparr>))
      kmem_unlock)))"

definition kalloc :: "addr kern" where
  "kalloc =
     kseq kmem_lock
    (kbind (kget freelist) (\<lambda>r.
     kseq (kwhen (r \<noteq> 0) (kmod (\<lambda>s. s\<lparr>freelist := load32 (mem s) r\<rparr>)))
    (kseq kmem_unlock (kret r))))"

text \<open>
  The loop of \<^verbatim>\<open>freerange\<close>. The page number fits in 20 bits, and a page address that has wrapped
  around is refused by \<^verbatim>\<open>kfree\<close>, so \<open>2 ^ 20\<close> iterations are enough.
\<close>

definition freerange :: "addr \<Rightarrow> addr \<Rightarrow> unit kern" where
  "freerange vstart vend = kloop (Suc (2 ^ 20)) (\<lambda>p.
     if p + PGSIZE \<le> vend then kseq (kfree p) (kret (Inl (p + PGSIZE))) else kret (Inr ()))
     (PGROUNDUP vstart)"

definition kinit1 :: "addr \<Rightarrow> addr \<Rightarrow> unit kern" where
  "kinit1 vstart vend = kseq (kmod (\<lambda>s. s\<lparr>use_lock := 0\<rparr>)) (freerange vstart vend)"

definition kinit2 :: "addr \<Rightarrow> addr \<Rightarrow> unit kern" where
  "kinit2 vstart vend = kseq (freerange vstart vend) (kmod (\<lambda>s. s\<lparr>use_lock := 1\<rparr>))"

section \<open>Lock discipline\<close>

lemma kmem_lock_apply:
  "kmem_lock s e = (if use_lock s = 0 then Ok () s e else lk_acquire KmemLock s e)"
  by (simp add: kmem_lock_def kdefs)

lemma kmem_unlock_apply:
  "kmem_unlock s e = (if use_lock s = 0 then Ok () s e else lk_release KmemLock s e)"
  by (simp add: kmem_unlock_def kdefs)

definition page_ok :: "kernel \<Rightarrow> addr \<Rightarrow> bool" where
  "page_ok s v \<longleftrightarrow> v mod PGSIZE = 0 \<and> sym_end (syms s) \<le> v \<and> V2P v < PHYSTOP"

lemma kfree_eq:
  assumes "KmemLock \<notin> set (held s)"
  shows "kfree v s e =
    (if page_ok s v
     then Ok () (s\<lparr>mem := store32 (memset (mem s) v 1 PGSIZE) v (freelist s), freelist := v\<rparr>) e
     else Panic ''kfree'')"
  using assms
  by (auto simp: kfree_def kdefs page_ok_def mmod_def kmem_lock_apply kmem_unlock_apply
      lk_acquire_apply lk_release_apply not_le)

lemma kalloc_eq:
  assumes "KmemLock \<notin> set (held s)"
  shows "kalloc s e =
    Ok (freelist s) (if freelist s = 0 then s else s\<lparr>freelist := load32 (mem s) (freelist s)\<rparr>) e"
  using assms
  by (auto simp: kalloc_def kdefs kmem_lock_apply kmem_unlock_apply lk_acquire_apply
      lk_release_apply)

lemma kfree_not_lock_panic: "''kfree'' \<notin> lock_panics"
  by (simp add: lock_panics_def)

lemma lk_ok_kfree [klock]: "KmemLock \<notin> set h \<Longrightarrow> lk_bal h (kfree v)"
  by (rule lk_okI) (simp add: kfree_eq kfree_not_lock_panic)

lemma lk_ok_kalloc [klock]: "KmemLock \<notin> set h \<Longrightarrow> lk_bal h kalloc"
  by (rule lk_okI) (simp add: kalloc_eq)

section \<open>The free list as a list of pages\<close>

text \<open>\<open>fl_chain m a ps\<close>: following the next pointers from \<open>a\<close> visits the pages \<open>ps\<close> and ends at 0.\<close>

primrec fl_chain :: "memory \<Rightarrow> addr \<Rightarrow> addr list \<Rightarrow> bool" where
  "fl_chain m a [] \<longleftrightarrow> a = 0"
| "fl_chain m a (p # ps) \<longleftrightarrow> a = p \<and> p \<noteq> 0 \<and> fl_chain m (load32 m p) ps"

text \<open>The abstract allocator: a stack of distinct usable pages.\<close>

definition kmem_inv :: "kernel \<Rightarrow> addr list \<Rightarrow> bool" where
  "kmem_inv s ps \<longleftrightarrow> fl_chain (mem s) (freelist s) ps \<and> distinct ps \<and>
     (\<forall>p \<in> set ps. page_ok s p) \<and> 0 < sym_end (syms s)"

text \<open>Pages do not overlap: an access inside one is outside every other.\<close>

lemma page_unat: "v mod PGSIZE = 0 \<Longrightarrow> unat v mod 4096 = 0"
  using unat_mod_distrib [of v PGSIZE] by (simp add: PGSIZE_def)

lemma page_unatE:
  assumes "v mod PGSIZE = 0"
  obtains a where "unat v = 4096 * a"
  using page_unat [OF assms] unfolding mod_eq_0_iff_dvd by (rule dvdE)

lemma page_aligned4: "v mod PGSIZE = 0 \<Longrightarrow> aligned4 v"
proof -
  assume "v mod PGSIZE = 0"
  then obtain a where "unat v = 4096 * a" by (rule page_unatE)
  then have "unat v = 4 * (1024 * a)" by simp
  then show ?thesis by (simp only: aligned4_def mod_mult_self1_is_0)
qed

lemma pages_apart:
  assumes "p mod PGSIZE = 0" "v mod PGSIZE = 0" "p \<noteq> v" "i < 4096"
  shows "\<not> unat (p + of_nat i - v) < 4096"
proof -
  obtain a where a: "unat p = 4096 * a" using assms(1) by (rule page_unatE)
  obtain b where b: "unat v = 4096 * b" using assms(2) by (rule page_unatE)
  have ne: "a \<noteq> b" using assms(3) a b by (auto simp: word_unat_eq_iff)
  have bd: "a < 2 ^ 20" "b < 2 ^ 20" using unat_addr_lt [of p] unat_addr_lt [of v] a b by simp_all
  then have pi: "unat (p + of_nat i) = unat p + i" using a assms(4) by (simp add: unat_plus_if')
  show ?thesis
  proof (cases "unat v \<le> unat p + i")
    case True
    then have "unat (p + of_nat i - v) = unat p + i - unat v"
      using pi by (metis unat_sub word_le_nat_alt)
    moreover have "b < a" using True ne a b assms(4) by simp
    ultimately show ?thesis using a b by simp
  next
    case False
    then have "unat (p + of_nat i - v) = 2 ^ 32 + (unat p + i) - unat v"
      using pi unat_addr_lt [of v] by (simp add: unat_sub_if' word_le_nat_alt)
    then show ?thesis using a b bd by simp
  qed
qed

lemma load32_memset_other:
  assumes "p mod PGSIZE = 0" "v mod PGSIZE = 0" "p \<noteq> v"
  shows "load32 (memset m v c PGSIZE) p = load32 m p"
proof -
  have "memset m v c PGSIZE (p + of_nat i) = m (p + of_nat i)" if "i < 4096" for i
    using pages_apart [OF assms that] by (simp add: memset_apply PGSIZE_def)
  from this [of 0] this [of 1] this [of 2] this [of 3] show ?thesis
    by (simp add: load32_def)
qed

lemma fl_chain_cong:
  "(\<And>p. p \<in> set ps \<Longrightarrow> load32 m' p = load32 m p) \<Longrightarrow> fl_chain m' a ps = fl_chain m a ps"
  by (induction ps arbitrary: a) auto

lemma page_ok_nonnull: "page_ok s v \<Longrightarrow> 0 < sym_end (syms s) \<Longrightarrow> v \<noteq> 0"
  by (auto simp: page_ok_def)

lemma kmem_inv_push:
  assumes inv: "kmem_inv s ps" and v: "page_ok s v" "v \<notin> set ps"
  shows "kmem_inv (s\<lparr>mem := store32 (memset (mem s) v 1 PGSIZE) v (freelist s), freelist := v\<rparr>) (v # ps)"
    (is "kmem_inv ?t _")
proof -
  have other: "load32 (mem ?t) p = load32 (mem s) p" if "p \<in> set ps" for p
  proof -
    have "p mod PGSIZE = 0" "v mod PGSIZE = 0" "p \<noteq> v"
      using inv v that by (auto simp: kmem_inv_def page_ok_def)
    then show ?thesis
      by (simp add: load32_store32_other page_aligned4 load32_memset_other)
  qed
  have "fl_chain (mem ?t) (freelist s) ps"
    using inv fl_chain_cong [OF other] by (simp add: kmem_inv_def)
  moreover have "v \<noteq> 0" using inv v(1) page_ok_nonnull by (simp add: kmem_inv_def)
  ultimately show ?thesis
    using inv v by (simp add: kmem_inv_def page_ok_def)
qed

lemma kmem_inv_pop:
  "kmem_inv s (p # ps) \<Longrightarrow> kmem_inv (s\<lparr>freelist := load32 (mem s) (freelist s)\<rparr>) ps"
  by (auto simp: kmem_inv_def page_ok_def)

lemma kmem_inv_head: "kmem_inv s ps \<Longrightarrow> freelist s = (case ps of [] \<Rightarrow> 0 | p # _ \<Rightarrow> p)"
  by (cases ps) (simp_all add: kmem_inv_def)

section \<open>The interface of the allocator\<close>

text \<open>
  A pool of pages: what the kernel relies on when it takes a page or gives one back. \<open>pool s ps\<close>
  says that \<open>ps\<close> are the free pages.
\<close>

locale page_pool =
  fixes take_page :: "'s \<Rightarrow> addr \<times> 's"
    and give_page :: "addr \<Rightarrow> 's \<Rightarrow> 's"
    and pool :: "'s \<Rightarrow> addr list \<Rightarrow> bool"
    and usable :: "'s \<Rightarrow> addr \<Rightarrow> bool"
  assumes pool_distinct: "pool s ps \<Longrightarrow> distinct ps"
    and take_empty: "pool s [] \<Longrightarrow> take_page s = (0, s)"
    and take_some: "pool s (p # ps) \<Longrightarrow> p \<noteq> 0 \<and> (\<exists>t. take_page s = (p, t) \<and> pool t ps)"
    and give: "pool s ps \<Longrightarrow> usable s p \<Longrightarrow> p \<notin> set ps \<Longrightarrow> pool (give_page p s) (p # ps)"
begin

lemma take_after_give:
  assumes "pool s ps" "usable s p" "p \<notin> set ps"
  shows "\<exists>t. take_page (give_page p s) = (p, t) \<and> pool t ps"
  using take_some [OF give [OF assms]] by blast

lemma takes_distinct:
  assumes "pool s (p # q # ps)"
  shows "\<exists>t u. take_page s = (p, t) \<and> take_page t = (q, u) \<and> pool u ps \<and> p \<noteq> q \<and> p \<notin> set ps"
proof -
  obtain t where t: "take_page s = (p, t)" "pool t (q # ps)" using take_some [OF assms] by blast
  obtain u where "take_page t = (q, u)" "pool u ps" using take_some [OF t(2)] by blast
  with t pool_distinct [OF assms] show ?thesis by auto
qed

end

definition kalloc_fn :: "kernel \<Rightarrow> addr \<times> kernel" where
  "kalloc_fn s = (freelist s, if freelist s = 0 then s else s\<lparr>freelist := load32 (mem s) (freelist s)\<rparr>)"

definition kfree_fn :: "addr \<Rightarrow> kernel \<Rightarrow> kernel" where
  "kfree_fn v s = s\<lparr>mem := store32 (memset (mem s) v 1 PGSIZE) v (freelist s), freelist := v\<rparr>"

lemma kalloc_Ok: "KmemLock \<notin> set (held s) \<Longrightarrow> kalloc s e = Ok (fst (kalloc_fn s)) (snd (kalloc_fn s)) e"
  by (simp add: kalloc_eq kalloc_fn_def)

lemma kfree_Ok: "KmemLock \<notin> set (held s) \<Longrightarrow> page_ok s v \<Longrightarrow> kfree v s e = Ok () (kfree_fn v s) e"
  by (simp add: kfree_eq kfree_fn_def)

interpretation kmem: page_pool kalloc_fn kfree_fn kmem_inv page_ok
proof unfold_locales
  fix s ps p
  show "distinct ps" if "kmem_inv s ps" using that by (simp add: kmem_inv_def)
  show "kalloc_fn s = (0, s)" if "kmem_inv s []"
    using kmem_inv_head [OF that] by (simp add: kalloc_fn_def)
  show "p \<noteq> 0 \<and> (\<exists>t. kalloc_fn s = (p, t) \<and> kmem_inv t ps)" if "kmem_inv s (p # ps)"
  proof -
    have "p \<noteq> 0" using that by (simp add: kmem_inv_def)
    then show ?thesis using kmem_inv_head [OF that] kmem_inv_pop [OF that] by (simp add: kalloc_fn_def)
  qed
  show "kmem_inv (kfree_fn p s) (p # ps)" if "kmem_inv s ps" "page_ok s p" "p \<notin> set ps"
    using kmem_inv_push [OF that] by (simp add: kfree_fn_def)
qed

section \<open>Filling the pool\<close>

text \<open>The whole pages of a range of addresses, in the order \<^verbatim>\<open>freerange\<close> visits them.\<close>

definition page_range :: "addr \<Rightarrow> addr \<Rightarrow> addr list" where
  "page_range p vend = map (\<lambda>i. p + of_nat (4096 * i)) [0..<(unat vend - unat p) div 4096]"

lemma page_range_Nil: "unat vend < unat p + 4096 \<Longrightarrow> page_range p vend = []"
  by (simp add: page_range_def)

lemma page_count:
  fixes a b :: nat
  assumes "a + 4096 \<le> b"
  shows "(b - a) div 4096 = Suc ((b - (a + 4096)) div 4096)"
proof -
  have "b - a = 4096 + (b - (a + 4096))" using assms by simp
  then show ?thesis by (metis div_add_self1 plus_1_eq_Suc zero_neq_numeral add.commute)
qed

lemma page_range_Cons:
  assumes "unat p + 4096 \<le> unat vend"
  shows "page_range p vend = p # page_range (p + PGSIZE) vend"
proof -
  have "unat p + 4096 < 2 ^ 32" using assms unat_addr_lt [of vend] by simp
  then have u: "unat (p + PGSIZE) = unat p + 4096" by (simp add: unat_plus_if' PGSIZE_def)
  let ?k = "(unat vend - (unat p + 4096)) div 4096"
  have k: "(unat vend - unat p) div 4096 = Suc ?k" using assms by (rule page_count)
  have "p + of_nat (4096 * Suc i) = p + PGSIZE + of_nat (4096 * i)" for i
    by (simp add: PGSIZE_def)
  then have "map (\<lambda>i. p + of_nat (4096 * Suc i)) [0..<?k] =
      map (\<lambda>i. p + PGSIZE + of_nat (4096 * i)) [0..<?k]"
    by (intro map_cong) blast+
  then show ?thesis
    unfolding page_range_def u k map_upt_Suc by simp
qed

definition freerange_body :: "addr \<Rightarrow> addr \<Rightarrow> (addr + unit) kern" where
  "freerange_body vend p =
     (if p + PGSIZE \<le> vend then kseq (kfree p) (kret (Inl (p + PGSIZE))) else kret (Inr ()))"

lemma freerange_loop:
  assumes "KERNBASE \<le> sym_end (syms s)" "vend \<le> P2V PHYSTOP" "KmemLock \<notin> set (held s)"
    and "p mod PGSIZE = 0" "sym_end (syms s) \<le> p" "unat p + 4096 < 2 ^ 32"
    and "kmem_inv s ps" "\<And>q. q \<in> set ps \<Longrightarrow> q < p" "(unat vend - unat p) div 4096 < n"
  shows "\<exists>t. kloop n (freerange_body vend) p s e = Ok () t e \<and>
    kmem_inv t (rev (page_range p vend) @ ps) \<and> held t = held s"
  using assms
proof (induction n arbitrary: p s ps)
  case 0
  then show ?case by simp
next
  case (Suc n)
  have u: "unat (p + PGSIZE) = unat p + 4096"
    using Suc.prems(6) by (simp add: unat_plus_if' PGSIZE_def)
  have top: "unat vend \<le> 0x8E000000" "0x80000000 \<le> unat p"
    using Suc.prems(1,2,5)
    by (simp_all add: word_le_nat_alt P2V_def PHYSTOP_def KERNBASE_def)
  show ?case
  proof (cases "unat p + 4096 \<le> unat vend")
    case False
    then show ?thesis
      using Suc.prems u by (simp add: freerange_body_def word_le_nat_alt page_range_Nil)
  next
    case True
    have "unat (V2P p) = unat p - 0x80000000"
      using top(2) by (simp add: V2P_def KERNBASE_def unat_sub word_le_nat_alt)
    then have ok: "page_ok s p"
      using Suc.prems(4,5) True top by (simp add: page_ok_def word_less_nat_alt PHYSTOP_def)
    have step: "kloop (Suc n) (freerange_body vend) p s e =
        kloop n (freerange_body vend) (p + PGSIZE) (kfree_fn p s) e"
      using True u kfree_Ok [OF Suc.prems(3) ok]
      by (simp add: freerange_body_def word_le_nat_alt)
    have lt: "p < p + PGSIZE" by (simp add: word_less_nat_alt u)
    have al: "(p + PGSIZE) mod PGSIZE = 0"
    proof -
      obtain a where "unat p = 4096 * a" using Suc.prems(4) by (rule page_unatE)
      then show ?thesis
        using u by (simp add: word_unat_eq_iff unat_mod_distrib PGSIZE_def)
    qed
    have cnt: "(unat vend - unat (p + PGSIZE)) div 4096 < n"
      using Suc.prems(9) unfolding u page_count [OF True] by simp
    have inv: "kmem_inv (kfree_fn p s) (p # ps)"
      using kmem.give [OF Suc.prems(7) ok] Suc.prems(8) by blast
    have bound: "q < p + PGSIZE" if "q \<in> set (p # ps)" for q
      using that lt Suc.prems(8) by (auto intro: less_trans)
    have "\<exists>t. kloop n (freerange_body vend) (p + PGSIZE) (kfree_fn p s) e = Ok () t e \<and>
        kmem_inv t (rev (page_range (p + PGSIZE) vend) @ p # ps) \<and> held t = held (kfree_fn p s)"
    proof (rule Suc.IH)
      show "sym_end (syms (kfree_fn p s)) \<le> p + PGSIZE"
        using Suc.prems(5) lt by (auto simp: kfree_fn_def)
      show "unat (p + PGSIZE) + 4096 < 2 ^ 32" using True top u by simp
    qed (use Suc.prems(1-3) al cnt inv bound in \<open>auto simp: kfree_fn_def\<close>)
    then show ?thesis
      unfolding step page_range_Cons [OF True] by (simp add: kfree_fn_def)
  qed
qed

lemma freerange_pool:
  assumes "KERNBASE \<le> sym_end (syms s)" "vend \<le> P2V PHYSTOP" "KmemLock \<notin> set (held s)"
    and "sym_end (syms s) \<le> vstart" "vstart \<le> vend" "kmem_inv s ps"
    and "\<And>q. q \<in> set ps \<Longrightarrow> q < vstart"
  shows "\<exists>t. freerange vstart vend s e = Ok () t e \<and>
    kmem_inv t (rev (page_range (PGROUNDUP vstart) vend) @ ps) \<and> held t = held s"
proof -
  have top: "unat vstart \<le> 0x8E000000"
    using assms(2,5) by (simp add: word_le_nat_alt P2V_def PHYSTOP_def KERNBASE_def)
  then have up: "unat (PGROUNDUP vstart) = 4096 * ((unat vstart + 4095) div 4096)"
    by (intro unat_PGROUNDUP) simp
  have ge: "unat vstart \<le> unat (PGROUNDUP vstart)" "unat (PGROUNDUP vstart) \<le> unat vstart + 4095"
    unfolding up
    using mult_div_mod_eq [of 4096 "unat vstart + 4095"]
      mod_less_divisor [of 4096 "unat vstart + 4095"] by linarith+
  have "PGROUNDUP vstart mod PGSIZE = 0"
    by (simp add: word_unat_eq_iff unat_mod_distrib PGSIZE_def up)
  moreover have "sym_end (syms s) \<le> PGROUNDUP vstart" "\<And>q. q \<in> set ps \<Longrightarrow> q < PGROUNDUP vstart"
    using assms(4,7) ge(1) by (fastforce simp: word_le_nat_alt word_less_nat_alt)+
  moreover have "unat vend < 2 ^ 32" by (rule unat_addr_lt)
  then have "(unat vend - unat (PGROUNDUP vstart)) div 4096 < Suc (2 ^ 20)"
    by (simp add: less_mult_imp_div_less)
  moreover have "freerange vstart vend = kloop (Suc (2 ^ 20)) (freerange_body vend) (PGROUNDUP vstart)"
    by (simp add: freerange_def freerange_body_def [abs_def] del: kloop.simps)
  ultimately show ?thesis
    using freerange_loop [OF assms(1-3), of "PGROUNDUP vstart" ps "Suc (2 ^ 20)" e] assms(6) top ge(2)
    by simp
qed

section \<open>Properties\<close>

text \<open>
  C8. \<^verbatim>\<open>kinit1\<close> returns and leaves a well-formed free list with every whole page of the range,
  each exactly once.
\<close>

theorem kinit1_fills_pool:
  assumes "KERNBASE \<le> sym_end (syms s)" "vend \<le> P2V PHYSTOP" "KmemLock \<notin> set (held s)"
    and "sym_end (syms s) \<le> vstart" "vstart \<le> vend" "freelist s = 0"
  shows "\<exists>t. kinit1 vstart vend s e = Ok () t e \<and>
    kmem_inv t (rev (page_range (PGROUNDUP vstart) vend)) \<and> held t = held s"
proof -
  have "0 < sym_end (syms s)"
    using assms(1) by (simp add: KERNBASE_def word_le_nat_alt word_less_nat_alt)
  then have "kmem_inv (s\<lparr>use_lock := 0\<rparr>) []" using assms(6) by (simp add: kmem_inv_def)
  then show ?thesis
    using freerange_pool [of "s\<lparr>use_lock := 0\<rparr>" vend vstart "[]" e] assms by (simp add: kinit1_def)
qed

theorem kinit1_fills_pool_witness:
  "\<exists>t. kinit1 0x80110001 0x80113fff (sample []) [] = Ok () t [] \<and>
    kmem_inv t [0x80112000, 0x80111000] \<and> held t = []"
proof -
  have "page_range (PGROUNDUP 0x80110001) 0x80113fff = [0x80111000, 0x80112000]"
    by (simp add: page_range_def PGROUNDUP_def PGSIZE_def upt_conv_Cons)
  then show ?thesis
    using kinit1_fills_pool [of "sample []" "0x80113fff" "0x80110001" "[]"]
    by (simp add: sample_defs KERNBASE_def P2V_def PHYSTOP_def)
qed

text \<open>
  C9. A page that is freed is the next one to be handed out, and the rest of the pool is as it
  was: junk-filling the page does not disturb the links of the other free pages.
\<close>

theorem kfree_then_kalloc:
  assumes "KmemLock \<notin> set (held s)" "kmem_inv s ps" "page_ok s v" "v \<notin> set ps"
  shows "\<exists>t u. kfree v s e = Ok () t e \<and> kmem_inv t (v # ps) \<and>
    kalloc t e = Ok v u e \<and> kmem_inv u ps"
proof -
  obtain u where "kalloc_fn (kfree_fn v s) = (v, u)" "kmem_inv u ps"
    using kmem.take_after_give [OF assms(2-4)] by blast
  moreover have "kmem_inv (kfree_fn v s) (v # ps)" using kmem.give [OF assms(2-4)] .
  ultimately show ?thesis
    using kfree_Ok [OF assms(1,3), of e] kalloc_Ok [of "kfree_fn v s" e] assms(1)
    by (simp add: kfree_fn_def)
qed

theorem kfree_then_kalloc_witness:
  "\<exists>t u. kfree 0x80111000 (sample []) [] = Ok () t [] \<and> kmem_inv t [0x80111000] \<and>
    kalloc t [] = Ok 0x80111000 u [] \<and> kmem_inv u []"
  using kfree_then_kalloc [of "sample []" "[]" "0x80111000" "[]"]
  by (simp add: sample_defs kmem_inv_def page_ok_def PGSIZE_def V2P_def KERNBASE_def PHYSTOP_def)

end
