(* ===== verification/Vm.thy ===== *)
theory Vm
  imports Kalloc
begin

text \<open>
  \<^verbatim>\<open>vm.c\<close>: page tables. A page directory and its page tables are pages of the byte memory; an
  entry is a 32-bit word. \<open>translate\<close> is the processor's own walk of the current tables, used
  where the kernel follows a user pointer: the kernel half of every address space maps
  physical memory directly, so an address from \<^verbatim>\<open>KERNBASE\<close> on is its own translation.
\<close>

section \<open>Addresses and entries (\<^verbatim>\<open>mmu.h\<close>)\<close>

definition PDX :: "addr \<Rightarrow> uint32" where "PDX va = drop_bit 22 va AND 0x3FF"
definition PTX :: "addr \<Rightarrow> uint32" where "PTX va = drop_bit 12 va AND 0x3FF"

definition PGADDR :: "uint32 \<Rightarrow> uint32 \<Rightarrow> uint32 \<Rightarrow> addr" where
  "PGADDR d t o' = push_bit 22 d OR push_bit 12 t OR o'"

definition NPDENTRIES :: nat where "NPDENTRIES = 1024"
definition PTE_P :: uint32 where "PTE_P = 1"
definition PTE_W :: uint32 where "PTE_W = 2"
definition PTE_U :: uint32 where "PTE_U = 4"

definition PTE_ADDR :: "uint32 \<Rightarrow> addr" where "PTE_ADDR pte = pte AND NOT 0xFFF"
definition PTE_FLAGS :: "uint32 \<Rightarrow> uint32" where "PTE_FLAGS pte = pte AND 0xFFF"

lemmas pte_defs = PTE_P_def PTE_W_def PTE_U_def PTE_ADDR_def PTE_FLAGS_def

section \<open>The processor's translation\<close>

definition translate :: "kernel \<Rightarrow> addr \<Rightarrow> addr option" where
  "translate s va =
     (if KERNBASE \<le> va then Some va
      else
        let pde = load32 (mem s) (P2V (cr3 s) + 4 * PDX va) in
        if pde AND PTE_P = 0 then None
        else
          let pte = load32 (mem s) (P2V (PTE_ADDR pde) + 4 * PTX va) in
          if pte AND PTE_P = 0 then None
          else Some (P2V (PTE_ADDR pte OR (va AND 0xFFF))))"

text \<open>A load or store by the kernel; a page fault in the kernel ends in \<^verbatim>\<open>panic("trap")\<close>.\<close>

definition kload8 :: "addr \<Rightarrow> uchar kern" where
  "kload8 va = kbind (kget (\<lambda>s. translate s va)) (\<lambda>a. deref a (\<lambda>a. kget (\<lambda>s. mem s a)))"

definition kstore8 :: "addr \<Rightarrow> uchar \<Rightarrow> unit kern" where
  "kstore8 va v =
     kbind (kget (\<lambda>s. translate s va)) (\<lambda>a. deref a (\<lambda>a. mmod (\<lambda>m. m(a := v))))"

definition kload32 :: "addr \<Rightarrow> uint32 kern" where
  "kload32 va =
     kbind (kload8 va) (\<lambda>b0. kbind (kload8 (va + 1)) (\<lambda>b1.
     kbind (kload8 (va + 2)) (\<lambda>b2. kbind (kload8 (va + 3)) (\<lambda>b3.
     kret (ucast b0 OR push_bit 8 (ucast b1) OR push_bit 16 (ucast b2) OR push_bit 24 (ucast b3))))))"

definition kstore32 :: "addr \<Rightarrow> uint32 \<Rightarrow> unit kern" where
  "kstore32 va v =
     kseq (kstore8 va (ucast v)) (kseq (kstore8 (va + 1) (ucast (drop_bit 8 v)))
    (kseq (kstore8 (va + 2) (ucast (drop_bit 16 v))) (kstore8 (va + 3) (ucast (drop_bit 24 v)))))"

primrec kload_bytes :: "addr \<Rightarrow> nat \<Rightarrow> uchar list kern" where
  "kload_bytes va 0 = kret []"
| "kload_bytes va (Suc k) =
     kbind (kload8 va) (\<lambda>b. kbind (kload_bytes (va + 1) k) (\<lambda>bs. kret (b # bs)))"

primrec kstore_bytes :: "addr \<Rightarrow> uchar list \<Rightarrow> unit kern" where
  "kstore_bytes va [] = kret ()"
| "kstore_bytes va (b # bs) = kseq (kstore8 va b) (kstore_bytes (va + 1) bs)"

section \<open>Walking and extending a page table\<close>

definition walkpgdir :: "addr \<Rightarrow> addr \<Rightarrow> bool \<Rightarrow> addr kern" where
  "walkpgdir pd va alloc =
     (let pde = pd + 4 * PDX va in
      kbind (kget (\<lambda>s. load32 (mem s) pde)) (\<lambda>entry.
      if entry AND PTE_P \<noteq> 0 then kret (P2V (PTE_ADDR entry) + 4 * PTX va)
      else if \<not> alloc then kret 0
      else
        kbind kalloc (\<lambda>pgtab.
        if pgtab = 0 then kret 0
        else
          kseq (mmod (\<lambda>m. memset m pgtab 0 PGSIZE))
         (kseq (mstore32 pde (V2P pgtab OR PTE_P OR PTE_W OR PTE_U))
         (kret (pgtab + 4 * PTX va))))))"

text \<open>
  \<^verbatim>\<open>mappages\<close>: the address takes each of the \<open>2 ^ 20\<close> page numbers once before it repeats, so the
  loop meets \<^verbatim>\<open>last\<close> within \<open>2 ^ 20\<close> iterations.
\<close>

definition mappages :: "addr \<Rightarrow> addr \<Rightarrow> uint32 \<Rightarrow> addr \<Rightarrow> uint32 \<Rightarrow> uint32 kern" where
  "mappages pd va sz pa perm =
     (let last = PGROUNDDOWN (va + sz - 1) in
      kloop (2 ^ 20) (\<lambda>(a, pa).
        kbind (walkpgdir pd a True) (\<lambda>pte.
        if pte = 0 then kret (Inr (-1))
        else
          kbind (kget (\<lambda>s. load32 (mem s) pte)) (\<lambda>entry.
          if entry AND PTE_P \<noteq> 0 then kpanic ''remap''
          else
            kseq (mstore32 pte (pa OR perm OR PTE_P))
           (if a = last then kret (Inr 0) else kret (Inl (a + PGSIZE, pa + PGSIZE))))))
      (PGROUNDDOWN va, pa))"

definition deallocuvm :: "addr \<Rightarrow> uint32 \<Rightarrow> uint32 \<Rightarrow> uint32 kern" where
  "deallocuvm pd oldsz newsz =
     (if newsz \<ge> oldsz then kret oldsz
      else kloop (Suc (2 ^ 20)) (\<lambda>a.
        if \<not> a < oldsz then kret (Inr newsz)
        else
          kbind (walkpgdir pd a False) (\<lambda>pte.
          if pte = 0 then kret (Inl (PGADDR (PDX a + 1) 0 0 - PGSIZE + PGSIZE))
          else
            kbind (kget (\<lambda>s. load32 (mem s) pte)) (\<lambda>entry.
            if entry AND PTE_P \<noteq> 0 then
              (let pa = PTE_ADDR entry in
               if pa = 0 then kpanic ''kfree''
               else kseq (kfree (P2V pa)) (kseq (mstore32 pte 0) (kret (Inl (a + PGSIZE)))))
            else kret (Inl (a + PGSIZE)))))
      (PGROUNDUP newsz))"

definition freevm :: "addr \<Rightarrow> unit kern" where
  "freevm pd =
     (if pd = 0 then kpanic ''freevm: no pgdir''
      else
        kseq (deallocuvm pd KERNBASE 0)
       (kseq (kfor (\<lambda>i.
          kbind (kget (\<lambda>s. load32 (mem s) (pd + 4 * of_nat i))) (\<lambda>entry.
          kwhen (entry AND PTE_P \<noteq> 0) (kfree (P2V (PTE_ADDR entry))))) [0..<NPDENTRIES])
       (kfree pd)))"

section \<open>Address spaces\<close>

text \<open>The table \<^verbatim>\<open>kmap\<close>: virtual start, physical start, physical end, permissions.\<close>

definition kmap :: "addr \<Rightarrow> (addr \<times> addr \<times> addr \<times> uint32) list" where
  "kmap data =
     [(KERNBASE, 0, EXTMEM, PTE_W),
      (KERNLINK, V2P KERNLINK, V2P data, 0),
      (data, V2P data, PHYSTOP, PTE_W),
      (DEVSPACE, DEVSPACE, 0, PTE_W)]"

primrec map_all :: "addr \<Rightarrow> (addr \<times> addr \<times> addr \<times> uint32) list \<Rightarrow> addr kern" where
  "map_all pd [] = kret pd"
| "map_all pd (k # ks) = (case k of (virt, phys_start, phys_end, perm) \<Rightarrow>
     kbind (mappages pd virt (phys_end - phys_start) phys_start perm) (\<lambda>r.
     if sint r < 0 then kseq (freevm pd) (kret 0) else map_all pd ks))"

definition setupkvm :: "addr kern" where
  "setupkvm =
     kbind kalloc (\<lambda>pd.
     if pd = 0 then kret 0
     else
       kseq (mmod (\<lambda>m. memset m pd 0 PGSIZE))
      (if P2V PHYSTOP > DEVSPACE then kpanic ''PHYSTOP too high''
       else kbind (kget (\<lambda>s. sym_data (syms s))) (\<lambda>data. map_all pd (kmap data))))"

definition switchkvm :: "unit kern" where
  "switchkvm = kmod (\<lambda>s. s\<lparr>cr3 := V2P (kpgdir s)\<rparr>)"

definition kvmalloc :: "unit kern" where
  "kvmalloc = kbind setupkvm (\<lambda>d. kseq (kmod (\<lambda>s. s\<lparr>kpgdir := d\<rparr>)) switchkvm)"

text \<open>
  \<^verbatim>\<open>switchuvm\<close>: the checks, the kernel stack in the task state segment, the page table register.
  The constant contents of the segment descriptor are not kept.
\<close>

definition switchuvm :: "tptr option \<Rightarrow> nat option \<Rightarrow> unit kern" where
  "switchuvm t p =
     (case p of None \<Rightarrow> kpanic ''switchuvm: no process''
      | Some p \<Rightarrow> (case t of None \<Rightarrow> kpanic ''switchuvm: no thread''
      | Some t \<Rightarrow>
          kbind (kget (\<lambda>s. thread_at s t)) (\<lambda>th.
          kbind (kget (\<lambda>s. ptable s ! p)) (\<lambda>pr.
          if kstack th = 0 then kpanic ''switchuvm: no kstack''
          else if pgdir pr = 0 then kpanic ''switchuvm: no pgdir''
          else kmod (\<lambda>s. s\<lparr>tss_esp0 := kstack th + KSTACKSIZE, cr3 := V2P (pgdir pr)\<rparr>)))))"

definition inituvm :: "addr \<Rightarrow> uchar list \<Rightarrow> unit kern" where
  "inituvm pd init =
     (if length init \<ge> unat PGSIZE then kpanic ''inituvm: more than a page''
      else
        kbind kalloc (\<lambda>m.
        kseq (mmod (\<lambda>mm. memset mm m 0 PGSIZE))
       (kseq (mappages pd 0 PGSIZE (V2P m) (PTE_W OR PTE_U))
       (mmod (\<lambda>mm. write_bytes mm m init)))))"

definition allocuvm :: "addr \<Rightarrow> uint32 \<Rightarrow> uint32 \<Rightarrow> uint32 kern" where
  "allocuvm pd oldsz newsz =
     (if newsz \<ge> KERNBASE then kret 0
      else if newsz < oldsz then kret oldsz
      else kloop (Suc (2 ^ 20)) (\<lambda>a.
        if \<not> a < newsz then kret (Inr newsz)
        else
          kbind kalloc (\<lambda>m.
          if m = 0 then kseq (deallocuvm pd newsz oldsz) (kret (Inr 0))
          else
            kseq (mmod (\<lambda>mm. memset mm m 0 PGSIZE))
           (kbind (mappages pd a PGSIZE (V2P m) (PTE_W OR PTE_U)) (\<lambda>r.
            if sint r < 0
            then kseq (deallocuvm pd newsz oldsz) (kseq (kfree m) (kret (Inr 0)))
            else kret (Inl (a + PGSIZE))))))
      (PGROUNDUP oldsz))"

definition clearpteu :: "addr \<Rightarrow> addr \<Rightarrow> unit kern" where
  "clearpteu pd uva =
     kbind (walkpgdir pd uva False) (\<lambda>pte.
     if pte = 0 then kpanic ''clearpteu''
     else kbind (kget (\<lambda>s. load32 (mem s) pte)) (\<lambda>entry. mstore32 pte (entry AND NOT PTE_U)))"

definition copyuvm :: "addr \<Rightarrow> uint32 \<Rightarrow> addr kern" where
  "copyuvm pd sz =
     kbind setupkvm (\<lambda>d.
     if d = 0 then kret 0
     else kloop (Suc (2 ^ 20)) (\<lambda>i.
       if \<not> i < sz then kret (Inr d)
       else
         kbind (walkpgdir pd i False) (\<lambda>pte.
         if pte = 0 then kpanic ''copyuvm: pte should exist''
         else
           kbind (kget (\<lambda>s. load32 (mem s) pte)) (\<lambda>entry.
           if entry AND PTE_P = 0 then kpanic ''copyuvm: page not present''
           else
             kbind kalloc (\<lambda>m.
             if m = 0 then kseq (freevm d) (kret (Inr 0))
             else
               kseq (mmod (\<lambda>mm. memmove mm m (P2V (PTE_ADDR entry)) PGSIZE))
              (kbind (mappages d i PGSIZE (V2P m) (PTE_FLAGS entry)) (\<lambda>r.
               if sint r < 0 then kseq (kfree m) (kseq (freevm d) (kret (Inr 0)))
               else kret (Inl (i + PGSIZE))))))))
     0)"

text \<open>\<^verbatim>\<open>uva2ka\<close> reads through the entry's address without a test for null.\<close>

definition uva2ka :: "addr \<Rightarrow> addr \<Rightarrow> addr kern" where
  "uva2ka pd uva =
     kbind (walkpgdir pd uva False) (\<lambda>pte.
     kbind (kload32 pte) (\<lambda>entry.
     if entry AND PTE_P = 0 then kret 0
     else if entry AND PTE_U = 0 then kret 0
     else kret (P2V (PTE_ADDR entry))))"

definition copyout :: "addr \<Rightarrow> addr \<Rightarrow> uchar list \<Rightarrow> uint32 kern" where
  "copyout pd va bs = kloop (Suc (length bs)) (\<lambda>(va, bs).
     if bs = [] then kret (Inr 0)
     else
       (let va0 = PGROUNDDOWN va in
        kbind (uva2ka pd va0) (\<lambda>pa0.
        if pa0 = 0 then kret (Inr (-1))
        else
          (let n = min (unat (PGSIZE - (va - va0))) (length bs) in
           kseq (mmod (\<lambda>m. write_bytes m (pa0 + (va - va0)) (take n bs)))
          (kret (Inl (va0 + PGSIZE, drop n bs)))))))
     (va, bs)"

section \<open>Lock discipline\<close>

lemma lk_ok_kload8 [klock]: "lk_bal h (kload8 va)"
  unfolding kload8_def by (rule klock | simp add: lock_panics_def)+

lemma lk_ok_kstore8 [klock]: "lk_bal h (kstore8 va v)"
  unfolding kstore8_def by (rule klock | simp add: lock_panics_def)+

lemma lk_ok_kload32 [klock]: "lk_bal h (kload32 va)"
  unfolding kload32_def by (rule klock | simp add: lock_panics_def)+

lemma lk_ok_kstore32 [klock]: "lk_bal h (kstore32 va v)"
  unfolding kstore32_def by (rule klock | simp add: lock_panics_def)+

lemma lk_ok_kload_bytes [klock]: "lk_bal h (kload_bytes va k)"
proof (induction k arbitrary: va)
  case (Suc k)
  show ?case unfolding kload_bytes.simps by (rule klock Suc.IH refl)+
qed (simp add: lk_ok_kret)

lemma lk_ok_kstore_bytes [klock]: "lk_bal h (kstore_bytes va bs)"
proof (induction bs arbitrary: va)
  case (Cons b bs)
  show ?case unfolding kstore_bytes.simps by (rule klock Cons.IH)+
qed (simp add: lk_ok_kret)

lemma lk_ok_walkpgdir [klock]: "KmemLock \<notin> set h \<Longrightarrow> lk_bal h (walkpgdir pd va alloc)"
  unfolding walkpgdir_def by (rule klock | simp add: lock_panics_def)+

lemma lk_ok_mappages [klock]: "KmemLock \<notin> set h \<Longrightarrow> lk_bal h (mappages pd va sz pa perm)"
  unfolding mappages_def by (rule klock | simp add: lock_panics_def)+

lemma lk_ok_deallocuvm [klock]: "KmemLock \<notin> set h \<Longrightarrow> lk_bal h (deallocuvm pd oldsz newsz)"
  unfolding deallocuvm_def by (rule klock | simp add: lock_panics_def)+

lemma lk_ok_freevm [klock]: "KmemLock \<notin> set h \<Longrightarrow> lk_bal h (freevm pd)"
  unfolding freevm_def by (rule klock | simp add: lock_panics_def)+

lemma lk_ok_map_all [klock]: "KmemLock \<notin> set h \<Longrightarrow> lk_bal h (map_all pd ks)"
proof (induction ks)
  case (Cons k ks)
  show ?case unfolding map_all.simps by (rule klock Cons | simp add: Cons.prems)+
qed (simp add: lk_ok_kret)

lemma lk_ok_setupkvm [klock]: "KmemLock \<notin> set h \<Longrightarrow> lk_bal h setupkvm"
  unfolding setupkvm_def by (rule klock | simp add: lock_panics_def)+

lemma lk_ok_switchuvm [klock]: "lk_bal h (switchuvm t p)"
  unfolding switchuvm_def by (rule klock | simp add: lock_panics_def)+

lemma lk_ok_inituvm [klock]: "KmemLock \<notin> set h \<Longrightarrow> lk_bal h (inituvm pd init)"
  unfolding inituvm_def by (rule klock | simp add: lock_panics_def)+

lemma lk_ok_allocuvm [klock]: "KmemLock \<notin> set h \<Longrightarrow> lk_bal h (allocuvm pd oldsz newsz)"
  unfolding allocuvm_def by (rule klock | simp add: lock_panics_def)+

lemma lk_ok_clearpteu [klock]: "KmemLock \<notin> set h \<Longrightarrow> lk_bal h (clearpteu pd uva)"
  unfolding clearpteu_def by (rule klock | simp add: lock_panics_def)+

lemma lk_ok_copyuvm [klock]: "KmemLock \<notin> set h \<Longrightarrow> lk_bal h (copyuvm pd sz)"
  unfolding copyuvm_def by (rule klock | simp add: lock_panics_def)+

lemma lk_ok_uva2ka [klock]: "KmemLock \<notin> set h \<Longrightarrow> lk_bal h (uva2ka pd uva)"
  unfolding uva2ka_def by (rule klock | simp add: lock_panics_def)+

lemma lk_ok_copyout [klock]: "KmemLock \<notin> set h \<Longrightarrow> lk_bal h (copyout pd va bs)"
  unfolding copyout_def by (rule klock | simp add: lock_panics_def)+

end
