(* ===== verification/Sched.thy ===== *)
theory Sched
  imports Vm
begin

text \<open>
  The lower half of \<^verbatim>\<open>proc.c\<close>: slots for processes and threads, the scheduler, \<^verbatim>\<open>sleep\<close> and
  \<^verbatim>\<open>wakeup\<close>, \<^verbatim>\<open>kill\<close> and the growing of a process. What needs the file system (\<^verbatim>\<open>fork\<close>,
  \<^verbatim>\<open>exit\<close>, \<^verbatim>\<open>userinit\<close>, \<^verbatim>\<open>forkret\<close>) is in the theory \<open>Process\<close>.

  \<^verbatim>\<open>swtch\<close> to the scheduler and back is \<open>resume\<close>: the interference steps are what the rest of the
  system does meanwhile, and the thread continues once it is \<^verbatim>\<open>T_RUNNABLE\<close>, dispatched by
  \<^verbatim>\<open>scheduler\<close> with the process table's lock held.
\<close>

section \<open>Slots\<close>

definition allocproc :: "nat option kern" where
  "allocproc =
     kseq (lk_acquire PtableLock)
    (kbind (kget (\<lambda>s. find_idx (\<lambda>p. pstate p = UNUSED) (ptable s))) (\<lambda>found.
     case found of
       None \<Rightarrow> kseq (lk_release PtableLock) (kret None)
     | Some p \<Rightarrow>
         kseq (kmod (\<lambda>s. upd_proc p (\<lambda>x. x\<lparr>pstate := USED, pid := nextpid s\<rparr>)
                            (s\<lparr>nextpid := nextpid s + 1\<rparr>)))
        (kseq (lk_release PtableLock) (kret (Some p)))))"

definition TF_SIZE :: uint32 where "TF_SIZE = 76"
definition CONTEXT_SIZE :: uint32 where "CONTEXT_SIZE = 20"

text \<open>
  \<^verbatim>\<open>allocthread\<close>: the new kernel stack carries, from the top, the trap frame, the address of
  \<^verbatim>\<open>trapret\<close> and a context that starts at \<^verbatim>\<open>forkret\<close> (\<^verbatim>\<open>eip\<close> is at offset 16).
\<close>

definition allocthread :: "nat \<Rightarrow> tptr option kern" where
  "allocthread p =
     kseq (lk_acquire PtableLock)
    (kbind (kget (\<lambda>s. find_idx (\<lambda>t. tstate t = T_UNUSED) (ttable (ptable s ! p)))) (\<lambda>found.
     case found of
       None \<Rightarrow> kseq (lk_release PtableLock) (kret None)
     | Some i \<Rightarrow>
         kseq (kmod (\<lambda>s. upd_thread (p, i) (\<lambda>t. t\<lparr>tstate := T_EMBRYO, tid := nexttid s,
                 tparent := Some p, next_thread := None, mutex_flag := 0, shouldDie := 0\<rparr>)
                 (s\<lparr>nexttid := nexttid s + 1\<rparr>)))
        (kseq (lk_release PtableLock)
        (kbind kalloc (\<lambda>ks.
         kseq (kmod (upd_thread (p, i) (\<lambda>t. t\<lparr>kstack := ks\<rparr>)))
        (if ks = 0 then
           kseq (kmod (upd_proc p (\<lambda>x. x\<lparr>pstate := UNUSED\<rparr>)))
          (kseq (kmod (upd_thread (p, i) (\<lambda>t. t\<lparr>tstate := T_UNUSED\<rparr>))) (kret None))
         else
           (let tfa = ks + KSTACKSIZE - TF_SIZE; ra = tfa - 4; ctx = ra - CONTEXT_SIZE in
            kseq (kmod (upd_thread (p, i) (\<lambda>t. t\<lparr>tf := tfa\<rparr>)))
           (kseq (kmod (\<lambda>s. s\<lparr>mem := store32 (mem s) ra (sym_trapret (syms s))\<rparr>))
           (kseq (kmod (upd_thread (p, i) (\<lambda>t. t\<lparr>tcontext := ctx\<rparr>)))
           (kseq (mmod (\<lambda>m. memset m ctx 0 CONTEXT_SIZE))
           (kseq (kmod (\<lambda>s. s\<lparr>mem := store32 (mem s) (ctx + 16) (sym_forkret (syms s))\<rparr>))
           (kseq (kmod (upd_proc p (\<lambda>x. x\<lparr>numOfthread := numOfthread x + 1\<rparr>)))
           (kret (Some (p, i)))))))))))))))"

section \<open>Giving up the processor\<close>

text \<open>What \<^verbatim>\<open>scheduler\<close> does to run a thread, up to the \<^verbatim>\<open>swtch\<close>.\<close>

definition dispatch :: "tptr \<Rightarrow> unit kern" where
  "dispatch t =
     kseq (kmod (\<lambda>s. s\<lparr>curproc := Some (fst t), curthread := Some t\<rparr>))
    (kseq (switchuvm (Some t) (Some (fst t)))
    (kseq (kmod (upd_proc (fst t) (\<lambda>p. p\<lparr>pstate := USED\<rparr>)))
    (kmod (upd_thread t (\<lambda>x. x\<lparr>tstate := T_RUNNING\<rparr>)))))"

definition runnable :: "kernel \<Rightarrow> tptr \<Rightarrow> bool" where
  "runnable s t \<longleftrightarrow> tstate (thread_at s t) = T_RUNNABLE"

fun resume :: "tptr \<Rightarrow> unit kern" where
  "resume t s [] =
     (if runnable s t then dispatch t (s\<lparr>held := [PtableLock]\<rparr>) []
      else if tstate (thread_at s t) = T_ZOMBIE then Gone (s\<lparr>held := [PtableLock]\<rparr>)
      else Blocked (s\<lparr>held := [PtableLock]\<rparr>))"
| "resume t s (f # e) =
     (if runnable (f s) t then dispatch t ((f s)\<lparr>held := [PtableLock]\<rparr>) e
      else resume t (f s) e)"

text \<open>
  \<^verbatim>\<open>sched\<close>. The nesting depth \<^verbatim>\<open>mycpu()->ncli\<close> is the number of locks held. Interrupts are off
  while a lock is held, so the fourth test of the code never fires after the first.
\<close>

definition sched :: "unit kern" where
  "sched =
     kbind (kget held) (\<lambda>h.
     if PtableLock \<notin> set h then kpanic ''sched ptable.lock''
     else if length h \<noteq> 1 then kpanic ''sched locks''
     else
       kbind mythread (\<lambda>t. deref t (\<lambda>t.
       kbind (kget (\<lambda>s. tstate (thread_at s t))) (\<lambda>st.
       if st = T_RUNNING then kpanic ''sched running curthread''
       else resume t))))"

definition yield :: "unit kern" where
  "yield =
     kseq (lk_acquire PtableLock)
    (kbind myproc (\<lambda>p. deref p (\<lambda>p.
     kseq (kmod (upd_proc p (\<lambda>x. x\<lparr>pstate := USED\<rparr>)))
    (kbind mythread (\<lambda>t. deref t (\<lambda>t.
     kseq (kmod (upd_thread t (\<lambda>x. x\<lparr>tstate := T_RUNNABLE\<rparr>)))
    (kseq sched (lk_release PtableLock))))))))"

text \<open>Leaving a routine by calling \<^verbatim>\<open>kthread_exit()\<close>, which does not return.\<close>

definition kdies :: "'a kern" where
  "kdies = (\<lambda>s e. Dies s e)"

text \<open>
  \<^verbatim>\<open>sleep\<close>, in two parts: up to the return of \<^verbatim>\<open>sched\<close>, and after it. Every caller passes the
  address of a lock, so the test for a null one is left out.
\<close>

definition sleep_end :: "tptr \<Rightarrow> lockid \<Rightarrow> unit kern" where
  "sleep_end t lk =
     kbind (kget (\<lambda>s. shouldDie (thread_at s t))) (\<lambda>d.
     if d \<noteq> 0 then kseq (lk_release PtableLock) kdies
     else
       kseq (kmod (upd_thread t (\<lambda>x. x\<lparr>tchan := None\<rparr>)))
      (if lk \<noteq> PtableLock then kseq (lk_release PtableLock) (lk_acquire lk) else kret ()))"

definition sleep :: "chan \<Rightarrow> lockid \<Rightarrow> unit kern" where
  "sleep ch lk =
     kbind myproc (\<lambda>p. kbind mythread (\<lambda>t.
     case p of None \<Rightarrow> kpanic ''sleep'' | Some _ \<Rightarrow>
    (case t of None \<Rightarrow> kpanic ''sleep'' | Some t \<Rightarrow>
     kseq (if lk \<noteq> PtableLock then kseq (lk_acquire PtableLock) (lk_release lk) else kret ())
    (kseq (kmod (upd_thread t (\<lambda>x. x\<lparr>tchan := Some ch, tstate := T_SLEEPING\<rparr>)))
    (kseq sched (sleep_end t lk))))))"

section \<open>Waking up\<close>

definition wake_thread :: "chan \<Rightarrow> thread \<Rightarrow> thread" where
  "wake_thread ch t =
     (if tstate t = T_SLEEPING \<and> tchan t = Some ch then t\<lparr>tstate := T_RUNNABLE\<rparr> else t)"

definition wake_proc :: "chan \<Rightarrow> proc \<Rightarrow> proc" where
  "wake_proc ch p =
     (if list_ex (\<lambda>t. tstate t = T_SLEEPING \<and> tchan t = Some ch) (ttable p)
      then p\<lparr>pstate := USED, ttable := map (wake_thread ch) (ttable p)\<rparr> else p)"

definition wakeup1 :: "chan \<Rightarrow> unit kern" where
  "wakeup1 ch = kmod (\<lambda>s. s\<lparr>ptable := map (wake_proc ch) (ptable s)\<rparr>)"

definition wakeup :: "chan \<Rightarrow> unit kern" where
  "wakeup ch =
     kseq (lk_acquire PtableLock) (kseq (wakeup1 ch) (lk_release PtableLock))"

definition rouse :: "thread \<Rightarrow> thread" where
  "rouse t = (if tstate t = T_SLEEPING then t\<lparr>tstate := T_RUNNABLE\<rparr> else t)"

definition kill :: "uint32 \<Rightarrow> uint32 kern" where
  "kill pd =
     kseq (lk_acquire PtableLock)
    (kbind (kget (\<lambda>s. find_idx (\<lambda>p. pid p = pd) (ptable s))) (\<lambda>found.
     case found of
       None \<Rightarrow> kseq (lk_release PtableLock) (kret (-1))
     | Some p \<Rightarrow>
         kseq (kmod (upd_proc p (\<lambda>x. x\<lparr>killed := 1, ttable := map rouse (ttable x)\<rparr>)))
        (kseq (lk_release PtableLock) (kret 0))))"

section \<open>The scheduler\<close>

text \<open>
  One turn of the loop of \<^verbatim>\<open>scheduler\<close>. The next interference step is what the dispatched thread
  does until it comes back through \<^verbatim>\<open>sched\<close>.
\<close>

definition slots :: "tptr list" where
  "slots = List.product [0..<NPROC] [0..<NTHREAD]"

definition run_slot :: "tptr \<Rightarrow> unit kern" where
  "run_slot t =
     kbind (kget (\<lambda>s. runnable s t)) (\<lambda>r.
     kwhen r
      (kseq (dispatch t)
      (kseq kspin
      (kseq switchkvm
      (kmod (\<lambda>s. s\<lparr>curproc := None, curthread := None, held := [PtableLock]\<rparr>))))))"

definition scheduler_turn :: "unit kern" where
  "scheduler_turn =
     kseq (lk_acquire PtableLock) (kseq (kfor run_slot slots) (lk_release PtableLock))"

section \<open>Growing a process\<close>

definition growproc :: "uint32 \<Rightarrow> uint32 kern" where
  "growproc n =
     kbind myproc (\<lambda>p. kbind mythread (\<lambda>t.
     kseq (lk_acquire PtableLock) (deref p (\<lambda>p.
     kbind (kget (\<lambda>s. ptable s ! p)) (\<lambda>pr.
     kbind (if 0 < sint n then kbind (allocuvm (pgdir pr) (psz pr) (psz pr + n)) (\<lambda>z.
              kret (if z = 0 then None else Some z))
            else if sint n < 0 then kbind (deallocuvm (pgdir pr) (psz pr) (psz pr + n)) (\<lambda>z.
              kret (if z = 0 then None else Some z))
            else kret (Some (psz pr))) (\<lambda>r.
     case r of
       None \<Rightarrow> kseq (lk_release PtableLock) (kret (-1))
     | Some z \<Rightarrow>
         kseq (kmod (upd_proc p (\<lambda>x. x\<lparr>psz := z\<rparr>)))
        (kseq (lk_release PtableLock)
        (kseq (switchuvm t (Some p)) (kret 0)))))))))"

section \<open>Lock discipline\<close>

lemma lk_ok_dispatch [klock]: "lk_bal h (dispatch t)"
  unfolding dispatch_def by (rule klock | simp)+

lemma lk_post_resume: "lk_post (\<lambda>_. [PtableLock]) (resume t s e)"
proof (induction t s e rule: resume.induct)
  case (1 t s)
  show ?case
    using lk_okD [OF lk_ok_dispatch, of "s\<lparr>held := [PtableLock]\<rparr>" "[PtableLock]" t "[]"] by simp
next
  case (2 t s f e)
  show ?case
    using 2 lk_okD [OF lk_ok_dispatch, of "(f s)\<lparr>held := [PtableLock]\<rparr>" "[PtableLock]" t e] by simp
qed

lemma lk_ok_resume [klock]: "h = [PtableLock] \<Longrightarrow> lk_bal h (resume t)"
  by (simp add: lk_okI lk_post_resume)

lemma lk_ok_sched [klock]: "h = [PtableLock] \<Longrightarrow> lk_bal h sched"
proof -
  assume h: "h = [PtableLock]"
  have "lk_bal [PtableLock] (if PtableLock \<notin> set h then kpanic ''sched ptable.lock''
     else if length h \<noteq> 1 then kpanic ''sched locks''
     else kbind mythread (\<lambda>t. deref t (\<lambda>t. kbind (kget (\<lambda>s. tstate (thread_at s t))) (\<lambda>st.
       if st = T_RUNNING then kpanic ''sched running curthread'' else resume t))))"
    using h by (simp, intro lk_ok_kbind [OF lk_ok_mythread] lk_ok_deref lk_ok_kbind [OF lk_ok_kget]
      lk_ok_if lk_ok_resume lk_ok_kpanic) (simp_all add: lock_panics_def)
  then show ?thesis
    using h by (auto simp: lk_ok_def sched_def)
qed

lemma lk_ok_kdies [klock]: "h = [] \<Longrightarrow> lk_ok h kdies H"
  by (simp add: lk_ok_def kdies_def)

lemma lk_ok_yield [klock]: "h = [] \<Longrightarrow> lk_bal h yield"
  unfolding yield_def by (rule klock | simp)+

lemma lk_ok_sleep_end [klock]: "h = [PtableLock] \<Longrightarrow> h' = [lk] \<Longrightarrow> lk_ok h (sleep_end t lk) (\<lambda>_. h')"
  by (cases "lk = PtableLock"; simp add: sleep_end_def; (rule klock | simp)+)

text \<open>A thread may sleep only while it holds no lock but the one it passes.\<close>

lemma lk_ok_sleep [klock]: "h = [lk] \<Longrightarrow> lk_bal h (sleep ch lk)"
  by (cases "lk = PtableLock"; simp add: sleep_def; (rule klock | simp add: lock_panics_def)+)

lemma lk_ok_wakeup1 [klock]: "lk_bal h (wakeup1 ch)"
  unfolding wakeup1_def by (rule klock | simp)+

lemma lk_ok_wakeup [klock]: "PtableLock \<notin> set h \<Longrightarrow> lk_bal h (wakeup ch)"
  unfolding wakeup_def by (rule klock | simp)+

lemma lk_ok_kill [klock]: "PtableLock \<notin> set h \<Longrightarrow> lk_bal h (kill pd)"
  unfolding kill_def by (rule klock | simp)+

lemma lk_ok_allocproc [klock]: "PtableLock \<notin> set h \<Longrightarrow> lk_bal h allocproc"
  unfolding allocproc_def by (rule klock | simp)+

lemma lk_ok_allocthread [klock]:
  "PtableLock \<notin> set h \<Longrightarrow> KmemLock \<notin> set h \<Longrightarrow> lk_bal h (allocthread p)"
  unfolding allocthread_def by (rule klock | simp)+

lemma lk_ok_growproc [klock]:
  "PtableLock \<notin> set h \<Longrightarrow> KmemLock \<notin> set h \<Longrightarrow> lk_bal h (growproc n)"
  unfolding growproc_def by (rule klock | simp)+

section \<open>Waking up, in terms of single threads\<close>

lemma wake_proc_ttable: "ttable (wake_proc ch p) = map (wake_thread ch) (ttable p)"
proof (cases "list_ex (\<lambda>t. tstate t = T_SLEEPING \<and> tchan t = Some ch) (ttable p)")
  case True
  then show ?thesis by (simp add: wake_proc_def)
next
  case False
  then have "map (wake_thread ch) (ttable p) = map id (ttable p)"
    by (intro map_cong) (auto simp: list_ex_iff wake_thread_def)
  with False show ?thesis by (simp add: wake_proc_def)
qed

lemma wakeup_eq:
  assumes "PtableLock \<notin> set (held s)"
  shows "wakeup ch s e = Ok () (s\<lparr>ptable := map (wake_proc ch) (ptable s)\<rparr>) e"
  using assms
  by (simp add: wakeup_def wakeup1_def kdefs lk_acquire_apply lk_release_apply)

lemma thread_at_wake:
  "valid_thread s t \<Longrightarrow>
   thread_at (s\<lparr>ptable := map (wake_proc ch) (ptable s)\<rparr>) t = wake_thread ch (thread_at s t)"
  by (simp add: thread_at_def valid_thread_def wake_proc_ttable)

section \<open>Sleeping\<close>

lemma dispatch_eq:
  assumes "kstack (thread_at s t) \<noteq> 0" "pgdir (ptable s ! fst t) \<noteq> 0"
  shows "dispatch t s e = Ok () (upd_thread t (\<lambda>x. x\<lparr>tstate := T_RUNNING\<rparr>)
      (upd_proc (fst t) (\<lambda>p. p\<lparr>pstate := USED\<rparr>)
        (s\<lparr>curproc := Some (fst t), curthread := Some t,
           tss_esp0 := kstack (thread_at s t) + KSTACKSIZE,
           cr3 := V2P (pgdir (ptable s ! fst t))\<rparr>))) e"
  using assms by (simp add: dispatch_def switchuvm_def kdefs thread_at_def)

lemma thread_at_dispatched:
  assumes "valid_thread s t"
  shows "thread_at (upd_thread t f (upd_proc p (\<lambda>p. p\<lparr>pstate := USED\<rparr>)
    (s\<lparr>curproc := a, curthread := b, tss_esp0 := c, cr3 := d\<rparr>))) t = f (thread_at s t)"
proof -
  have "valid_thread (upd_proc p (\<lambda>p. p\<lparr>pstate := USED\<rparr>)
      (s\<lparr>curproc := a, curthread := b, tss_esp0 := c, cr3 := d\<rparr>)) t"
    using assms by (subst valid_thread_upd_proc) (simp_all add: valid_thread_def)
  then have "thread_at (upd_thread t f (upd_proc p (\<lambda>p. p\<lparr>pstate := USED\<rparr>)
      (s\<lparr>curproc := a, curthread := b, tss_esp0 := c, cr3 := d\<rparr>))) t =
      f (thread_at (upd_proc p (\<lambda>p. p\<lparr>pstate := USED\<rparr>)
      (s\<lparr>curproc := a, curthread := b, tss_esp0 := c, cr3 := d\<rparr>)) t)"
    by (simp add: thread_at_upd_thread)
  also have "\<dots> = f (thread_at s t)"
    using assms by (subst thread_at_upd_proc) (simp_all add: thread_at_def valid_thread_def)
  finally show ?thesis .
qed

text \<open>
  \<open>keeps t th f\<close>: the interference step \<open>f\<close> leaves the entry \<open>th\<close> of thread \<open>t\<close> and the page
  directory of its process alone.
\<close>

definition keeps :: "tptr \<Rightarrow> thread \<Rightarrow> (kernel \<Rightarrow> kernel) \<Rightarrow> bool" where
  "keeps t th f \<longleftrightarrow> (\<forall>s. valid_thread s t \<and> thread_at s t = th \<longrightarrow>
     valid_thread (f s) t \<and> thread_at (f s) t = th \<and>
     pgdir (ptable (f s) ! fst t) = pgdir (ptable s ! fst t))"

definition run_steps :: "(kernel \<Rightarrow> kernel) list \<Rightarrow> kernel \<Rightarrow> kernel" where
  "run_steps es s = fold (\<lambda>f. f) es s"

lemma run_steps_keeps:
  assumes "\<forall>f \<in> set es. keeps t th f" "valid_thread s t" "thread_at s t = th"
  shows "valid_thread (run_steps es s) t \<and> thread_at (run_steps es s) t = th \<and>
    pgdir (ptable (run_steps es s) ! fst t) = pgdir (ptable s ! fst t)"
  using assms
proof (induction es arbitrary: s)
  case (Cons f es)
  then have "valid_thread (f s) t \<and> thread_at (f s) t = th \<and>
      pgdir (ptable (f s) ! fst t) = pgdir (ptable s ! fst t)"
    unfolding keeps_def by auto
  with Cons show ?case by (auto simp: run_steps_def)
qed (simp add: run_steps_def)

lemma resume_kept:
  assumes "\<forall>f \<in> set es. keeps t th f" "valid_thread s t" "thread_at s t = th"
    and "tstate th \<noteq> T_RUNNABLE"
  shows "resume t s (es @ e) = resume t (run_steps es s) e"
  using assms
proof (induction es arbitrary: s)
  case (Cons f es)
  then have "valid_thread (f s) t" "thread_at (f s) t = th"
    unfolding keeps_def by auto
  with Cons show ?case by (simp add: run_steps_def runnable_def)
qed (simp add: run_steps_def)

text \<open>The entry of a thread that sleeps on \<open>ch\<close>, and the state in which it gives up the processor.\<close>

definition asleep :: "chan \<Rightarrow> thread \<Rightarrow> thread" where
  "asleep ch th = th\<lparr>tchan := Some ch, tstate := T_SLEEPING\<rparr>"

definition slept :: "chan \<Rightarrow> tptr \<Rightarrow> kernel \<Rightarrow> kernel" where
  "slept ch t s = upd_thread t (asleep ch) (s\<lparr>held := [PtableLock]\<rparr>)"

lemma slept_facts:
  assumes "valid_thread s t"
  shows "valid_thread (slept ch t s) t" "thread_at (slept ch t s) t = asleep ch (thread_at s t)"
    "curthread (slept ch t s) = curthread s" "held (slept ch t s) = [PtableLock]"
    "pgdir (ptable (slept ch t s) ! fst t) = pgdir (ptable s ! fst t)"
proof -
  have v: "valid_thread (s\<lparr>held := [PtableLock]\<rparr>) t" using assms by (simp add: valid_thread_def)
  then show "thread_at (slept ch t s) t = asleep ch (thread_at s t)"
    unfolding slept_def by (simp add: thread_at_upd_thread) (simp add: thread_at_def)
  show "valid_thread (slept ch t s) t" using v by (simp add: slept_def)
  show "pgdir (ptable (slept ch t s) ! fst t) = pgdir (ptable s ! fst t)"
    using assms by (simp add: slept_def upd_thread_def valid_thread_def)
qed (simp_all add: slept_def)

lemma sched_slept:
  assumes "valid_thread s t" "curthread s = Some t"
  shows "sched (slept ch t s) e = resume t (slept ch t s) e"
  using slept_facts [OF assms(1), of ch] assms(2)
  by (simp add: sched_def mythread_def kdefs asleep_def)

lemma sleep_eq:
  assumes "valid_thread s t" "curthread s = Some t" "curproc s = Some p" "held s = [lk]"
  shows "sleep ch lk s e = kseq (resume t) (sleep_end t lk) (slept ch t s) e"
proof -
  have "upd_thread t (\<lambda>x. x\<lparr>tchan := Some ch, tstate := T_SLEEPING\<rparr>) (s\<lparr>held := [PtableLock]\<rparr>) =
      slept ch t s"
    by (simp add: slept_def asleep_def [abs_def])
  moreover have "s\<lparr>held := [PtableLock]\<rparr> = s" if "lk = PtableLock" using assms(4) that by simp
  ultimately show ?thesis
    using assms sched_slept [OF assms(1,2)]
    by (cases "lk = PtableLock")
      (simp_all add: sleep_def kbind_def kseq_def myproc_def mythread_def lk_acquire_apply
        lk_release_apply)
qed

text \<open>The effect of \<^verbatim>\<open>wakeup\<close>, as an interference step.\<close>

definition wakes :: "chan \<Rightarrow> kernel \<Rightarrow> kernel" where
  "wakes ch s = s\<lparr>ptable := map (wake_proc ch) (ptable s)\<rparr>"

lemma wakes_facts:
  assumes "valid_thread s t"
  shows "valid_thread (wakes ch s) t" "thread_at (wakes ch s) t = wake_thread ch (thread_at s t)"
    "pgdir (ptable (wakes ch s) ! fst t) = pgdir (ptable s ! fst t)"
  using assms
  by (simp_all add: wakes_def thread_at_wake valid_thread_def wake_proc_ttable)
    (simp add: wake_proc_def)

lemma sleep_kept_blocked:
  assumes "valid_thread s t" "curthread s = Some t" "curproc s = Some p" "held s = [lk]"
    and "\<forall>f \<in> set es. keeps t (asleep ch (thread_at s t)) f"
  shows "\<exists>s'. sleep ch lk s es = Blocked s' \<and> thread_at s' t = asleep ch (thread_at s t)"
proof -
  note f = slept_facts [OF assms(1), of ch]
  let ?u = "run_steps es (slept ch t s)"
  have k: "thread_at ?u t = asleep ch (thread_at s t)"
    using run_steps_keeps [OF assms(5) f(1,2)] by simp
  have "resume t (slept ch t s) (es @ []) = resume t ?u []"
    by (rule resume_kept [OF assms(5) f(1,2)]) (simp add: asleep_def)
  then have "resume t (slept ch t s) es = Blocked (?u\<lparr>held := [PtableLock]\<rparr>)"
    using k by (simp add: runnable_def asleep_def)
  then show ?thesis
    using k by (simp add: sleep_eq [OF assms(1-4)] kbind_def kseq_def thread_at_def)
qed

lemma sleep_kept_woken:
  assumes "valid_thread s t" "curthread s = Some t" "curproc s = Some p" "held s = [lk]"
    and keep: "\<forall>f \<in> set es. keeps t (asleep ch (thread_at s t)) f"
    and "kstack (thread_at s t) \<noteq> 0" "pgdir (ptable s ! fst t) \<noteq> 0"
  shows "if shouldDie (thread_at s t) = 0
    then \<exists>s'. sleep ch lk s (es @ wakes ch # e) = Ok () s' e \<and> held s' = [lk] \<and>
      curthread s' = Some t \<and>
      thread_at s' t = (thread_at s t)\<lparr>tchan := None, tstate := T_RUNNING\<rparr>
    else \<exists>s'. sleep ch lk s (es @ wakes ch # e) = Dies s' e \<and> held s' = []"
proof -
  let ?th = "thread_at s t"
  note f = slept_facts [OF assms(1), of ch]
  let ?u = "run_steps es (slept ch t s)"
  let ?w = "(wakes ch ?u)\<lparr>held := [PtableLock]\<rparr>"
  have u: "valid_thread ?u t" "thread_at ?u t = asleep ch ?th"
    "pgdir (ptable ?u ! fst t) = pgdir (ptable s ! fst t)"
    using run_steps_keeps [OF keep f(1,2)] f(5) by simp_all
  have w: "valid_thread ?w t" "thread_at ?w t = (asleep ch ?th)\<lparr>tstate := T_RUNNABLE\<rparr>"
      "pgdir (ptable ?w ! fst t) = pgdir (ptable s ! fst t)"
    using wakes_facts [OF u(1), of ch] u(2,3)
    by (simp_all add: valid_thread_def thread_at_def wake_thread_def asleep_def)
  have "resume t (slept ch t s) (es @ wakes ch # e) = resume t ?u (wakes ch # e)"
    by (rule resume_kept [OF keep f(1,2)]) (simp add: asleep_def)
  also have "\<dots> = dispatch t ?w e"
    using w(2) by (simp add: runnable_def thread_at_def)
  finally have res: "resume t (slept ch t s) (es @ wakes ch # e) = dispatch t ?w e" .
  let ?x = "upd_thread t (\<lambda>x. x\<lparr>tstate := T_RUNNING\<rparr>) (upd_proc (fst t) (\<lambda>p. p\<lparr>pstate := USED\<rparr>)
        (?w\<lparr>curproc := Some (fst t), curthread := Some t,
           tss_esp0 := kstack (thread_at ?w t) + KSTACKSIZE,
           cr3 := V2P (pgdir (ptable ?w ! fst t))\<rparr>))"
  have d: "dispatch t ?w e = Ok () ?x e"
    using w assms(6,7) by (intro dispatch_eq) (simp_all add: asleep_def)
  have x: "thread_at ?x t = (asleep ch ?th)\<lparr>tstate := T_RUNNING\<rparr>"
    using thread_at_dispatched [OF w(1)] w(2) by simp
  have vx: "valid_thread ?x t"
    using w(1) by (simp add: valid_thread_upd_proc) (simp add: valid_thread_def)
  have y: "thread_at (upd_thread t (\<lambda>x. x\<lparr>tchan := None\<rparr>) ?x) t =
      ?th\<lparr>tchan := None, tstate := T_RUNNING\<rparr>"
    using vx x by (simp add: thread_at_upd_thread asleep_def)
  show ?thesis
    using y x
    by (auto simp: sleep_eq [OF assms(1-4)] sleep_end_def kbind_def kseq_def res d asleep_def lk_release_apply
        lk_acquire_apply kdies_def thread_at_def)
qed

text \<open>
  Waiting loops. \<open>steady s e\<close>: the current thread has a slot, and the interference steps do not
  change the sizes of the tables. A call of \<^verbatim>\<open>sleep\<close> that returns has used up a step.
\<close>

definition shape :: "kernel \<Rightarrow> nat list" where
  "shape s = map (\<lambda>p. length (ttable p)) (ptable s)"

definition steady :: "kernel \<Rightarrow> kernel env \<Rightarrow> bool" where
  "steady s e \<longleftrightarrow> (\<exists>t. curthread s = Some t \<and> valid_thread s t) \<and>
     (\<forall>f \<in> set e. \<forall>s. shape (f s) = shape s)"

lemma valid_thread_shape: "shape s' = shape s \<Longrightarrow> valid_thread s' t = valid_thread s t"
proof -
  have v: "valid_thread s t \<longleftrightarrow> fst t < length (shape s) \<and> snd t < shape s ! fst t" for s
    by (auto simp: valid_thread_def shape_def)
  show "shape s' = shape s \<Longrightarrow> valid_thread s' t = valid_thread s t" by (simp add: v)
qed

lemma shape_upd_proc: "(\<And>p. length (ttable (f p)) = length (ttable p)) \<Longrightarrow> shape (upd_proc p f s) = shape s"
  by (simp add: shape_def map_upd_nth_cong)

lemma shape_upd_thread [simp]: "shape (upd_thread t f s) = shape s"
  unfolding upd_thread_def by (rule shape_upd_proc) simp

lemma shape_held [simp]: "shape (s\<lparr>held := h\<rparr>) = shape s"
  by (simp add: shape_def)

lemma dispatch_shape:
  assumes "dispatch t s e = Ok r u d"
  shows "d = e \<and> shape u = shape s \<and> curthread u = Some t"
proof -
  have "shape (s\<lparr>curproc := a, curthread := b\<rparr>) = shape s"
      "shape (s\<lparr>curproc := a, curthread := b, tss_esp0 := x, cr3 := y\<rparr>) = shape s" for a b x y
    by (simp_all add: shape_def)
  then show ?thesis
    using assms
    by (auto simp: dispatch_def switchuvm_def keq_Ok kbind_def kseq_def shape_upd_proc split: if_splits)
qed

lemma dispatch_not_spins: "dispatch t s e \<noteq> Spins u"
  by (auto simp: dispatch_def switchuvm_def kbind_def kseq_def)

lemma resume_uses:
  assumes "resume t s e = Ok r u d" "\<not> runnable s t" "\<forall>f \<in> set e. \<forall>s. shape (f s) = shape s"
  shows "length d < length e \<and> set d \<subseteq> set e \<and> shape u = shape s \<and> curthread u = Some t"
  using assms
proof (induction t s e rule: resume.induct)
  case (1 t s)
  then show ?case by (auto split: if_splits)
next
  case (2 t s f e)
  show ?case
  proof (cases "runnable (f s) t")
    case True
    then have "dispatch t ((f s)\<lparr>held := [PtableLock]\<rparr>) e = Ok r u d" using 2 by simp
    from dispatch_shape [OF this] show ?thesis using 2 by auto
  next
    case False
    with 2 show ?thesis by fastforce
  qed
qed

lemma resume_not_spins: "resume t s e \<noteq> Spins u"
  by (induction t s e rule: resume.induct) (auto simp: dispatch_not_spins)

lemma sleep_end_Ok:
  "sleep_end t lk w d = Ok r u d' \<Longrightarrow> d' = d \<and> shape u = shape w \<and> curthread u = curthread w"
  by (auto simp: sleep_end_def keq_Ok lk_acquire_apply lk_release_apply kdies_def split: if_splits)

lemma sched_Ok: "sched s e = Ok r u d \<Longrightarrow> curthread s = Some t \<Longrightarrow> resume t s e = Ok r u d"
  by (auto simp: sched_def keq_Ok mythread_def split: if_splits)

lemma sleep_Ok:
  assumes "sleep ch lk s e = Ok r u d" "curthread s = Some t"
  shows "\<exists>h w d1. sched (upd_thread t (\<lambda>x. x\<lparr>tchan := Some ch, tstate := T_SLEEPING\<rparr>)
      (s\<lparr>held := h\<rparr>)) e = Ok () w d1 \<and> sleep_end t lk w d1 = Ok r u d"
proof (cases "lk = PtableLock")
  case True
  with assms show ?thesis
    by (intro exI [of _ "held s"])
      (auto simp: sleep_def keq_Ok myproc_def mythread_def split: option.splits)
next
  case False
  with assms show ?thesis
    by (intro exI [of _ "PtableLock # remove1 lk (held s)"])
      (auto simp: sleep_def keq_Ok myproc_def mythread_def lk_acquire_apply lk_release_apply
        split: option.splits if_splits)
qed

lemma sleep_uses:
  assumes "steady s e" "sleep ch lk s e = Ok r u d"
  shows "steady u d \<and> length d < length e"
proof -
  from assms(1) obtain t where t: "curthread s = Some t" "valid_thread s t"
    and e: "\<forall>f \<in> set e. \<forall>s. shape (f s) = shape s" by (auto simp: steady_def)
  let ?f = "\<lambda>x. x\<lparr>tchan := Some ch, tstate := T_SLEEPING\<rparr>"
  obtain h w d1 where sched: "sched (upd_thread t ?f (s\<lparr>held := h\<rparr>)) e = Ok () w d1"
    and tail: "sleep_end t lk w d1 = Ok r u d"
    using sleep_Ok [OF assms(2) t(1)] by blast
  have "valid_thread (s\<lparr>held := h\<rparr>) t" using t(2) by (simp add: valid_thread_def)
  then have nr: "\<not> runnable (upd_thread t ?f (s\<lparr>held := h\<rparr>)) t"
    by (simp add: runnable_def thread_at_upd_thread)
  have "resume t (upd_thread t ?f (s\<lparr>held := h\<rparr>)) e = Ok () w d1"
    using sched_Ok [OF sched] t(1) by simp
  from resume_uses [OF this nr e] have w: "length d1 < length e" "set d1 \<subseteq> set e"
    "shape w = shape s" "curthread w = Some t" by simp_all
  show ?thesis
    using sleep_end_Ok [OF tail] w e t valid_thread_shape [of u s t] by (auto simp: steady_def)
qed

lemma sched_not_spins: "sched s e \<noteq> Spins u"
  by (auto simp: sched_def kbind_def mythread_def deref_def resume_not_spins split: option.splits)

lemma sleep_not_spins: "sleep ch lk s e \<noteq> Spins u"
  by (auto simp: sleep_def sleep_end_def kbind_def kseq_def sched_not_spins myproc_def mythread_def
      lk_acquire_apply lk_release_apply kdies_def split: res.splits option.splits if_splits)

section \<open>Taking a slot\<close>

lemma allocproc_eq:
  assumes "PtableLock \<notin> set (held s)"
  shows "allocproc s e = (case find_idx (\<lambda>p. pstate p = UNUSED) (ptable s) of
      None \<Rightarrow> Ok None s e
    | Some p \<Rightarrow> Ok (Some p) (upd_proc p (\<lambda>x. x\<lparr>pstate := USED, pid := nextpid s\<rparr>)
        (s\<lparr>nextpid := nextpid s + 1\<rparr>)) e)"
  using assms
  by (simp add: allocproc_def kbind_def kseq_def lk_acquire_apply lk_release_apply upd_proc_def
      split: option.split)

text \<open>
  Process ids: every id handed out so far is below \<^verbatim>\<open>nextpid\<close>, and no two processes that are in
  use share one.
\<close>

definition pid_inv :: "kernel \<Rightarrow> bool" where
  "pid_inv s \<longleftrightarrow> ids_ok pid (\<lambda>p. pstate p \<noteq> UNUSED) (nextpid s) (ptable s)"

lemma pid_inv_alloc:
  "pid_inv s \<Longrightarrow> p < length (ptable s) \<Longrightarrow> nextpid s \<noteq> -1 \<Longrightarrow>
   pid_inv (upd_proc p (\<lambda>x. x\<lparr>pstate := USED, pid := nextpid s\<rparr>) (s\<lparr>nextpid := nextpid s + 1\<rparr>))"
  by (simp add: pid_inv_def upd_proc_def ids_ok_alloc)

lemma kill_eq:
  assumes "PtableLock \<notin> set (held s)"
  shows "kill pd s e = (case find_idx (\<lambda>p. pid p = pd) (ptable s) of
      None \<Rightarrow> Ok (-1) s e
    | Some p \<Rightarrow> Ok 0 (upd_proc p (\<lambda>x. x\<lparr>killed := 1, ttable := map rouse (ttable x)\<rparr>) s) e)"
  using assms
  by (simp add: kill_def kbind_def kseq_def lk_acquire_apply lk_release_apply upd_proc_def
      split: option.split)

lemma allocthread_full:
  assumes "PtableLock \<notin> set (held s)"
    and "find_idx (\<lambda>t. tstate t = T_UNUSED) (ttable (ptable s ! p)) = None"
  shows "allocthread p s e = Ok None s e"
  using assms
  by (simp add: allocthread_def kbind_def kseq_def lk_acquire_apply lk_release_apply)

lemma allocthread_oom:
  assumes "PtableLock \<notin> set (held s)" "KmemLock \<notin> set (held s)" "freelist s = 0"
    and "find_idx (\<lambda>t. tstate t = T_UNUSED) (ttable (ptable s ! p)) = Some i" "p < length (ptable s)"
  shows "\<exists>s'. allocthread p s e = Ok None s' e \<and> pstate (ptable s' ! p) = UNUSED \<and> held s' = held s"
  using assms
  by (simp add: allocthread_def kbind_def kseq_def lk_acquire_apply lk_release_apply kalloc_eq
      upd_thread_def upd_proc_def)

lemma allocthread_ok:
  assumes "PtableLock \<notin> set (held s)" "KmemLock \<notin> set (held s)" "freelist s \<noteq> 0"
    and found: "find_idx (\<lambda>t. tstate t = T_UNUSED) (ttable (ptable s ! p)) = Some i"
    and p: "p < length (ptable s)"
  shows "\<exists>s'. allocthread p s e = Ok (Some (p, i)) s' e \<and> held s' = held s \<and>
    freelist s' = load32 (mem s) (freelist s) \<and> nexttid s' = nexttid s + 1 \<and>
    thread_at s' (p, i) = (thread_at s (p, i))\<lparr>kstack := freelist s, tstate := T_EMBRYO,
       tf := freelist s + 4020, tid := nexttid s, tparent := Some p, tcontext := freelist s + 3996,
       shouldDie := 0, next_thread := None, mutex_flag := 0\<rparr> \<and>
    load32 (mem s') (freelist s + 4012) = sym_forkret (syms s) \<and>
    load32 (mem s') (freelist s + 4016) = sym_trapret (syms s)"
proof -
  have i: "i < length (ttable (ptable s ! p))" using found by (rule find_idx_lt)
  let ?k = "freelist s"
  let ?m = "memset (store32 (mem s) (?k + 4016) (sym_trapret (syms s))) (?k + 3996) 0 20"
  have a: "load32 (store32 ?m (?k + 4012) v) (?k + 4016) = sym_trapret (syms s)" for v
  proof -
    have "load32 (store32 ?m (?k + 4012) v) (?k + 4016) =
        load32 (store32 (mem s) (?k + 4016) (sym_trapret (syms s))) (?k + 4016)"
      unfolding load32_def by (simp add: store32_apply memset_apply)
    then show ?thesis by simp
  qed
  show ?thesis
    using assms i a
    by (simp add: allocthread_def kbind_def kseq_def lk_acquire_apply lk_release_apply kalloc_eq
      KSTACKSIZE_def TF_SIZE_def CONTEXT_SIZE_def Let_def mmod_def)
     (simp add: upd_thread_def upd_proc_def thread_at_def add.commute)
qed

section \<open>A turn of the scheduler\<close>

text \<open>The threads a turn dispatches, in order.\<close>

primrec turn_trace :: "tptr list \<Rightarrow> kernel \<Rightarrow> kernel env \<Rightarrow> tptr list" where
  "turn_trace [] s e = []"
| "turn_trace (t # ts) s e = (case run_slot t s e of
     Ok r s' e' \<Rightarrow> (if runnable s t then [t] else []) @ turn_trace ts s' e' | _ \<Rightarrow> [])"

text \<open>
  \<open>leaves_others t f\<close>: while another thread runs, the step \<open>f\<close> does not take the thread \<open>t\<close> out of
  the set of runnable ones.
\<close>

definition leaves_others :: "tptr \<Rightarrow> (kernel \<Rightarrow> kernel) \<Rightarrow> bool" where
  "leaves_others t f \<longleftrightarrow> (\<forall>s. curthread s \<noteq> Some t \<longrightarrow> valid_thread s t \<and> runnable s t \<longrightarrow>
     valid_thread (f s) t \<and> runnable (f s) t)"

lemma run_slot_other:
  assumes run: "run_slot u s e = Ok r s' e'" and "u \<noteq> t" "valid_thread s t" "runnable s t"
    and "\<forall>f \<in> set e. leaves_others t f"
  shows "valid_thread s' t \<and> runnable s' t \<and> set e' \<subseteq> set e"
proof (cases "runnable s u")
  case False
  then have "s' = s" "e' = e" using run by (simp_all add: run_slot_def kbind_def)
  then show ?thesis using assms by simp
next
  case True
  then obtain s1 e1 where d: "dispatch u s e = Ok () s1 e1"
    using run by (auto simp: run_slot_def keq_Ok)
  have s1: "curthread s1 = Some u \<and> valid_thread s1 t \<and> thread_at s1 t = thread_at s t \<and> e1 = e"
  proof -
    let ?s = "\<lambda>a b. s\<lparr>curproc := Some (fst u), curthread := Some u, tss_esp0 := a, cr3 := b\<rparr>"
    obtain a b where "s1 = upd_thread u (\<lambda>x. x\<lparr>tstate := T_RUNNING\<rparr>)
        (upd_proc (fst u) (\<lambda>p. p\<lparr>pstate := USED\<rparr>) (?s a b))" "e1 = e"
      using d by (auto simp: dispatch_def switchuvm_def keq_Ok kbind_def kseq_def split: if_splits)
    moreover have "valid_thread (upd_proc (fst u) (\<lambda>p. p\<lparr>pstate := USED\<rparr>) (?s a b)) t"
      using assms(3) by (simp add: valid_thread_upd_proc) (simp add: valid_thread_def)
    moreover have "thread_at (upd_proc (fst u) (\<lambda>p. p\<lparr>pstate := USED\<rparr>) (?s a b)) t = thread_at s t"
      using assms(3) by (subst thread_at_upd_proc) (simp_all add: valid_thread_def thread_at_def)
    ultimately show ?thesis using assms(2) by (simp add: thread_at_upd_thread)
  qed
  obtain f where e: "e = f # e'" and s': "s' = (let v = f s1 in (v\<lparr>cr3 := V2P (kpgdir v)\<rparr>)
      \<lparr>curproc := None, curthread := None, held := [PtableLock]\<rparr>)"
    using run True d s1
    by (auto simp: run_slot_def keq_Ok kspin_def switchkvm_def Let_def split: list.splits)
  have "leaves_others t f" using assms(5) e by simp
  then have "valid_thread (f s1) t \<and> runnable (f s1) t"
    using s1 assms(2-4) unfolding leaves_others_def runnable_def by auto
  then show ?thesis
    using s' e by (auto simp: Let_def valid_thread_def runnable_def thread_at_def)
qed

lemma turn_trace_complete:
  assumes "kfor run_slot ts s e = Ok () s' e'" "t \<in> set ts" "valid_thread s t" "runnable s t"
    and "\<forall>f \<in> set e. leaves_others t f"
  shows "t \<in> set (turn_trace ts s e)"
  using assms
proof (induction ts arbitrary: s e)
  case (Cons u ts)
  obtain r s1 e1 where u: "run_slot u s e = Ok r s1 e1" "kfor run_slot ts s1 e1 = Ok () s' e'"
    using Cons.prems(1) by (auto simp: keq_Ok)
  show ?case
  proof (cases "u = t")
    case True
    then show ?thesis using u Cons.prems(4) by simp
  next
    case False
    have k: "valid_thread s1 t" "runnable s1 t" "set e1 \<subseteq> set e"
      using run_slot_other [OF u(1) False Cons.prems(3-5)] by simp_all
    then have "t \<in> set (turn_trace ts s1 e1)"
      using Cons.IH [OF u(2)] Cons.prems(2,5) False by auto
    then show ?thesis using u by simp
  qed
qed simp

lemma turn_trace_subset: "set (turn_trace ts s e) \<subseteq> set ts"
  by (induction ts arbitrary: s e) (auto split: res.splits if_splits)

lemma turn_trace_distinct: "distinct ts \<Longrightarrow> distinct (turn_trace ts s e)"
  by (induction ts arbitrary: s e)
    (use turn_trace_subset in \<open>fastforce split: res.splits\<close>)+

lemma slots_iff: "t \<in> set slots \<longleftrightarrow> fst t < NPROC \<and> snd t < NTHREAD"
  by (cases t) (auto simp: slots_def image_iff)

lemma distinct_slots: "distinct slots"
  by (simp add: slots_def distinct_product)

section \<open>Properties\<close>

lemma sample_valid: "valid_thread (sample h) (0, 0)" "valid_thread (sample h) (0, 1)"
  by (simp_all add: sample_defs valid_thread_def)

text \<open>
  C11. \<^verbatim>\<open>wakeup\<close> makes exactly the threads that sleep on the channel runnable and changes nothing
  else about any thread.
\<close>

theorem wakeup_exact:
  assumes "PtableLock \<notin> set (held s)" "valid_thread s t"
  shows "\<exists>s'. wakeup ch s e = Ok () s' e \<and> held s' = held s \<and>
    thread_at s' t =
      (if tstate (thread_at s t) = T_SLEEPING \<and> tchan (thread_at s t) = Some ch
       then (thread_at s t)\<lparr>tstate := T_RUNNABLE\<rparr> else thread_at s t)"
  using wakeup_eq [OF assms(1)] thread_at_wake [OF assms(2)] by (simp add: wake_thread_def)

theorem wakeup_exact_witness:
  "\<exists>s'. wakeup ChTicks (upd_thread (0, 0) (asleep ChTicks) (sample [])) [] = Ok () s' [] \<and>
    tstate (thread_at s' (0, 0)) = T_RUNNABLE"
proof -
  let ?s = "upd_thread (0, 0) (asleep ChTicks) (sample [])"
  have v: "valid_thread ?s (0, 0)" by (simp add: sample_valid)
  have "thread_at ?s (0, 0) = asleep ChTicks (thread_at (sample []) (0, 0))"
    using sample_valid by (simp add: thread_at_upd_thread)
  moreover have "PtableLock \<notin> set (held ?s)" by (simp add: sample_defs)
  ultimately show ?thesis using wakeup_exact [OF _ v, of ChTicks "[]"] by (auto simp: asleep_def)
qed

text \<open>
  C13. \<^verbatim>\<open>sleep\<close> does not return by itself: as long as nothing touches the thread's entry it stays
  asleep, whatever else the system does.
\<close>

theorem sleep_stays_asleep:
  assumes "valid_thread s t" "curthread s = Some t" "curproc s = Some p" "held s = [lk]"
    and "\<forall>f \<in> set es. keeps t (asleep ch (thread_at s t)) f"
  shows "\<exists>s'. sleep ch lk s es = Blocked s' \<and> thread_at s' t = asleep ch (thread_at s t)"
  using assms by (rule sleep_kept_blocked)

theorem sleep_stays_asleep_witness:
  "\<exists>s'. sleep ChTicks TicksLock (sample [TicksLock]) [\<lambda>s. s\<lparr>ticks := ticks s + 1\<rparr>] = Blocked s' \<and>
    tstate (thread_at s' (0, 0)) = T_SLEEPING"
proof -
  have "keeps (0, 0) th (\<lambda>s. s\<lparr>ticks := ticks s + 1\<rparr>)" for th
    by (simp add: keeps_def valid_thread_def thread_at_def)
  then show ?thesis
    using sleep_stays_asleep [OF sample_valid(1), of "[TicksLock]" 0 TicksLock
        "[\<lambda>s. s\<lparr>ticks := ticks s + 1\<rparr>]" ChTicks]
    by (auto simp: asleep_def)
qed

text \<open>
  C12. A thread that sleeps is woken by the first \<^verbatim>\<open>wakeup\<close> on its channel: \<^verbatim>\<open>sleep\<close> then returns
  with the caller's lock held again, the thread running and its channel cleared; a thread that
  has been told to die gives up all locks and leaves through \<^verbatim>\<open>kthread_exit\<close> instead.
\<close>

theorem sleep_until_wakeup:
  assumes "valid_thread s t" "curthread s = Some t" "curproc s = Some p" "held s = [lk]"
    and "\<forall>f \<in> set es. keeps t (asleep ch (thread_at s t)) f"
    and "kstack (thread_at s t) \<noteq> 0" "pgdir (ptable s ! fst t) \<noteq> 0"
  shows "if shouldDie (thread_at s t) = 0
    then \<exists>s'. sleep ch lk s (es @ wakes ch # e) = Ok () s' e \<and> held s' = [lk] \<and>
      curthread s' = Some t \<and>
      thread_at s' t = (thread_at s t)\<lparr>tchan := None, tstate := T_RUNNING\<rparr>
    else \<exists>s'. sleep ch lk s (es @ wakes ch # e) = Dies s' e \<and> held s' = []"
  using assms by (rule sleep_kept_woken)

theorem sleep_until_wakeup_witness:
  "\<exists>s'. sleep ChTicks TicksLock (sample [TicksLock]) [wakes ChTicks] = Ok () s' [] \<and>
    held s' = [TicksLock] \<and> tstate (thread_at s' (0, 0)) = T_RUNNING"
proof -
  have "curthread (sample [TicksLock]) = Some (0, 0)" "curproc (sample [TicksLock]) = Some 0"
    "held (sample [TicksLock]) = [TicksLock]" "kstack (thread_at (sample [TicksLock]) (0, 0)) \<noteq> 0"
    "pgdir (ptable (sample [TicksLock]) ! fst (0, 0)) \<noteq> 0"
    "shouldDie (thread_at (sample [TicksLock]) (0, 0)) = 0"
    by (simp_all add: sample_defs thread_at_def)
  then show ?thesis
    using sleep_until_wakeup [OF sample_valid(1), of "[TicksLock]" 0 TicksLock "[]" ChTicks "[]"]
    by auto
qed


text \<open>A table with one runnable thread, which goes to sleep when it runs.\<close>

definition one_runnable :: kernel where
  "one_runnable = (sample [])\<lparr>ptable := sample_proc\<lparr>ttable :=
     sample_thread\<lparr>tstate := T_RUNNABLE\<rparr> # replicate 15 thread0\<rparr> # replicate 63 proc0\<rparr>"

lemma kfor_run_slot_idle:
  "\<forall>t \<in> set ts. \<not> runnable s t \<Longrightarrow> kfor run_slot ts s e = Ok () s e"
  by (induction ts) (auto simp: run_slot_def kdefs)

lemma one_runnable_others:
  assumes "ptable s = ptable one_runnable" "t \<in> set slots" "t \<noteq> (0, 0)"
  shows "\<not> runnable s t"
  using assms
  by (cases t) (auto simp: runnable_def thread_at_def one_runnable_def slots_iff NPROC_def
      NTHREAD_def nth_Cons proc0_def thread0_def split: nat.splits)

definition nap :: "kernel \<Rightarrow> kernel" where
  "nap s = (case curthread s of
     None \<Rightarrow> s | Some t \<Rightarrow> upd_thread t (\<lambda>t. t\<lparr>tstate := T_SLEEPING\<rparr>) s)"

lemma one_runnable_valid: "valid_thread one_runnable (0, 0)" "runnable one_runnable (0, 0)"
  by (simp_all add: one_runnable_def valid_thread_def runnable_def thread_at_def)

lemma one_runnable_turn: "\<exists>s'. scheduler_turn one_runnable [nap] = Ok () s' []"
proof -
  let ?s = "one_runnable\<lparr>held := [PtableLock]\<rparr>"
  have split: "slots = (0, 0) # tl slots" by (simp add: slots_def NPROC_def NTHREAD_def upt_conv_Cons)
  then have tl: "t \<in> set slots \<and> t \<noteq> (0, 0)" if "t \<in> set (tl slots)" for t
    using that distinct_slots by (metis distinct.simps(2) list.set_intros(2))
  have kp: "kstack (thread_at ?s (0, 0)) \<noteq> 0" "pgdir (ptable ?s ! fst (0, 0)) \<noteq> 0"
    by (simp_all add: one_runnable_def thread_at_def sample_defs)
  have r: "runnable ?s (0, 0)" using one_runnable_valid(2) by (simp add: runnable_def thread_at_def)
  obtain s1 where s1: "run_slot (0, 0) ?s [nap] = Ok () s1 []" "held s1 = [PtableLock]"
      "ptable s1 = upd_nth 0 (\<lambda>p. p\<lparr>pstate := USED, ttable := upd_nth 0
         (\<lambda>t. t\<lparr>tstate := T_SLEEPING\<rparr>) (ttable p)\<rparr>) (ptable one_runnable)"
    using r dispatch_eq [OF kp, of "[nap]"]
    by (simp add: run_slot_def kdefs kspin_def switchkvm_def nap_def upd_thread_def upd_proc_def
        o_def upd_nth_def one_runnable_def)
  have idle: "\<not> runnable s1 t" if "t \<in> set slots" for t
  proof (cases "t = (0, 0)")
    case True
    then show ?thesis using s1(3) by (simp add: runnable_def thread_at_def one_runnable_def)
  next
    case False
    have "thread_at s1 t = thread_at one_runnable t"
      using s1(3) False by (cases t; cases "fst t") (auto simp: thread_at_def one_runnable_def)
    then show ?thesis using one_runnable_others [OF refl that False] by (simp add: runnable_def)
  qed
  then have "kfor run_slot (tl slots) s1 [] = Ok () s1 []"
    using tl by (intro kfor_run_slot_idle) blast
  then have "kfor run_slot slots ?s [nap] = Ok () s1 []"
    using s1(1) by (subst split) simp
  moreover have "held one_runnable = []" by (simp add: one_runnable_def)
  ultimately show ?thesis
    using s1(2) by (simp add: scheduler_turn_def kdefs lk_acquire_apply lk_release_apply)
qed


text \<open>
  C15. Process ids stay unique: \<^verbatim>\<open>allocproc\<close> takes the first unused slot, marks it used, gives
  it an id no other process in use has, and keeps the invariant; it fails, changing nothing,
  only when every slot is taken.
\<close>

theorem allocproc_unique_pid:
  assumes "PtableLock \<notin> set (held s)" "pid_inv s" "nextpid s \<noteq> -1"
  shows "case allocproc s e of
      Ok (Some p) s' e' \<Rightarrow> p < length (ptable s) \<and> pstate (ptable s ! p) = UNUSED \<and>
        pstate (ptable s' ! p) = USED \<and> pid_inv s' \<and> e' = e
    | Ok None s' e' \<Rightarrow> s' = s \<and> (\<forall>p \<in> set (ptable s). pstate p \<noteq> UNUSED)
    | _ \<Rightarrow> False"
proof (cases "find_idx (\<lambda>p. pstate p = UNUSED) (ptable s)")
  case None
  then show ?thesis
    using find_idx_None_iff [of "\<lambda>p. pstate p = UNUSED" "ptable s"]
    by (simp add: allocproc_eq [OF assms(1)])
next
  case (Some p)
  then show ?thesis
    using find_idx_SomeD [OF Some] pid_inv_alloc [OF assms(2) _ assms(3), of p]
    by (simp add: allocproc_eq [OF assms(1)])
qed

theorem allocproc_unique_pid_witness:
  "\<exists>s'. allocproc (sample []) [] = Ok (Some 1) s' [] \<and> pid_inv s'"
proof -
  have "PtableLock \<notin> set (held (sample []))" "pid_inv (sample [])" "nextpid (sample []) \<noteq> -1"
    by (auto simp: sample_defs pid_inv_def ids_ok_def less_Suc_eq)
  from allocproc_unique_pid [OF this, of "[]"] show ?thesis
    by (simp add: allocproc_eq sample_defs)
qed

text \<open>
  C16. The kernel stack of a new thread: \<^verbatim>\<open>allocthread\<close> takes a slot and a page, and lays out
  trap frame and context so that the first switch to the thread continues at \<^verbatim>\<open>forkret\<close>, which
  returns to \<^verbatim>\<open>trapret\<close>.
\<close>

theorem allocthread_layout:
  assumes "PtableLock \<notin> set (held s)" "KmemLock \<notin> set (held s)" "freelist s \<noteq> 0"
    and "find_idx (\<lambda>t. tstate t = T_UNUSED) (ttable (ptable s ! p)) = Some i"
    and "p < length (ptable s)"
  shows "\<exists>s'. allocthread p s e = Ok (Some (p, i)) s' e \<and>
    tstate (thread_at s' (p, i)) = T_EMBRYO \<and> tid (thread_at s' (p, i)) = nexttid s \<and>
    kstack (thread_at s' (p, i)) = freelist s \<and>
    tf (thread_at s' (p, i)) + TF_SIZE = freelist s + KSTACKSIZE \<and>
    load32 (mem s') (tcontext (thread_at s' (p, i)) + 16) = sym_forkret (syms s) \<and>
    load32 (mem s') (tcontext (thread_at s' (p, i)) + CONTEXT_SIZE) = sym_trapret (syms s)"
  using allocthread_ok [OF assms, of e]
  by (auto simp: TF_SIZE_def KSTACKSIZE_def CONTEXT_SIZE_def add.commute)

theorem allocthread_layout_witness:
  "\<exists>s'. allocthread 0 ((sample [])\<lparr>freelist := 0x80200000\<rparr>) [] = Ok (Some (0, 1)) s' [] \<and>
    tid (thread_at s' (0, 1)) = 2 \<and> kstack (thread_at s' (0, 1)) = 0x80200000 \<and>
    load32 (mem s') (tcontext (thread_at s' (0, 1)) + 16) = 0x80103000 \<and>
    load32 (mem s') (tcontext (thread_at s' (0, 1)) + CONTEXT_SIZE) = 0x80105000"
proof -
  let ?s = "(sample [])\<lparr>freelist := 0x80200000\<rparr>"
  have "PtableLock \<notin> set (held ?s)" "KmemLock \<notin> set (held ?s)" "freelist ?s \<noteq> 0"
    "find_idx (\<lambda>t. tstate t = T_UNUSED) (ttable (ptable ?s ! 0)) = Some 1" "0 < length (ptable ?s)"
    by (simp_all add: sample_defs)
  from allocthread_layout [OF this, of "[]"] show ?thesis by (auto simp: sample_defs)
qed

text \<open>
  C23. When no page is left for the stack, \<^verbatim>\<open>allocthread\<close> marks the \<^emph>\<open>process\<close> unused. Called for
  the current process (\<^verbatim>\<open>kthread_create\<close>), it thereby gives up the slot of a running process.
\<close>

theorem allocthread_oom_frees_process:
  assumes "PtableLock \<notin> set (held s)" "KmemLock \<notin> set (held s)" "freelist s = 0"
    and "find_idx (\<lambda>t. tstate t = T_UNUSED) (ttable (ptable s ! p)) = Some i"
    and "p < length (ptable s)"
  shows "\<exists>s'. allocthread p s e = Ok None s' e \<and> pstate (ptable s' ! p) = UNUSED"
  using allocthread_oom [OF assms, of e] by blast

theorem allocthread_oom_frees_process_witness:
  "\<exists>s'. allocthread 0 (sample []) [] = Ok None s' [] \<and> pstate (ptable s' ! 0) = UNUSED"
  by (rule allocthread_oom_frees_process [of _ _ 1]) (simp_all add: sample_defs)

text \<open>
  \<^verbatim>\<open>kill(0)\<close> succeeds whenever a slot of the process table carries the id 0, as every slot
  never used or reaped does, and marks that slot killed.
\<close>

theorem kill_zero_marks_free_slot:
  assumes "PtableLock \<notin> set (held s)" "find_idx (\<lambda>p. pid p = 0) (ptable s) = Some p"
  shows "\<exists>s'. kill 0 s e = Ok 0 s' e \<and> killed (ptable s' ! p) = 1"
  using kill_eq [OF assms(1)] assms(2) find_idx_lt [OF assms(2)] by simp

theorem kill_zero_marks_free_slot_witness:
  "\<exists>s'. kill 0 (sample []) [] = Ok 0 s' [] \<and> killed (ptable s' ! 1) = 1"
  by (rule kill_zero_marks_free_slot) (simp_all add: sample_defs)

end
