(* ===== verification/Sleeplock.thy ===== *)
theory Sleeplock
  imports Sched
begin

text \<open>
  \<^verbatim>\<open>sleeplock.c\<close>: locks that are held across calls of \<^verbatim>\<open>sleep\<close>. A sleep-lock is part of a buffer
  or of an in-memory inode and is named by a \<open>sleeplock_id\<close>.
\<close>

section \<open>Operations\<close>

primrec get_sl :: "sleeplock_id \<Rightarrow> kernel \<Rightarrow> sleeplock" where
  "get_sl (BufLk b) s = block (bufs s ! b)"
| "get_sl (InodeLk i) s = ilk (icache s ! i)"

primrec upd_sl :: "sleeplock_id \<Rightarrow> (sleeplock \<Rightarrow> sleeplock) \<Rightarrow> kernel \<Rightarrow> kernel" where
  "upd_sl (BufLk b) f s = upd_buf b (\<lambda>x. x\<lparr>block := f (block x)\<rparr>) s"
| "upd_sl (InodeLk i) f s = upd_inode i (\<lambda>x. x\<lparr>ilk := f (ilk x)\<rparr>) s"

definition initsleeplock :: "sleeplock_id \<Rightarrow> unit kern" where
  "initsleeplock l = kmod (upd_sl l (\<lambda>x. x\<lparr>slocked := 0, slpid := 0\<rparr>))"

definition mypid :: "uint32 kern" where
  "mypid = kbind myproc (\<lambda>p. deref p (\<lambda>p. kget (\<lambda>s. pid (ptable s ! p))))"

definition sl_wait :: "sleeplock_id \<Rightarrow> unit option kern" where
  "sl_wait l =
     kbind (kget (\<lambda>s. slocked (get_sl l s))) (\<lambda>v.
     if v \<noteq> 0 then kseq (sleep (ChSleep l) (SleepLk l)) (kret None) else kret (Some ()))"

definition acquiresleep :: "sleeplock_id \<Rightarrow> unit kern" where
  "acquiresleep l =
     kseq (lk_acquire (SleepLk l))
    (kseq (kwait (sl_wait l))
    (kseq (kmod (upd_sl l (\<lambda>x. x\<lparr>slocked := 1\<rparr>)))
    (kbind mypid (\<lambda>p.
     kseq (kmod (upd_sl l (\<lambda>x. x\<lparr>slpid := p\<rparr>)))
    (lk_release (SleepLk l))))))"

definition releasesleep :: "sleeplock_id \<Rightarrow> unit kern" where
  "releasesleep l =
     kseq (lk_acquire (SleepLk l))
    (kseq (kmod (upd_sl l (\<lambda>x. x\<lparr>slocked := 0, slpid := 0\<rparr>)))
    (kseq (wakeup (ChSleep l))
    (lk_release (SleepLk l))))"

definition holdingsleep :: "sleeplock_id \<Rightarrow> bool kern" where
  "holdingsleep l =
     kseq (lk_acquire (SleepLk l))
    (kbind (kget (\<lambda>s. get_sl l s)) (\<lambda>x.
     kbind (if slocked x \<noteq> 0 then kbind mypid (\<lambda>p. kret (slpid x = p)) else kret False) (\<lambda>r.
     kseq (lk_release (SleepLk l)) (kret r))))"

section \<open>Lock discipline\<close>

lemma held_upd_sl [simp]: "held (upd_sl l f s) = held s"
  by (cases l) simp_all

lemma lk_ok_mypid [klock]: "lk_bal h mypid"
  unfolding mypid_def by (rule klock)+

lemma lk_ok_sl_wait [klock]: "h = [SleepLk l] \<Longrightarrow> lk_ok h (sl_wait l) (\<lambda>_. h)"
  unfolding sl_wait_def by (rule klock | simp)+

text \<open>A thread asks for a sleep-lock only while it holds no spinlock.\<close>

lemma lk_ok_acquiresleep [klock]: "h = [] \<Longrightarrow> lk_bal h (acquiresleep l)"
  unfolding acquiresleep_def sl_wait_def by (rule klock | simp)+

lemma lk_ok_releasesleep [klock]:
  "SleepLk l \<notin> set h \<Longrightarrow> PtableLock \<notin> set h \<Longrightarrow> lk_bal h (releasesleep l)"
  unfolding releasesleep_def by (rule klock | simp)+

lemma lk_ok_holdingsleep [klock]: "SleepLk l \<notin> set h \<Longrightarrow> lk_bal h (holdingsleep l)"
  unfolding holdingsleep_def by (rule klock | simp)+

section \<open>Behaviour\<close>

lemma upd_sl_sel [simp]:
  "curproc (upd_sl l f s) = curproc s" "curthread (upd_sl l f s) = curthread s"
  "ptable (upd_sl l f s) = ptable s" "memdisk (upd_sl l f s) = memdisk s"
  "disksize (upd_sl l f s) = disksize s" "klog (upd_sl l f s) = klog s"
  by (cases l; simp add: upd_buf_def upd_inode_def)+

lemma upd_sl_held: "upd_sl l f (s\<lparr>held := h\<rparr>) = (upd_sl l f s)\<lparr>held := h\<rparr>"
  by (cases l) (simp_all add: upd_buf_def upd_inode_def)

lemma get_sl_held [simp]: "get_sl l (s\<lparr>held := h\<rparr>) = get_sl l s"
  by (cases l) simp_all

lemma upd_sl_upd_sl: "upd_sl l f (upd_sl l g s) = upd_sl l (\<lambda>x. f (g x)) s"
  by (cases l) (simp_all add: upd_buf_def upd_inode_def o_def)

definition valid_sl :: "kernel \<Rightarrow> sleeplock_id \<Rightarrow> bool" where
  "valid_sl s l \<longleftrightarrow> (case l of BufLk b \<Rightarrow> b < length (bufs s) | InodeLk i \<Rightarrow> i < length (icache s))"

lemma get_upd_sl: "valid_sl s l \<Longrightarrow> get_sl l (upd_sl l f s) = f (get_sl l s)"
  by (cases l) (simp_all add: valid_sl_def upd_buf_def upd_inode_def)

lemma held_id: "s\<lparr>held := held s\<rparr> = s"
  by simp

lemma acquiresleep_free:
  assumes "SleepLk l \<notin> set (held s)" "slocked (get_sl l s) = 0" "curproc s = Some p"
  shows "acquiresleep l s e =
    Ok () (upd_sl l (\<lambda>x. x\<lparr>slocked := 1, slpid := pid (ptable s ! p)\<rparr>) s) e"
  using assms
  by (simp add: acquiresleep_def sl_wait_def kwait_def kbind_def kseq_def lk_acquire_apply
      lk_release_apply mypid_def myproc_def upd_sl_upd_sl upd_sl_held)

lemma holdingsleep_eq:
  assumes "SleepLk l \<notin> set (held s)" "curproc s = Some p"
  shows "holdingsleep l s e =
    Ok (slocked (get_sl l s) \<noteq> 0 \<and> slpid (get_sl l s) = pid (ptable s ! p)) s e"
  using assms
  by (simp add: holdingsleep_def kbind_def kseq_def lk_acquire_apply lk_release_apply mypid_def
      myproc_def)

lemma releasesleep_eq:
  assumes "SleepLk l \<notin> set (held s)" "PtableLock \<notin> set (held s)"
  shows "releasesleep l s e =
    Ok () (wakes (ChSleep l) (upd_sl l (\<lambda>x. x\<lparr>slocked := 0, slpid := 0\<rparr>) s)) e"
  using assms
  by (simp add: releasesleep_def kbind_def kseq_def lk_acquire_apply lk_release_apply wakeup_eq
      wakes_def upd_sl_held)

section \<open>Properties\<close>

lemma sl_wait_uses: "uses_env steady (sl_wait l)"
proof -
  have "case sl_wait l s e of Ok None t d \<Rightarrow> steady t d \<and> length d < length e
      | Spins t \<Rightarrow> False | _ \<Rightarrow> True" if "steady s e" for s e
  proof (cases "sleep (ChSleep l) (SleepLk l) s e")
    case (Ok r t d)
    from sleep_uses [OF that Ok] show ?thesis using Ok by (simp add: sl_wait_def kbind_def kseq_def)
  qed (use sleep_not_spins in \<open>auto simp: sl_wait_def kbind_def kseq_def\<close>)
  then show ?thesis by (simp add: uses_env_def)
qed

text \<open>
  C29. The waiting loop of \<^verbatim>\<open>acquiresleep\<close> runs at most once per wake-up: it ends with the lock
  free, blocks, or leaves through \<^verbatim>\<open>kthread_exit\<close>; it never spins.
\<close>

theorem acquiresleep_never_spins:
  assumes "steady s e"
  shows "kwait (sl_wait l) s e \<noteq> Spins t"
  using kwait_never_spins [OF sl_wait_uses assms] .

theorem acquiresleep_never_spins_witness:
  "\<forall>t. kwait (sl_wait (BufLk 0)) (sample [SleepLk (BufLk 0)]) [wakes (ChSleep (BufLk 0))] \<noteq> Spins t"
proof -
  have "shape (wakes ch s) = shape s" for ch s
    by (simp add: wakes_def shape_def wake_proc_ttable)
  then have "steady (sample [SleepLk (BufLk 0)]) [wakes (ChSleep (BufLk 0))]"
    using sample_valid by (simp add: steady_def)
  then show ?thesis using acquiresleep_never_spins by blast
qed



end
