(* ===== verification/Bio.thy ===== *)
theory Bio
  imports Sleeplock
begin

text \<open>
  \<^verbatim>\<open>bio.c\<close>, the buffer cache, over the memory disk of \<^verbatim>\<open>memide.c\<close> (the kernel of the target
  \<^verbatim>\<open>kernelmemfs\<close>). The list of buffers, most recently used first, is linked through \<^verbatim>\<open>prev\<close> and
  \<^verbatim>\<open>next\<close>; its head is entry \<^verbatim>\<open>NBUF\<close> of the table. \<open>lru\<close> reads the order of the buffers off the
  links, and the lemmas show that the code's pointer assignments move a buffer to the front of
  that list.
\<close>

section \<open>The disk\<close>

definition iderw :: "nat \<Rightarrow> unit kern" where
  "iderw b =
     kbind (holdingsleep (BufLk b)) (\<lambda>hold.
     if \<not> hold then kpanic ''iderw: buf not locked''
     else
       kbind (kget (\<lambda>s. bufs s ! b)) (\<lambda>x.
       if bflags x AND (B_VALID OR B_DIRTY) = B_VALID then kpanic ''iderw: nothing to do''
       else if bdev x \<noteq> 1 then kpanic ''iderw: request not for disk 1''
       else
         kbind (kget disksize) (\<lambda>n.
         if unat (blockno x) \<ge> n then kpanic ''iderw: block out of range''
         else if bflags x AND B_DIRTY \<noteq> 0 then
           kmod (\<lambda>s. upd_buf b (\<lambda>y. y\<lparr>bflags := (bflags y AND NOT B_DIRTY) OR B_VALID\<rparr>)
                      (s\<lparr>memdisk := (memdisk s)(unat (blockno x) := bdata x),
                         dwrites := dwrites s @ [(unat (blockno x), bdata x)]\<rparr>))
         else
           kmod (\<lambda>s. upd_buf b (\<lambda>y. y\<lparr>bdata := memdisk s (unat (blockno y)),
                      bflags := bflags y OR B_VALID\<rparr>) s))))"

section \<open>The list of buffers\<close>

text \<open>
  The loops of \<^verbatim>\<open>bget\<close>: from \<open>b\<close> on along \<^verbatim>\<open>next\<close> or \<^verbatim>\<open>prev\<close> until the head. A well-formed list has
  \<^verbatim>\<open>NBUF\<close> entries, so \<^verbatim>\<open>NBUF + 1\<close> steps reach the head.
\<close>

primrec bscan :: "nat \<Rightarrow> (buf \<Rightarrow> nat) \<Rightarrow> (buf \<Rightarrow> bool) \<Rightarrow> buf list \<Rightarrow> nat \<Rightarrow> nat option" where
  "bscan 0 nx P bs b = None"
| "bscan (Suc k) nx P bs b =
     (if b = NBUF then None else if P (bs ! b) then Some b else bscan k nx P bs (nx (bs ! b)))"

definition set_prev :: "nat \<Rightarrow> nat \<Rightarrow> buf list \<Rightarrow> buf list" where
  "set_prev b v = upd_nth b (\<lambda>x. x\<lparr>bprev := v\<rparr>)"

definition set_next :: "nat \<Rightarrow> nat \<Rightarrow> buf list \<Rightarrow> buf list" where
  "set_next b v = upd_nth b (\<lambda>x. x\<lparr>bnext := v\<rparr>)"

text \<open>Linking a buffer in behind the head.\<close>

definition push_front :: "nat \<Rightarrow> buf list \<Rightarrow> buf list" where
  "push_front b bs =
     (let bs = set_next b (bnext (bs ! NBUF)) bs;
          bs = set_prev b NBUF bs;
          bs = set_prev (bnext (bs ! NBUF)) b bs in
      set_next NBUF b bs)"

definition unlink_buf :: "nat \<Rightarrow> buf list \<Rightarrow> buf list" where
  "unlink_buf b bs =
     (let bs = set_prev (bnext (bs ! b)) (bprev (bs ! b)) bs in
      set_next (bprev (bs ! b)) (bnext (bs ! b)) bs)"

definition binit :: "unit kern" where
  "binit =
     kseq (kmod (\<lambda>s. s\<lparr>bufs := set_next NBUF NBUF (set_prev NBUF NBUF (bufs s))\<rparr>))
    (kfor (\<lambda>b. kseq (initsleeplock (BufLk b)) (kmod (\<lambda>s. s\<lparr>bufs := push_front b (bufs s)\<rparr>)))
      [0..<NBUF])"

section \<open>Operations\<close>

definition find_cached :: "uint32 \<Rightarrow> uint32 \<Rightarrow> buf list \<Rightarrow> nat option" where
  "find_cached dev blk bs =
     bscan (Suc NBUF) bnext (\<lambda>x. bdev x = dev \<and> blockno x = blk) bs (bnext (bs ! NBUF))"

definition find_unused :: "buf list \<Rightarrow> nat option" where
  "find_unused bs =
     bscan (Suc NBUF) bprev (\<lambda>x. refcnt x = 0 \<and> bflags x AND B_DIRTY = 0) bs (bprev (bs ! NBUF))"

definition bget :: "uint32 \<Rightarrow> uint32 \<Rightarrow> nat kern" where
  "bget dev blk =
     kseq (lk_acquire BcacheLock)
    (kbind (kget (\<lambda>s. find_cached dev blk (bufs s))) (\<lambda>c.
     case c of
       Some b \<Rightarrow>
         kseq (kmod (upd_buf b (\<lambda>x. x\<lparr>refcnt := refcnt x + 1\<rparr>)))
        (kseq (lk_release BcacheLock) (kseq (acquiresleep (BufLk b)) (kret b)))
     | None \<Rightarrow>
         kbind (kget (\<lambda>s. find_unused (bufs s))) (\<lambda>u.
         case u of
           Some b \<Rightarrow>
             kseq (kmod (upd_buf b (\<lambda>x. x\<lparr>bdev := dev, blockno := blk, bflags := 0, refcnt := 1\<rparr>)))
            (kseq (lk_release BcacheLock) (kseq (acquiresleep (BufLk b)) (kret b)))
         | None \<Rightarrow> kpanic ''bget: no buffers'')))"

definition bread :: "uint32 \<Rightarrow> uint32 \<Rightarrow> nat kern" where
  "bread dev blk =
     kbind (bget dev blk) (\<lambda>b.
     kbind (kget (\<lambda>s. bflags (bufs s ! b))) (\<lambda>f.
     kseq (kwhen (f AND B_VALID = 0) (iderw b)) (kret b)))"

definition bwrite :: "nat \<Rightarrow> unit kern" where
  "bwrite b =
     kbind (holdingsleep (BufLk b)) (\<lambda>hold.
     if \<not> hold then kpanic ''bwrite''
     else kseq (kmod (upd_buf b (\<lambda>x. x\<lparr>bflags := bflags x OR B_DIRTY\<rparr>))) (iderw b))"

definition brelse :: "nat \<Rightarrow> unit kern" where
  "brelse b =
     kbind (holdingsleep (BufLk b)) (\<lambda>hold.
     if \<not> hold then kpanic ''brelse''
     else
       kseq (releasesleep (BufLk b))
      (kseq (lk_acquire BcacheLock)
      (kseq (kmod (upd_buf b (\<lambda>x. x\<lparr>refcnt := refcnt x - 1\<rparr>)))
      (kbind (kget (\<lambda>s. refcnt (bufs s ! b))) (\<lambda>r.
       kseq (kwhen (r = 0) (kmod (\<lambda>s. s\<lparr>bufs := push_front b (unlink_buf b (bufs s))\<rparr>)))
      (lk_release BcacheLock))))))"

section \<open>Lock discipline\<close>

lemma lk_ok_iderw [klock]: "SleepLk (BufLk b) \<notin> set h \<Longrightarrow> lk_bal h (iderw b)"
  unfolding iderw_def by (rule klock | simp add: lock_panics_def)+

lemma lk_ok_bget [klock]: "h = [] \<Longrightarrow> lk_bal h (bget dev blk)"
  unfolding bget_def by (rule klock | simp add: lock_panics_def)+

lemma lk_ok_bread [klock]: "h = [] \<Longrightarrow> lk_bal h (bread dev blk)"
  unfolding bread_def by (rule klock | simp)+

lemma lk_ok_bwrite [klock]: "SleepLk (BufLk b) \<notin> set h \<Longrightarrow> lk_bal h (bwrite b)"
  unfolding bwrite_def by (rule klock | simp add: lock_panics_def)+

lemma lk_ok_brelse [klock]: "h = [] \<Longrightarrow> lk_bal h (brelse b)"
  unfolding brelse_def by (rule klock | simp add: lock_panics_def)+

section \<open>The links as a list\<close>

text \<open>\<open>links bs a xs b\<close>: from \<open>a\<close> the \<^verbatim>\<open>next\<close> pointers lead through \<open>xs\<close> to \<open>b\<close>, the \<^verbatim>\<open>prev\<close> ones back.\<close>

primrec links :: "buf list \<Rightarrow> nat \<Rightarrow> nat list \<Rightarrow> nat \<Rightarrow> bool" where
  "links bs a [] b \<longleftrightarrow> bnext (bs ! a) = b \<and> bprev (bs ! b) = a"
| "links bs a (x # xs) b \<longleftrightarrow> bnext (bs ! a) = x \<and> bprev (bs ! x) = a \<and> links bs x xs b"

definition lru :: "buf list \<Rightarrow> nat list \<Rightarrow> bool" where
  "lru bs xs \<longleftrightarrow> length bs = Suc NBUF \<and> links bs NBUF xs NBUF \<and> distinct xs \<and> set xs \<subseteq> {..<NBUF}"

lemma links_append: "links bs a (xs @ y # ys) b \<longleftrightarrow> links bs a xs y \<and> links bs y ys b"
  by (induction xs arbitrary: a) auto

text \<open>Only the \<^verbatim>\<open>next\<close> of the nodes before the end and the \<^verbatim>\<open>prev\<close> of those after the start matter.\<close>

lemma links_cong:
  "(\<And>i. i \<in> set (a # xs) \<Longrightarrow> bnext (bs' ! i) = bnext (bs ! i)) \<Longrightarrow>
   (\<And>i. i \<in> set (xs @ [b]) \<Longrightarrow> bprev (bs' ! i) = bprev (bs ! i)) \<Longrightarrow>
   links bs' a xs b = links bs a xs b"
  by (induction xs arbitrary: a) auto

lemma nth_set_prev:
  "b < length bs \<Longrightarrow> set_prev b v bs ! i = (if i = b then (bs ! i)\<lparr>bprev := v\<rparr> else bs ! i)"
  by (simp add: set_prev_def)

lemma nth_set_next:
  "b < length bs \<Longrightarrow> set_next b v bs ! i = (if i = b then (bs ! i)\<lparr>bnext := v\<rparr> else bs ! i)"
  by (simp add: set_next_def)

lemma length_set [simp]: "length (set_prev b v bs) = length bs" "length (set_next b v bs) = length bs"
  by (simp_all add: set_prev_def set_next_def)

lemma links_first: "links bs a xs b \<Longrightarrow> bnext (bs ! a) = hd (xs @ [b])"
  by (cases xs) auto

lemma links_last: "links bs a xs b \<Longrightarrow> bprev (bs ! b) = last (a # xs)"
  by (induction xs arbitrary: a) auto

lemma lru_nth_lt: "lru bs xs \<Longrightarrow> x \<in> set xs \<Longrightarrow> x < length bs \<and> x \<noteq> NBUF"
  by (auto simp: lru_def)

lemma push_front_lru:
  assumes lru: "lru bs xs" and b: "b < NBUF" "b \<notin> set xs"
  shows "lru (push_front b bs) (b # xs)"
proof -
  let ?y = "hd (xs @ [NBUF])"
  have len: "length bs = Suc NBUF" and l: "links bs NBUF xs NBUF" using lru by (simp_all add: lru_def)
  have y: "bnext (bs ! NBUF) = ?y" using links_first [OF l] .
  have ylt: "?y < length bs" using lru by (cases xs) (auto simp: lru_def)
  have by': "b \<noteq> ?y" using b by (cases xs) auto
  let ?bs = "push_front b bs"
  have nx: "bnext (?bs ! i) = (if i = NBUF then b else if i = b then ?y else bnext (bs ! i))" for i
    using b len y ylt by' by (simp add: push_front_def Let_def nth_set_prev nth_set_next)
  have pv: "bprev (?bs ! i) = (if i = ?y then b else if i = b then NBUF else bprev (bs ! i))" for i
    using b len y ylt by' by (simp add: push_front_def Let_def nth_set_prev nth_set_next)
  have "links ?bs b xs NBUF"
  proof (cases xs)
    case Nil
    then show ?thesis using nx pv b by simp
  next
    case (Cons z zs)
    have "links ?bs z zs NBUF = links bs z zs NBUF"
      using lru b Cons by (intro links_cong) (auto simp: nx pv lru_def)
    then show ?thesis using l nx pv b Cons by auto
  qed
  then show ?thesis
    using lru b nx pv by' by (simp add: lru_def push_front_def Let_def)
qed

lemma unlink_lru:
  assumes lru: "lru bs (ys @ b # zs)"
  shows "lru (unlink_buf b bs) (ys @ zs)"
proof -
  define p where "p = last (NBUF # ys)"
  define n where "n = hd (zs @ [NBUF])"
  have len: "length bs = Suc NBUF" and l: "links bs NBUF ys b" "links bs b zs NBUF"
    using lru by (simp_all add: lru_def links_append)
  have d: "distinct (NBUF # ys @ b # zs)" "set (ys @ b # zs) \<subseteq> {..<NBUF}"
    using lru by (auto simp: lru_def)
  have bn: "bnext (bs ! b) = n" using links_first [OF l(2)] by (simp add: n_def)
  have bp: "bprev (bs ! b) = p" using links_last [OF l(1)] by (simp add: p_def)
  have lt: "n < length bs" "p < length bs" "b < length bs" "p \<noteq> b" "n \<noteq> b"
    using d len unfolding p_def n_def by (cases zs; cases ys rule: rev_cases; auto)+
  let ?bs = "unlink_buf b bs"
  have nx: "bnext (?bs ! i) = (if i = p then n else bnext (bs ! i))" for i
    using lt bn bp by (simp add: unlink_buf_def Let_def nth_set_prev nth_set_next)
  have pv: "bprev (?bs ! i) = (if i = n then p else bprev (bs ! i))" for i
    using lt bn bp by (simp add: unlink_buf_def Let_def nth_set_prev nth_set_next)
  have len': "length ?bs = Suc NBUF" using len by (simp add: unlink_buf_def Let_def)
  have "links ?bs NBUF (ys @ zs) NBUF"
  proof (cases zs)
    case Nil
    note zs = this
    show ?thesis
    proof (cases ys rule: rev_cases)
      case Nil
      then show ?thesis using zs nx pv by (simp add: p_def n_def)
    next
      case (snoc us u)
      have "links ?bs NBUF us u = links bs NBUF us u"
        using d snoc zs by (intro links_cong) (auto simp: nx pv p_def n_def)
      then show ?thesis using l(1) zs snoc nx pv by (simp add: links_append p_def n_def)
    qed
  next
    case (Cons v vs)
    note zs = this
    have v: "links ?bs v vs NBUF = links bs v vs NBUF"
      using d zs by (intro links_cong) (cases ys rule: rev_cases; auto simp: nx pv p_def n_def)+
    show ?thesis
    proof (cases ys rule: rev_cases)
      case Nil
      then show ?thesis using zs nx pv v l(2) by (simp add: p_def n_def)
    next
      case (snoc us u)
      have "links ?bs NBUF us u = links bs NBUF us u"
        using d snoc zs by (intro links_cong) (auto simp: nx pv p_def n_def)
      then show ?thesis using l zs snoc nx pv v by (simp add: links_append p_def n_def)
    qed
  qed
  then show ?thesis using d len' by (simp add: lru_def)
qed

text \<open>The scans of \<^verbatim>\<open>bget\<close> search the list from its front and from its back.\<close>

lemma bscan_next:
  assumes "links bs a xs NBUF" "set xs \<subseteq> {..<NBUF}" "length xs < k"
  shows "bscan k bnext P bs (bnext (bs ! a)) = find (\<lambda>b. P (bs ! b)) xs"
  using assms
proof (induction xs arbitrary: a k)
  case Nil
  then show ?case by (cases k) auto
next
  case (Cons x xs)
  then obtain j where "k = Suc j" "length xs < j" by (cases k) auto
  with Cons show ?case by auto
qed

lemma bscan_prev:
  assumes "links bs NBUF xs b" "set xs \<subseteq> {..<NBUF}" "length xs < k"
  shows "bscan k bprev P bs (bprev (bs ! b)) = find (\<lambda>b. P (bs ! b)) (rev xs)"
  using assms
proof (induction xs arbitrary: b k rule: rev_induct)
  case Nil
  then show ?case by (cases k) auto
next
  case (snoc x xs)
  then obtain j where "k = Suc j" "length xs < j" by (cases k) auto
  with snoc show ?case by (auto simp: links_append)
qed

lemma lru_length: "lru bs xs \<Longrightarrow> length xs \<le> NBUF"
  unfolding lru_def using card_mono [of "{..<NBUF}" "set xs"] by (simp add: distinct_card)

lemma find_cached_lru:
  "lru bs xs \<Longrightarrow> find_cached dev blk bs = find (\<lambda>b. bdev (bs ! b) = dev \<and> blockno (bs ! b) = blk) xs"
  unfolding find_cached_def by (rule bscan_next) (use lru_length in \<open>auto simp: lru_def less_Suc_eq_le\<close>)

lemma find_unused_lru:
  "lru bs xs \<Longrightarrow>
   find_unused bs = find (\<lambda>b. refcnt (bs ! b) = 0 \<and> bflags (bs ! b) AND B_DIRTY = 0) (rev xs)"
  unfolding find_unused_def by (rule bscan_prev) (use lru_length in \<open>auto simp: lru_def less_Suc_eq_le\<close>)

text \<open>Relinking leaves everything but the links alone.\<close>

definition buf_core :: "buf \<Rightarrow> uint32 \<times> uint32 \<times> uint32 \<times> sleeplock \<times> uint32 \<times> uchar list" where
  "buf_core x = (bflags x, bdev x, blockno x, block x, refcnt x, bdata x)"

lemma buf_core_eqD:
  "buf_core x = buf_core y \<Longrightarrow> bflags x = bflags y \<and> bdev x = bdev y \<and> blockno x = blockno y \<and>
     block x = block y \<and> refcnt x = refcnt y \<and> bdata x = bdata y"
  by (simp add: buf_core_def)

lemma map_core_set [simp]:
  "map buf_core (set_prev b v bs) = map buf_core bs" "map buf_core (set_next b v bs) = map buf_core bs"
  unfolding set_prev_def set_next_def by (rule map_upd_nth_cong, simp add: buf_core_def)+

lemma map_core_front [simp]: "map buf_core (push_front b bs) = map buf_core bs"
  by (simp add: push_front_def Let_def)

lemma map_core_unlink [simp]: "map buf_core (unlink_buf b bs) = map buf_core bs"
  by (simp add: unlink_buf_def Let_def)

lemma core_nth:
  "map buf_core bs' = map buf_core bs \<Longrightarrow> i < length bs \<Longrightarrow> buf_core (bs' ! i) = buf_core (bs ! i)"
  by (metis length_map nth_map)

lemma links_upd:
  "(\<And>x. bnext (f x) = bnext x \<and> bprev (f x) = bprev x) \<Longrightarrow> links (upd_nth i f bs) a xs b = links bs a xs b"
proof -
  assume f: "\<And>x. bnext (f x) = bnext x \<and> bprev (f x) = bprev x"
  have "bnext (upd_nth i f bs ! j) = bnext (bs ! j) \<and> bprev (upd_nth i f bs ! j) = bprev (bs ! j)" for j
    by (cases "i = j"; cases "i < length bs") (simp_all add: f upd_nth_def list_update_beyond)
  then show "links (upd_nth i f bs) a xs b = links bs a xs b" by (intro links_cong) simp_all
qed

lemma lru_upd:
  "(\<And>x. bnext (f x) = bnext x \<and> bprev (f x) = bprev x) \<Longrightarrow> lru (upd_nth i f bs) xs = lru bs xs"
  by (simp add: lru_def links_upd)

section \<open>One copy per block\<close>

text \<open>
  The invariant of the cache: the list runs through all buffers, and no two buffers are for the
  same block of the same device. Device number 0 marks a buffer that was never used.
\<close>

definition one_copy :: "buf list \<Rightarrow> bool" where
  "one_copy bs \<longleftrightarrow> (\<forall>i < NBUF. \<forall>j < NBUF. i \<noteq> j \<longrightarrow> bdev (bs ! i) \<noteq> 0 \<longrightarrow>
     \<not> (bdev (bs ! i) = bdev (bs ! j) \<and> blockno (bs ! i) = blockno (bs ! j)))"

definition bc_inv :: "buf list \<Rightarrow> bool" where
  "bc_inv bs \<longleftrightarrow> one_copy bs \<and> (\<exists>xs. lru bs xs \<and> set xs = {..<NBUF})"

lemma one_copy_core:
  assumes "map buf_core bs' = map buf_core bs" "length bs = Suc NBUF"
  shows "one_copy bs' = one_copy bs"
proof -
  have "bdev (bs' ! i) = bdev (bs ! i) \<and> blockno (bs' ! i) = blockno (bs ! i)" if "i < NBUF" for i
    using core_nth [OF assms(1), of i] that assms(2) by (auto dest: buf_core_eqD)
  then show ?thesis by (simp add: one_copy_def)
qed

lemma bc_inv_upd:
  assumes "bc_inv bs" "\<And>x. bnext (f x) = bnext x \<and> bprev (f x) = bprev x"
    and "\<And>x. bdev (f x) = bdev x \<and> blockno (f x) = blockno x"
  shows "bc_inv (upd_nth b f bs)"
proof -
  have "bdev (upd_nth b f bs ! i) = bdev (bs ! i) \<and> blockno (upd_nth b f bs ! i) = blockno (bs ! i)" for i
    by (cases "b = i"; cases "b < length bs") (simp_all add: assms(3) upd_nth_def list_update_beyond)
  then have "one_copy (upd_nth b f bs) = one_copy bs" by (simp add: one_copy_def)
  then show ?thesis using assms(1) by (simp add: bc_inv_def lru_upd assms(2))
qed

lemma bc_inv_move:
  assumes "bc_inv bs" "b < NBUF"
  shows "bc_inv (push_front b (unlink_buf b bs))"
proof -
  obtain xs where lru: "lru bs xs" and all: "set xs = {..<NBUF}" using assms(1) by (auto simp: bc_inv_def)
  then obtain ys zs where xs: "xs = ys @ b # zs" using assms(2) split_list [of b xs] by auto
  have "b \<notin> set (ys @ zs)" using lru xs by (auto simp: lru_def)
  then have "lru (push_front b (unlink_buf b bs)) (b # ys @ zs)"
    using push_front_lru unlink_lru lru xs assms(2) by blast
  moreover have "set (b # ys @ zs) = {..<NBUF}" using all xs by auto
  moreover have "length bs = Suc NBUF" using lru by (simp add: lru_def)
  ultimately show ?thesis
    using assms(1) one_copy_core [of "push_front b (unlink_buf b bs)" bs] unfolding bc_inv_def by auto
qed

lemma bc_inv_recycle:
  assumes inv: "bc_inv bs" and none: "find_cached dev blk bs = None" and b: "b < NBUF" "dev \<noteq> 0"
    and f: "\<And>x. bnext (f x) = bnext x \<and> bprev (f x) = bprev x \<and> bdev (f x) = dev \<and> blockno (f x) = blk"
  shows "bc_inv (upd_nth b f bs)"
proof -
  obtain xs where lru: "lru bs xs" and all: "set xs = {..<NBUF}" using inv by (auto simp: bc_inv_def)
  have free: "\<not> (bdev (bs ! i) = dev \<and> blockno (bs ! i) = blk)" if "i < NBUF" for i
    using none that all unfolding find_cached_lru [OF lru] find_None_iff by blast
  have len: "b < length bs" using lru b by (simp add: lru_def)
  have nth: "upd_nth b f bs ! i = (if i = b then f (bs ! i) else bs ! i)" for i
    using len by (cases "i = b") simp_all
  have "one_copy (upd_nth b f bs)"
    unfolding one_copy_def
  proof (intro allI impI)
    fix i j assume ij: "i < NBUF" "j < NBUF" "i \<noteq> j" "bdev (upd_nth b f bs ! i) \<noteq> 0"
    show "\<not> (bdev (upd_nth b f bs ! i) = bdev (upd_nth b f bs ! j) \<and>
        blockno (upd_nth b f bs ! i) = blockno (upd_nth b f bs ! j))"
    proof (cases "i = b \<or> j = b")
      case True
      then show ?thesis using ij free [of i] free [of j] f by (auto simp: nth)
    next
      case False
      then show ?thesis using inv ij by (simp add: nth bc_inv_def one_copy_def)
    qed
  qed
  then show ?thesis using lru all f by (auto simp: bc_inv_def lru_upd)
qed

section \<open>What the operations do when nobody else holds the buffer\<close>

abbreviation sl_by :: "uint32 \<Rightarrow> sleeplock" where
  "sl_by p \<equiv> \<lparr>slocked = 1, slpid = p\<rparr>"

lemma upd_buf_sel [simp]:
  "bufs (upd_buf b f s) = upd_nth b f (bufs s)" "curproc (upd_buf b f s) = curproc s"
  "ptable (upd_buf b f s) = ptable s" "memdisk (upd_buf b f s) = memdisk s"
  "disksize (upd_buf b f s) = disksize s" "klog (upd_buf b f s) = klog s"
  "dwrites (upd_buf b f s) = dwrites s" "curthread (upd_buf b f s) = curthread s"
  "sb (upd_buf b f s) = sb s" "icache (upd_buf b f s) = icache s"
  by (simp_all add: upd_buf_def)

lemma upd_buf_held: "upd_buf b f (s\<lparr>held := h\<rparr>) = (upd_buf b f s)\<lparr>held := h\<rparr>"
  by (simp add: upd_buf_def)

lemma upd_buf_upd_buf: "upd_buf b f (upd_buf b g s) = upd_buf b (\<lambda>x. f (g x)) s"
  by (simp add: upd_buf_def o_def)

lemma bget_hit:
  assumes "held s = []" "curproc s = Some p" "find_cached dev blk (bufs s) = Some b"
    and "b < length (bufs s)" "slocked (block (bufs s ! b)) = 0"
  shows "bget dev blk s e = Ok b (upd_buf b (\<lambda>x. x\<lparr>refcnt := refcnt x + 1,
      block := (block x)\<lparr>slocked := 1, slpid := pid (ptable s ! p)\<rparr>\<rparr>) s) e"
  using assms acquiresleep_free [of "BufLk b" "upd_buf b (\<lambda>x. x\<lparr>refcnt := refcnt x + 1\<rparr>) s" p e]
  by (simp add: bget_def kbind_def kseq_def lk_acquire_apply lk_release_apply upd_buf_held
      upd_buf_upd_buf)

lemma bget_miss:
  assumes "held s = []" "curproc s = Some p" "find_cached dev blk (bufs s) = None"
    and "find_unused (bufs s) = Some b"
    and "b < length (bufs s)" "slocked (block (bufs s ! b)) = 0"
  shows "bget dev blk s e = Ok b (upd_buf b (\<lambda>x. x\<lparr>bdev := dev, blockno := blk, bflags := 0,
      refcnt := 1, block := (block x)\<lparr>slocked := 1, slpid := pid (ptable s ! p)\<rparr>\<rparr>) s) e"
  using assms acquiresleep_free [of "BufLk b"
      "upd_buf b (\<lambda>x. x\<lparr>bdev := dev, blockno := blk, bflags := 0, refcnt := 1\<rparr>) s" p e]
  by (simp add: bget_def kbind_def kseq_def lk_acquire_apply lk_release_apply upd_buf_held
      upd_buf_upd_buf)

lemma iderw_read:
  assumes "SleepLk (BufLk b) \<notin> set (held s)" "curproc s = Some p"
    and "block (bufs s ! b) = sl_by (pid (ptable s ! p))"
    and "bflags (bufs s ! b) AND B_VALID = 0" "bflags (bufs s ! b) AND B_DIRTY = 0"
    and "bdev (bufs s ! b) = 1" "unat (blockno (bufs s ! b)) < disksize s"
  shows "iderw b s e = Ok () (upd_buf b (\<lambda>y. y\<lparr>bdata := memdisk s (unat (blockno y)),
     bflags := bflags y OR B_VALID\<rparr>) s) e"
proof -
  have "bflags (bufs s ! b) AND (B_VALID OR B_DIRTY) = 0"
    using assms(4,5) by (simp add: bit.conj_disj_distrib)
  moreover have "(0 :: uint32) \<noteq> B_VALID" by (simp add: B_VALID_def)
  ultimately show ?thesis
    using assms by (simp add: iderw_def kbind_def holdingsleep_eq)
qed

lemma iderw_write:
  assumes "SleepLk (BufLk b) \<notin> set (held s)" "curproc s = Some p"
    and "block (bufs s ! b) = sl_by (pid (ptable s ! p))"
    and "bflags (bufs s ! b) AND B_DIRTY \<noteq> 0"
    and "bdev (bufs s ! b) = 1" "unat (blockno (bufs s ! b)) < disksize s"
  shows "iderw b s e = Ok () (upd_buf b (\<lambda>y. y\<lparr>bflags := (bflags y AND NOT B_DIRTY) OR B_VALID\<rparr>)
     (s\<lparr>memdisk := (memdisk s)(unat (blockno (bufs s ! b)) := bdata (bufs s ! b)),
        dwrites := dwrites s @ [(unat (blockno (bufs s ! b)), bdata (bufs s ! b))]\<rparr>)) e"
proof -
  have "bflags (bufs s ! b) AND (B_VALID OR B_DIRTY) \<noteq> B_VALID"
  proof
    assume a: "bflags (bufs s ! b) AND (B_VALID OR B_DIRTY) = B_VALID"
    have "bflags (bufs s ! b) AND B_DIRTY = (bflags (bufs s ! b) AND (B_VALID OR B_DIRTY)) AND B_DIRTY"
      by (simp add: and.assoc B_VALID_def B_DIRTY_def)
    then show False using a assms(4) by (simp add: B_VALID_def B_DIRTY_def)
  qed
  then show ?thesis
    using assms by (simp add: iderw_def kbind_def holdingsleep_eq)
qed

lemma brelse_eq:
  assumes "held s = []" "curproc s = Some p" "b < length (bufs s)"
    and "block (bufs s ! b) = sl_by (pid (ptable s ! p))"
  shows "brelse b s e = Ok () (wakes (ChSleep (BufLk b))
     (let s1 = upd_buf b (\<lambda>x. x\<lparr>block := \<lparr>slocked = 0, slpid = 0\<rparr>, refcnt := refcnt x - 1\<rparr>) s in
      if refcnt (bufs s ! b) = 1 then s1\<lparr>bufs := push_front b (unlink_buf b (bufs s1))\<rparr> else s1)) e"
  using assms
  by (auto simp: brelse_def kbind_def kseq_def holdingsleep_eq releasesleep_eq lk_acquire_apply
      lk_release_apply wakes_def upd_buf_def Let_def upd_nth_def)

text \<open>What a buffer for the given block would hold: the cached copy, or the disk's.\<close>

definition blk_data :: "kernel \<Rightarrow> uint32 \<Rightarrow> uchar list" where
  "blk_data s blk = (case find_cached 1 blk (bufs s) of
     Some b \<Rightarrow> if bflags (bufs s ! b) AND B_VALID \<noteq> 0 then bdata (bufs s ! b)
               else memdisk s (unat blk)
   | None \<Rightarrow> memdisk s (unat blk))"

lemma find_cached_SomeD:
  assumes "bc_inv bs" "find_cached dev blk bs = Some b"
  shows "b < NBUF \<and> bdev (bs ! b) = dev \<and> blockno (bs ! b) = blk"
proof -
  obtain xs where lru: "lru bs xs" and all: "set xs = {..<NBUF}" using assms(1) by (auto simp: bc_inv_def)
  show ?thesis using assms(2) all unfolding find_cached_lru [OF lru] find_Some_iff by force
qed

lemma find_unused_SomeD:
  assumes "bc_inv bs" "find_unused bs = Some b"
  shows "b < NBUF \<and> refcnt (bs ! b) = 0 \<and> bflags (bs ! b) AND B_DIRTY = 0"
proof -
  obtain xs where lru: "lru bs xs" and all: "set xs = {..<NBUF}" using assms(1) by (auto simp: bc_inv_def)
  have "b \<in> set (rev xs)" "refcnt (bs ! b) = 0 \<and> bflags (bs ! b) AND B_DIRTY = 0"
    using assms(2) unfolding find_unused_lru [OF lru] find_Some_iff by (metis nth_mem)+
  then show ?thesis using all by auto
qed

lemma bc_inv_length: "bc_inv bs \<Longrightarrow> length bs = Suc NBUF"
  by (auto simp: bc_inv_def lru_def)

text \<open>
  The cache when no process is inside it: nobody holds a buffer, and a buffer whose contents are
  not valid is not dirty.
\<close>

definition bc_idle :: "buf list \<Rightarrow> bool" where
  "bc_idle bs \<longleftrightarrow> bc_inv bs \<and> (\<forall>i < NBUF. block (bs ! i) = \<lparr>slocked = 0, slpid = 0\<rparr> \<and>
     (bflags (bs ! i) AND B_VALID = 0 \<longrightarrow> bflags (bs ! i) AND B_DIRTY = 0))"

text \<open>Reading a block, at the level of the table of buffers.\<close>

lemma upd_buf_cong: "f (bufs s ! b) = g (bufs s ! b) \<Longrightarrow> upd_buf b f s = upd_buf b g s"
  by (simp add: upd_buf_def upd_nth_def)

lemma bread_hit_valid:
  assumes "held s = []" "curproc s = Some p" "find_cached 1 blk (bufs s) = Some b"
    and "b < length (bufs s)" "slocked (block (bufs s ! b)) = 0" "bflags (bufs s ! b) AND B_VALID \<noteq> 0"
  shows "bread 1 blk s e = Ok b (upd_buf b (\<lambda>x. x\<lparr>refcnt := refcnt x + 1,
      block := (block x)\<lparr>slocked := 1, slpid := pid (ptable s ! p)\<rparr>\<rparr>) s) e"
  using assms by (simp add: bread_def kbind_def kseq_def bget_hit [OF assms(1-5)])

lemma bread_hit_invalid:
  assumes "held s = []" "curproc s = Some p" "find_cached 1 blk (bufs s) = Some b" "bc_inv (bufs s)"
    and "bflags (bufs s ! b) AND B_VALID = 0" "unat blk < disksize s"
    and "block (bufs s ! b) = \<lparr>slocked = 0, slpid = 0\<rparr>" "bflags (bufs s ! b) AND B_DIRTY = 0"
  shows "bread 1 blk s e = Ok b (upd_buf b (\<lambda>x. x\<lparr>refcnt := refcnt x + 1,
      block := sl_by (pid (ptable s ! p)), bdata := memdisk s (unat blk),
      bflags := bflags x OR B_VALID\<rparr>) s) e"
proof -
  have b: "b < NBUF" "bdev (bufs s ! b) = 1" "blockno (bufs s ! b) = blk" "b < length (bufs s)"
    using find_cached_SomeD [OF assms(4,3)] bc_inv_length [OF assms(4)] by simp_all
  let ?s = "upd_buf b (\<lambda>x. x\<lparr>refcnt := refcnt x + 1,
      block := (block x)\<lparr>slocked := 1, slpid := pid (ptable s ! p)\<rparr>\<rparr>) s"
  have "bget 1 blk s e = Ok b ?s e"
    using assms(7) b by (intro bget_hit [OF assms(1-3)]) simp_all
  moreover have "iderw b ?s e = Ok () (upd_buf b (\<lambda>y. y\<lparr>bdata := memdisk ?s (unat (blockno y)),
     bflags := bflags y OR B_VALID\<rparr>) ?s) e"
    using assms b by (intro iderw_read) auto
  ultimately have "bread 1 blk s e = Ok b (upd_buf b (\<lambda>y. y\<lparr>bdata := memdisk ?s (unat (blockno y)),
     bflags := bflags y OR B_VALID\<rparr>) ?s) e"
    using assms(5) b by (simp add: bread_def kbind_def kseq_def)
  then show ?thesis
    unfolding upd_buf_upd_buf using assms(7) b by (simp, intro upd_buf_cong) simp
qed

lemma bread_miss:
  assumes "held s = []" "curproc s = Some p" "find_cached 1 blk (bufs s) = None" "bc_inv (bufs s)"
    and "find_unused (bufs s) = Some b" "unat blk < disksize s"
    and "block (bufs s ! b) = \<lparr>slocked = 0, slpid = 0\<rparr>"
  shows "bread 1 blk s e = Ok b (upd_buf b (\<lambda>x. x\<lparr>bdev := 1, blockno := blk,
      bflags := B_VALID, refcnt := 1, block := sl_by (pid (ptable s ! p)),
      bdata := memdisk s (unat blk)\<rparr>) s) e"
proof -
  have b: "b < NBUF" "b < length (bufs s)"
    using find_unused_SomeD [OF assms(4,5)] bc_inv_length [OF assms(4)] by simp_all
  let ?s = "upd_buf b (\<lambda>x. x\<lparr>bdev := 1, blockno := blk, bflags := 0,
      refcnt := 1, block := (block x)\<lparr>slocked := 1, slpid := pid (ptable s ! p)\<rparr>\<rparr>) s"
  have "bget 1 blk s e = Ok b ?s e"
    using assms(7) b by (intro bget_miss [OF assms(1-3,5)]) simp_all
  moreover have "iderw b ?s e = Ok () (upd_buf b (\<lambda>y. y\<lparr>bdata := memdisk ?s (unat (blockno y)),
     bflags := bflags y OR B_VALID\<rparr>) ?s) e"
    using assms b by (intro iderw_read) auto
  ultimately have "bread 1 blk s e = Ok b (upd_buf b (\<lambda>y. y\<lparr>bdata := memdisk ?s (unat (blockno y)),
     bflags := bflags y OR B_VALID\<rparr>) ?s) e"
    using assms(3) b by (simp add: bread_def kbind_def kseq_def)
  then show ?thesis
    unfolding upd_buf_upd_buf using assms(7) b by (simp, intro upd_buf_cong) simp
qed

lemma binit_loop:
  assumes "lru (bufs s) xs" "distinct ns" "set ns \<inter> set xs = {}" "set ns \<subseteq> {..<NBUF}"
  shows "\<exists>bs. kfor (\<lambda>b. kseq (initsleeplock (BufLk b)) (kmod (\<lambda>s. s\<lparr>bufs := push_front b (bufs s)\<rparr>))) ns s e =
      Ok () (s\<lparr>bufs := bs\<rparr>) e \<and> lru bs (rev ns @ xs) \<and>
    (\<forall>i. i < NBUF \<longrightarrow> buf_core (bs ! i) = buf_core ((bufs s ! i)\<lparr>block :=
       if i \<in> set ns then \<lparr>slocked = 0, slpid = 0\<rparr> else block (bufs s ! i)\<rparr>))"
  using assms
proof (induction ns arbitrary: s xs)
  case Nil
  have "s\<lparr>bufs := bufs s\<rparr> = s" by simp
  with Nil show ?case by (intro exI [of _ "bufs s"]) simp
next
  case (Cons n ns)
  let ?f = "\<lambda>x. x\<lparr>block := \<lparr>slocked = 0, slpid = 0\<rparr>\<rparr>"
  let ?bs = "push_front n (upd_nth n ?f (bufs s))"
  have f: "(\<lambda>x. x\<lparr>block := (block x)\<lparr>slocked := 0, slpid := 0\<rparr>\<rparr>) = ?f" by (rule ext) simp
  have n: "n < NBUF" "n \<notin> set xs" "n < length (bufs s)" using Cons.prems by (auto simp: lru_def)
  have l: "lru ?bs (n # xs)"
    using Cons.prems(1) n by (intro push_front_lru) (simp_all add: lru_upd)
  have core: "buf_core (?bs ! i) = buf_core (if i = n then ?f (bufs s ! i) else bufs s ! i)"
    if "i < NBUF" for i
    using core_nth [of ?bs "upd_nth n ?f (bufs s)" i] that n Cons.prems(1)
    by (cases "i = n") (simp_all add: lru_def)
  let ?t = "s\<lparr>bufs := ?bs\<rparr>"
  have "lru (bufs ?t) (n # xs)" "distinct ns" "set ns \<inter> set (n # xs) = {}" "set ns \<subseteq> {..<NBUF}"
    using l Cons.prems by auto
  from Cons.IH [OF this] obtain bs where bs:
    "kfor (\<lambda>b. kseq (initsleeplock (BufLk b)) (kmod (\<lambda>s. s\<lparr>bufs := push_front b (bufs s)\<rparr>))) ns ?t e =
       Ok () (?t\<lparr>bufs := bs\<rparr>) e"
    "lru bs (rev ns @ n # xs)"
    "\<And>i. i < NBUF \<Longrightarrow> buf_core (bs ! i) = buf_core ((bufs ?t ! i)\<lparr>block :=
       if i \<in> set ns then \<lparr>slocked = 0, slpid = 0\<rparr> else block (bufs ?t ! i)\<rparr>)"
    by blast
  have "buf_core (bs ! i) = buf_core ((bufs s ! i)\<lparr>block :=
       if i \<in> set (n # ns) then \<lparr>slocked = 0, slpid = 0\<rparr> else block (bufs s ! i)\<rparr>)" if "i < NBUF" for i
    using bs(3) [OF that] core [OF that] by (auto simp: buf_core_def)
  then show ?case
    using bs(1,2) by (intro exI [of _ bs]) (simp add: initsleeplock_def kseq_def kbind_def upd_buf_def f)
qed

text \<open>A table of buffers as the loader leaves it, and as \<^verbatim>\<open>binit\<close> leaves it.\<close>

lemma binit_idle:
  assumes "length (bufs s) = Suc NBUF" "\<And>i. i < NBUF \<Longrightarrow> bdev (bufs s ! i) = 0 \<and> bflags (bufs s ! i) = 0"
  shows "\<exists>bs. binit s e = Ok () (s\<lparr>bufs := bs\<rparr>) e \<and> bc_idle bs \<and> lru bs (rev [0..<NBUF]) \<and>
    (\<forall>i. i < NBUF \<longrightarrow> buf_core (bs ! i) = buf_core ((bufs s ! i)\<lparr>block := \<lparr>slocked = 0, slpid = 0\<rparr>\<rparr>))"
proof -
  let ?h = "set_next NBUF NBUF (set_prev NBUF NBUF (bufs s))"
  have "lru ?h []" using assms(1) by (simp add: lru_def nth_set_next nth_set_prev)
  then obtain bs where bs: "binit s e = Ok () (s\<lparr>bufs := ?h\<rparr>\<lparr>bufs := bs\<rparr>) e" "lru bs (rev [0..<NBUF])"
    "\<And>i. i < NBUF \<Longrightarrow> buf_core (bs ! i) = buf_core ((?h ! i)\<lparr>block := \<lparr>slocked = 0, slpid = 0\<rparr>\<rparr>)"
    using binit_loop [of "s\<lparr>bufs := ?h\<rparr>" "[]" "[0..<NBUF]" e]
    by (auto simp: binit_def kseq_def kbind_def atLeast0LessThan)
  have core: "buf_core (bs ! i) = buf_core ((bufs s ! i)\<lparr>block := \<lparr>slocked = 0, slpid = 0\<rparr>\<rparr>)" if "i < NBUF" for i
    using bs(3) [OF that] core_nth [of ?h "bufs s" i] that assms(1) by (auto simp: buf_core_def)
  then have "block (bs ! i) = \<lparr>slocked = 0, slpid = 0\<rparr> \<and> bdev (bs ! i) = 0 \<and> bflags (bs ! i) = 0"
    if "i < NBUF" for i
    using assms(2) that by (auto simp: buf_core_def)
  then have "bc_idle bs"
    using bs(2) by (auto simp: bc_idle_def bc_inv_def one_copy_def intro!: exI [of _ "rev [0..<NBUF]"])
  then show ?thesis using bs core by auto
qed

section \<open>Properties\<close>

text \<open>
  C25. \<^verbatim>\<open>bread\<close> returns a buffer for the requested block, locked by the caller, whose data are
  the cached copy if there is a valid one and the disk's contents otherwise; it never creates a
  second copy of a block, and it does not change the disk.
\<close>

theorem bread_returns_block:
  assumes "held s = []" "curproc s = Some p" "bc_idle (bufs s)" "unat blk < disksize s"
    and "find_cached 1 blk (bufs s) \<noteq> None \<or> find_unused (bufs s) \<noteq> None"
  shows "\<exists>b s'. bread 1 blk s e = Ok b s' e \<and> b < NBUF \<and> bc_inv (bufs s') \<and>
    bdev (bufs s' ! b) = 1 \<and> blockno (bufs s' ! b) = blk \<and> bdata (bufs s' ! b) = blk_data s blk \<and>
    bflags (bufs s' ! b) AND B_VALID \<noteq> 0 \<and>
    block (bufs s' ! b) = sl_by (pid (ptable s ! p)) \<and> memdisk s' = memdisk s"
proof -
  have inv: "bc_inv (bufs s)" using assms(3) by (simp add: bc_idle_def)
  have len: "length (bufs s) = Suc NBUF" using inv by (rule bc_inv_length)
  have V: "(x OR B_VALID) AND B_VALID \<noteq> 0" for x :: uint32
  proof -
    have "bit ((x OR B_VALID) AND B_VALID) 1" by (simp add: B_VALID_def bit_simps bit_numeral_rec)
    then show ?thesis by force
  qed
  show ?thesis
  proof (cases "find_cached 1 blk (bufs s)")
    case None
    then obtain b where b: "find_unused (bufs s) = Some b" using assms(5) by auto
    have lt: "b < NBUF" using find_unused_SomeD [OF inv b] by simp
    show ?thesis
      using bread_miss [OF assms(1,2) None inv b assms(4), of e] lt len None assms(3)
        bc_inv_recycle [OF inv None lt]
      by (auto simp: blk_data_def B_VALID_def bc_idle_def)
  next
    case (Some b)
    note fd = find_cached_SomeD [OF inv Some]
    show ?thesis
    proof (cases "bflags (bufs s ! b) AND B_VALID = 0")
      case True
      show ?thesis
        using bread_hit_invalid [OF assms(1,2) Some inv True assms(4), of e] fd len Some True V
          bc_inv_upd [OF inv] assms(3)
        by (auto simp: blk_data_def bc_idle_def)
    next
      case False
      have "slocked (block (bufs s ! b)) = 0" using assms(3) fd by (simp add: bc_idle_def)
      then show ?thesis
        using bread_hit_valid [OF assms(1,2) Some _ _ False, of e] fd len Some False
          bc_inv_upd [OF inv] assms(3)
        by (auto simp: blk_data_def bc_idle_def)
    qed
  qed
qed

text \<open>
  C27. \<^verbatim>\<open>brelse\<close> by the holder of a buffer with one reference moves it to the front of the list of
  recently used buffers and keeps the order of the others.
\<close>

theorem brelse_moves_to_front:
  assumes "held s = []" "curproc s = Some p" "block (bufs s ! b) = sl_by (pid (ptable s ! p))"
    and "lru (bufs s) (ys @ b # zs)" "refcnt (bufs s ! b) = 1"
  shows "\<exists>s'. brelse b s e = Ok () s' e \<and> lru (bufs s') (b # ys @ zs) \<and>
    slocked (block (bufs s' ! b)) = 0 \<and> refcnt (bufs s' ! b) = 0"
proof -
  let ?f = "\<lambda>x. x\<lparr>block := \<lparr>slocked = 0, slpid = 0\<rparr>, refcnt := refcnt x - 1\<rparr>"
  let ?bs = "upd_nth b ?f (bufs s)"
  have b: "b < NBUF" "b < length (bufs s)" "b \<notin> set (ys @ zs)"
    using assms(4) by (auto simp: lru_def)
  have "lru ?bs (ys @ b # zs)" using assms(4) by (simp add: lru_upd)
  then have "lru (push_front b (unlink_buf b ?bs)) (b # ys @ zs)"
    using push_front_lru unlink_lru b by blast
  moreover have "buf_core (push_front b (unlink_buf b ?bs) ! b) = buf_core (?bs ! b)"
    by (rule core_nth) (use b in simp_all)
  then have "block (push_front b (unlink_buf b ?bs) ! b) = \<lparr>slocked = 0, slpid = 0\<rparr>"
      "refcnt (push_front b (unlink_buf b ?bs) ! b) = 0"
    using b assms(5) by (auto dest: buf_core_eqD)
  ultimately show ?thesis
    using brelse_eq [OF assms(1,2) b(2) assms(3), of e] assms(5)
    by (simp add: Let_def wakes_def upd_buf_def)
qed

lemma sample_bufs:
  shows sample_bufs_length: "length (bufs (sample h)) = Suc NBUF"
    and sample_bufs_fresh: "\<And>i. i < NBUF \<Longrightarrow> bdev (bufs (sample h) ! i) = 0 \<and>
      bflags (bufs (sample h) ! i) = 0 \<and> refcnt (bufs (sample h) ! i) = 0"
  by (simp_all add: sample_def boot_def buf0_def nth_Cons split: nat.splits)

theorem brelse_moves_to_front_witness:
  "\<exists>s s'. curproc s = Some 0 \<and> lru (bufs s) (rev [1..<NBUF] @ [0]) \<and>
    brelse 0 s [] = Ok () s' [] \<and> lru (bufs s') (0 # rev [1..<NBUF])"
proof -
  let ?f = "\<lambda>x. x\<lparr>block := sl_by 1, refcnt := 1\<rparr>"
  obtain bs where bs: "lru bs (rev [0..<NBUF])"
    using binit_idle [OF sample_bufs_length] sample_bufs_fresh by blast
  have "rev [0..<NBUF] = rev [1..<NBUF] @ 0 # []"
    by (simp add: NBUF_def MAXOPBLOCKS_def upt_conv_Cons)
  then have l: "lru bs (rev [1..<NBUF] @ 0 # [])" using bs by metis
  let ?s = "(sample [])\<lparr>bufs := upd_nth 0 ?f bs\<rparr>"
  have len: "0 < length bs" using bs by (simp add: lru_def)
  have lru: "lru (bufs ?s) (rev [1..<NBUF] @ 0 # [])" using l by (simp add: lru_upd)
  have "block (bufs ?s ! 0) = sl_by (pid (ptable ?s ! 0))" "refcnt (bufs ?s ! 0) = 1"
    using len by (simp_all add: sample_defs)
  then show ?thesis
    using brelse_moves_to_front [OF _ _ _ lru, of 0 "[]"] lru by - (rule exI [of _ ?s], auto)
qed

text \<open>
  C26. \<^verbatim>\<open>binit\<close> establishes the invariant: all buffers are on the list, in reverse order of the
  table, unlocked, and no two are for the same block.
\<close>

theorem binit_establishes_invariant:
  assumes "length (bufs s) = Suc NBUF" "\<And>i. i < NBUF \<Longrightarrow> bdev (bufs s ! i) = 0 \<and> bflags (bufs s ! i) = 0"
  shows "\<exists>s'. binit s e = Ok () s' e \<and> bc_idle (bufs s') \<and> lru (bufs s') (rev [0..<NBUF])"
  using binit_idle [OF assms, of e] by auto

theorem binit_establishes_invariant_witness:
  "\<exists>s'. binit (sample []) [] = Ok () s' [] \<and> bc_idle (bufs s')"
  using binit_establishes_invariant [OF sample_bufs_length] sample_bufs_fresh by blast

theorem bread_returns_block_witness:
  "\<exists>s b s'. bread 1 5 s [] = Ok b s' [] \<and> bdata (bufs s' ! b) = replicate 512 7 \<and>
    blockno (bufs s' ! b) = 5"
proof -
  let ?s = "(sample [])\<lparr>memdisk := (\<lambda>_. replicate 512 7), disksize := 10\<rparr>"
  have "length (bufs ?s) = Suc NBUF"
    and z: "\<And>i. i < NBUF \<Longrightarrow> bdev (bufs ?s ! i) = 0 \<and> bflags (bufs ?s ! i) = 0 \<and> refcnt (bufs ?s ! i) = 0"
    using sample_bufs_length sample_bufs_fresh by simp_all
  from binit_idle [OF this(1)] obtain bs where bs: "bc_idle bs" "lru bs (rev [0..<NBUF])"
    "\<And>i. i < NBUF \<Longrightarrow> buf_core (bs ! i) = buf_core ((bufs ?s ! i)\<lparr>block := \<lparr>slocked = 0, slpid = 0\<rparr>\<rparr>)"
    using z by blast
  have b: "bdev (bs ! i) = 0 \<and> bflags (bs ! i) = 0 \<and> refcnt (bs ! i) = 0" if "i < NBUF" for i
    using bs(3) [OF that] z [OF that] by (auto simp: buf_core_def)
  have none: "find_cached 1 5 bs = None"
    unfolding find_cached_lru [OF bs(2)] find_None_iff using b by auto
  have "0 < NBUF" by (simp add: NBUF_def MAXOPBLOCKS_def)
  then have some: "find_unused bs \<noteq> None"
    unfolding find_unused_lru [OF bs(2)] find_None_iff using b [of 0] by force
  let ?t = "?s\<lparr>bufs := bs\<rparr>"
  have "blk_data ?t 5 = replicate 512 7" using none by (simp add: blk_data_def)
  then show ?thesis
    using bread_returns_block [of ?t 0 5 "[]"] bs(1) some by - (rule exI [of _ ?t], auto)
qed

end
