(* ===== verification/Layout.thy ===== *)
theory Layout
  imports Machine
begin

text \<open>
  Little-endian integers inside a block of bytes: how the C code sees a buffer's \<^verbatim>\<open>data\<close> when it
  casts the pointer to an array of integers or to a structure. A block is a list of bytes.
\<close>

definition get16 :: "uchar list \<Rightarrow> nat \<Rightarrow> ushort" where
  "get16 bs i = ucast (bs ! i) OR push_bit 8 (ucast (bs ! (i + 1)))"

definition put16 :: "uchar list \<Rightarrow> nat \<Rightarrow> ushort \<Rightarrow> uchar list" where
  "put16 bs i v = bs[i := ucast v, i + 1 := ucast (drop_bit 8 v)]"

definition get32 :: "uchar list \<Rightarrow> nat \<Rightarrow> uint32" where
  "get32 bs i = ucast (bs ! i) OR push_bit 8 (ucast (bs ! (i + 1))) OR
     push_bit 16 (ucast (bs ! (i + 2))) OR push_bit 24 (ucast (bs ! (i + 3)))"

definition put32 :: "uchar list \<Rightarrow> nat \<Rightarrow> uint32 \<Rightarrow> uchar list" where
  "put32 bs i v = bs[i := ucast v, i + 1 := ucast (drop_bit 8 v), i + 2 := ucast (drop_bit 16 v),
     i + 3 := ucast (drop_bit 24 v)]"

text \<open>An array of integers from offset \<open>i\<close> on.\<close>

definition get32s :: "uchar list \<Rightarrow> nat \<Rightarrow> nat \<Rightarrow> uint32 list" where
  "get32s bs i n = map (\<lambda>k. get32 bs (i + 4 * k)) [0..<n]"

primrec put32s :: "uchar list \<Rightarrow> nat \<Rightarrow> uint32 list \<Rightarrow> uchar list" where
  "put32s bs i [] = bs"
| "put32s bs i (v # vs) = put32s (put32 bs i v) (i + 4) vs"

lemma length_put [simp]:
  "length (put16 bs i w) = length bs" "length (put32 bs i v) = length bs"
  by (simp_all add: put16_def put32_def)

lemma length_put32s [simp]: "length (put32s bs i vs) = length bs"
  by (induction vs arbitrary: bs i) simp_all

lemma get16_put16 [simp]: "i + 1 < length bs \<Longrightarrow> get16 (put16 bs i v) i = v"
  by (rule bit_word_eqI) (auto simp: get16_def put16_def bit_simps)

lemma get32_put32 [simp]:
  assumes "i + 3 < length bs"
  shows "get32 (put32 bs i v) i = v"
proof (rule bit_word_eqI)
  fix n assume "n < LENGTH(32)"
  then consider "n < 8" | "8 \<le> n" "n < 16" | "16 \<le> n" "n < 24" | "24 \<le> n" "n < 32" by force
  then show "bit (get32 (put32 bs i v) i) n = bit v n"
    using assms by cases (auto simp: get32_def put32_def bit_simps less_diff_conv2)
qed

lemma nth_put32:
  "j < i \<or> i + 3 < j \<Longrightarrow> put32 bs i v ! j = bs ! j"
  "j < i \<or> i + 1 < j \<Longrightarrow> put16 bs i w ! j = bs ! j"
  by (auto simp: put32_def put16_def)

text \<open>Reading one integer is independent of writing another one that does not overlap it.\<close>

lemma get_put_other:
  "i + 4 \<le> j \<or> j + 4 \<le> i \<Longrightarrow> get32 (put32 bs i v) j = get32 bs j"
  "i + 2 \<le> j \<or> j + 2 \<le> i \<Longrightarrow> get16 (put16 bs i w) j = get16 bs j"
  "i + 4 \<le> j \<or> j + 2 \<le> i \<Longrightarrow> get16 (put32 bs i v) j = get16 bs j"
  "i + 2 \<le> j \<or> j + 4 \<le> i \<Longrightarrow> get32 (put16 bs i w) j = get32 bs j"
  by (elim disjE; simp add: get32_def get16_def nth_put32)+

lemma get_put32s_other:
  "i + 4 * length vs \<le> j \<or> j + 4 \<le> i \<Longrightarrow> get32 (put32s bs i vs) j = get32 bs j"
  "i + 4 * length vs \<le> j \<or> j + 2 \<le> i \<Longrightarrow> get16 (put32s bs i vs) j = get16 bs j"
  by (induction vs arbitrary: bs i) (auto simp: get_put_other)

lemma get32_put32s:
  "i + 4 * length vs \<le> length bs \<Longrightarrow> k < length vs \<Longrightarrow> get32 (put32s bs i vs) (i + 4 * k) = vs ! k"
proof (induction vs arbitrary: bs i k)
  case (Cons v vs)
  show ?case
  proof (cases k)
    case 0
    then show ?thesis using Cons.prems by (simp add: get_put32s_other)
  next
    case (Suc m)
    then show ?thesis using Cons.prems Cons.IH [of "i + 4" "put32 bs i v" m] by (simp add: ac_simps)
  qed
qed simp

lemma get32s_put32s [simp]:
  "i + 4 * length vs \<le> length bs \<Longrightarrow> n = length vs \<Longrightarrow> get32s (put32s bs i vs) i n = vs"
  by (auto simp: get32s_def get32_put32s intro!: nth_equalityI)

lemma length_get32s [simp]: "length (get32s bs i n) = n"
  by (simp add: get32s_def)

lemma nth_get32s [simp]: "k < n \<Longrightarrow> get32s bs i n ! k = get32 bs (i + 4 * k)"
  by (simp add: get32s_def)

text \<open>Copying bytes into the middle of a block.\<close>

definition put_bytes :: "uchar list \<Rightarrow> nat \<Rightarrow> uchar list \<Rightarrow> uchar list" where
  "put_bytes bs i xs = take i bs @ xs @ drop (i + length xs) bs"

lemma length_put_bytes [simp]: "i + length xs \<le> length bs \<Longrightarrow> length (put_bytes bs i xs) = length bs"
  by (simp add: put_bytes_def)

lemma nth_put_bytes:
  "i + length xs \<le> length bs \<Longrightarrow> j < length bs \<Longrightarrow> put_bytes bs i xs ! j =
     (if i \<le> j \<and> j < i + length xs then xs ! (j - i) else bs ! j)"
  by (auto simp: put_bytes_def nth_append min_def)

lemma take_drop_put_bytes:
  "i + length xs \<le> length bs \<Longrightarrow> take (length xs) (drop i (put_bytes bs i xs)) = xs"
  by (simp add: put_bytes_def)

end
