(* ===== verification/Blockstore.thy ===== *)
theory Blockstore
  imports Bio Layout
begin

text \<open>
  The contract of the buffer cache, for a process that is alone in it: a store of blocks that are
  read into handles, changed, written and released. The locale \<open>block_store\<close> states the laws, its
  lemmas are the idioms the log and the file system are made of (read a block, change it, release
  it; copy one block to another), and the interpretation \<open>bcache\<close> shows that the operations of
  \<^verbatim>\<open>bio.c\<close> satisfy the laws.
\<close>

section \<open>The abstract store\<close>

text \<open>
  \<open>vheld\<close>: the handles in use and their blocks. \<open>vdata\<close>: the current contents of every block.
  \<open>vdirty\<close>: the blocks pinned in the cache. \<open>vdisk\<close>, \<open>vwrites\<close>: the disk and what was written to it.
\<close>

record bview =
  vheld :: "nat \<Rightarrow> uint32 option"
  vdata :: "uint32 \<Rightarrow> uchar list"
  vdirty :: "uint32 set"
  vdisk :: "nat \<Rightarrow> uchar list"
  vwrites :: "(nat \<times> uchar list) list"
  vsize :: nat

definition vroom :: "bview \<Rightarrow> bool" where
  "vroom v \<longleftrightarrow> card (ran (vheld v) \<union> vdirty v) < NBUF"

text \<open>The block's current contents are on the disk, or the block is pinned.\<close>

definition vclean :: "bview \<Rightarrow> uint32 \<Rightarrow> bool" where
  "vclean v blk \<longleftrightarrow> blk \<in> vdirty v \<or> vdisk v (unat blk) = vdata v blk"

definition v_write :: "uint32 \<Rightarrow> bview \<Rightarrow> bview" where
  "v_write blk v = v\<lparr>vdisk := (vdisk v)(unat blk := vdata v blk),
     vwrites := vwrites v @ [(unat blk, vdata v blk)], vdirty := vdirty v - {blk}\<rparr>"

definition v_set :: "uint32 \<Rightarrow> uchar list \<Rightarrow> bview \<Rightarrow> bview" where
  "v_set blk x v = v\<lparr>vdata := (vdata v)(blk := x)\<rparr>"

locale block_store =
  fixes inv :: "'s \<Rightarrow> bool" and view :: "'s \<Rightarrow> bview" and frame :: "'s \<Rightarrow> 's \<Rightarrow> bool"
    and data :: "'s \<Rightarrow> nat \<Rightarrow> uchar list"
    and rd :: "uint32 \<Rightarrow> ('s, nat) kprog" and edit :: "nat \<Rightarrow> uchar list \<Rightarrow> ('s, unit) kprog"
    and wr :: "nat \<Rightarrow> ('s, unit) kprog" and rel :: "nat \<Rightarrow> ('s, unit) kprog"
  assumes frame_refl: "frame s s"
    and frame_trans: "frame s t \<Longrightarrow> frame t u \<Longrightarrow> frame s u"
    and data_law: "inv s \<Longrightarrow> vheld (view s) b = Some blk \<Longrightarrow> data s b = vdata (view s) blk"
    and length_law: "inv s \<Longrightarrow> length (vdata (view s) blk) = BSIZE"
    and rd_law: "inv s \<Longrightarrow> unat blk < vsize (view s) \<Longrightarrow> blk \<notin> ran (vheld (view s)) \<Longrightarrow>
      vroom (view s) \<or> blk \<in> vdirty (view s) \<Longrightarrow>
      \<exists>b s'. rd blk s e = Ok b s' e \<and> inv s' \<and> frame s s' \<and> vheld (view s) b = None \<and>
        view s' = (view s)\<lparr>vheld := (vheld (view s))(b := Some blk)\<rparr>"
    and edit_law: "inv s \<Longrightarrow> vheld (view s) b = Some blk \<Longrightarrow> length x = BSIZE \<Longrightarrow>
      \<exists>s'. edit b x s e = Ok () s' e \<and> inv s' \<and> frame s s' \<and> view s' = v_set blk x (view s)"
    and wr_law: "inv s \<Longrightarrow> vheld (view s) b = Some blk \<Longrightarrow>
      \<exists>s'. wr b s e = Ok () s' e \<and> inv s' \<and> frame s s' \<and> view s' = v_write blk (view s)"
    and rel_law: "inv s \<Longrightarrow> vheld (view s) b = Some blk \<Longrightarrow> vclean (view s) blk \<Longrightarrow>
      \<exists>s'. rel b s e = Ok () s' e \<and> inv s' \<and> frame s s' \<and>
        view s' = (view s)\<lparr>vheld := (vheld (view s))(b := None)\<rparr>"
begin

lemma vheld_restore: "vheld v b = None \<Longrightarrow> (vheld v)(b := None) = vheld v"
  by (rule ext) simp

text \<open>Reading a block and releasing it changes nothing and returns the contents.\<close>

lemma peek:
  assumes "inv s" "unat blk < vsize (view s)" "blk \<notin> ran (vheld (view s))" "vclean (view s) blk"
    and "vroom (view s) \<or> blk \<in> vdirty (view s)"
  shows "\<exists>s'. kbind (rd blk) (\<lambda>b. kbind (kget (\<lambda>s. f (data s b))) (\<lambda>x. kseq (rel b) (kret x))) s e =
      Ok (f (vdata (view s) blk)) s' e \<and> inv s' \<and> frame s s' \<and> view s' = view s"
proof -
  obtain b s1 where 1: "rd blk s e = Ok b s1 e" "inv s1" "frame s s1" "vheld (view s) b = None"
    "view s1 = (view s)\<lparr>vheld := (vheld (view s))(b := Some blk)\<rparr>"
    using rd_law [OF assms(1,2,3,5)] by blast
  have h1: "vheld (view s1) b = Some blk" "vclean (view s1) blk"
    using 1(5) assms(4) by (simp_all add: vclean_def)
  have d: "data s1 b = vdata (view s) blk" using data_law [OF 1(2) h1(1)] 1(5) by simp
  obtain s2 where 2: "rel b s1 e = Ok () s2 e" "inv s2" "frame s1 s2"
    "view s2 = (view s1)\<lparr>vheld := (vheld (view s1))(b := None)\<rparr>"
    using rel_law [OF 1(2) h1] by blast
  have "view s2 = view s" using 1(4,5) 2(4) by (simp add: vheld_restore)
  then show ?thesis using 1(1) 2 d frame_trans [OF 1(3) 2(3)] by simp
qed

text \<open>
  Reading a block, replacing its contents and writing it to the disk; the handle is released.
\<close>

lemma rewrite_block:
  assumes "inv s" "unat blk < vsize (view s)" "blk \<notin> ran (vheld (view s))"
    and "vroom (view s) \<or> blk \<in> vdirty (view s)"
    and "\<And>x. length x = BSIZE \<Longrightarrow> length (f x) = BSIZE"
  shows "\<exists>s'. kbind (rd blk) (\<lambda>b. kbind (kget (\<lambda>s. data s b)) (\<lambda>x.
      kseq (edit b (f x)) (kseq (wr b) (rel b)))) s e = Ok () s' e \<and> inv s' \<and> frame s s' \<and>
    view s' = v_write blk (v_set blk (f (vdata (view s) blk)) (view s))"
proof -
  obtain b s1 where 1: "rd blk s e = Ok b s1 e" "inv s1" "frame s s1" "vheld (view s) b = None"
    "view s1 = (view s)\<lparr>vheld := (vheld (view s))(b := Some blk)\<rparr>"
    using rd_law [OF assms(1-4)] by blast
  have h1: "vheld (view s1) b = Some blk" using 1(5) by simp
  have d: "data s1 b = vdata (view s) blk" using data_law [OF 1(2) h1] 1(5) by simp
  have "length (f (data s1 b)) = BSIZE" using d length_law [OF assms(1)] assms(5) by simp
  then obtain s2 where 2: "edit b (f (data s1 b)) s1 e = Ok () s2 e" "inv s2" "frame s1 s2"
    "view s2 = v_set blk (f (data s1 b)) (view s1)"
    using edit_law [OF 1(2) h1] by blast
  have h2: "vheld (view s2) b = Some blk" using 2(4) h1 by (simp add: v_set_def)
  obtain s3 where 3: "wr b s2 e = Ok () s3 e" "inv s3" "frame s2 s3" "view s3 = v_write blk (view s2)"
    using wr_law [OF 2(2) h2] by blast
  have h3: "vheld (view s3) b = Some blk" "vclean (view s3) blk"
    using 3(4) h2 by (simp_all add: v_write_def vclean_def)
  obtain s4 where 4: "rel b s3 e = Ok () s4 e" "inv s4" "frame s3 s4"
    "view s4 = (view s3)\<lparr>vheld := (vheld (view s3))(b := None)\<rparr>"
    using rel_law [OF 3(2) h3] by blast
  have "view s4 = v_write blk (v_set blk (f (vdata (view s) blk)) (view s))"
    using 1(4,5) 2(4) 3(4) 4(4) d by (simp add: v_write_def v_set_def vheld_restore)
  moreover have "frame s s4" using 1(3) 2(3) 3(3) 4(3) frame_trans by blast
  ultimately show ?thesis using 1(1) 2(1) 3(1) 4(1,2) by simp
qed

text \<open>Reading two blocks, and the rest of a copy of \<open>src\<close> to \<open>dst\<close> once both are read.\<close>

lemma read_two:
  assumes "inv s" "unat k1 < vsize (view s)" "unat k2 < vsize (view s)" "k1 \<noteq> k2"
    and "vheld (view s) = Map.empty" "finite (vdirty (view s))"
    and "card (insert k1 (insert k2 (vdirty (view s)))) \<le> NBUF"
  shows "\<exists>b t c u. rd k1 s e = Ok b t e \<and> rd k2 t e = Ok c u e \<and> inv u \<and> frame s u \<and> b \<noteq> c \<and>
      view u = (view s)\<lparr>vheld := [b \<mapsto> k1, c \<mapsto> k2]\<rparr>"
proof -
  have room: "card (insert k1 (vdirty (view s))) < NBUF \<or> k2 \<in> vdirty (view s)"
    "card (vdirty (view s)) < NBUF \<or> k1 \<in> vdirty (view s)"
    using assms(4,6,7) by (auto simp: card_insert_if split: if_splits)
  obtain b t where 1: "rd k1 s e = Ok b t e" "inv t" "frame s t"
    "view t = (view s)\<lparr>vheld := [b \<mapsto> k1]\<rparr>"
    using rd_law [OF assms(1,2), where e = e] assms(5) room(2) by (auto simp: vroom_def)
  have "vroom (view t) \<or> k2 \<in> vdirty (view t)"
    using room(1) 1(4) by (auto simp: vroom_def)
  then obtain c u where 2: "rd k2 t e = Ok c u e" "inv u" "frame t u" "vheld (view t) c = None"
    "view u = (view t)\<lparr>vheld := (vheld (view t))(c := Some k2)\<rparr>"
    using rd_law [OF 1(2), where blk = k2 and e = e] assms(3,4) 1(4) by auto
  have "b \<noteq> c" using 2(4) 1(4) by auto
  then show ?thesis using 1 2 frame_trans [OF 1(3) 2(3)] by auto
qed

lemma copy_finish:
  assumes "inv s" "vheld (view s) = Map.empty" "vclean (view s) src" "src \<noteq> dst"
    and t: "inv t" "view t = (view s)\<lparr>vheld := [l \<mapsto> src, d \<mapsto> dst]\<rparr>" "l \<noteq> d"
  shows "\<exists>s'. kbind (kget (\<lambda>s. data s l)) (\<lambda>x. kseq (edit d x) (kseq (wr d) (kseq (rel l) (rel d)))) t e =
      Ok () s' e \<and> inv s' \<and> frame t s' \<and> view s' = v_write dst (v_set dst (vdata (view s) src) (view s))"
proof -
  have h: "vheld (view t) l = Some src" "vheld (view t) d = Some dst" using t by simp_all
  have x: "data t l = vdata (view s) src" using data_law [OF t(1) h(1)] t(2) by simp
  obtain t1 where 1: "edit d (data t l) t e = Ok () t1 e" "inv t1" "frame t t1"
    "view t1 = v_set dst (data t l) (view t)"
    using edit_law [OF t(1) h(2)] x length_law [OF assms(1)] by metis
  have h1: "vheld (view t1) d = Some dst" using 1(4) h(2) by (simp add: v_set_def)
  obtain t2 where 2: "wr d t1 e = Ok () t2 e" "inv t2" "frame t1 t2" "view t2 = v_write dst (view t1)"
    using wr_law [OF 1(2) h1] by blast
  have h2: "vheld (view t2) l = Some src" "vheld (view t2) d = Some dst" "vclean (view t2) src"
    using 1(4) 2(4) h assms(3,4) t(2) by (auto simp: v_set_def v_write_def vclean_def word_unat_eq_iff)
  obtain t3 where 3: "rel l t2 e = Ok () t3 e" "inv t3" "frame t2 t3"
    "view t3 = (view t2)\<lparr>vheld := (vheld (view t2))(l := None)\<rparr>"
    using rel_law [OF 2(2) h2(1,3)] by blast
  have h3: "vheld (view t3) d = Some dst" "vclean (view t3) dst"
    using 3(4) 2(4) h2 t(3) by (simp_all add: v_write_def vclean_def)
  from rel_law [OF 3(2) this] obtain t4 where 4: "rel d t3 e = Ok () t4 e" "inv t4" "frame t3 t4"
    "view t4 = (view t3)\<lparr>vheld := (vheld (view t3))(d := None)\<rparr>" by blast
  have "view t4 = v_write dst (v_set dst (vdata (view s) src) (view s))"
    unfolding 4(4) 3(4) 2(4) 1(4) t(2) x
    by (rule bview.equality) (auto simp: v_set_def v_write_def assms(2))
  moreover have "frame t t4" using 1(3) 2(3) 3(3) 4(3) frame_trans by blast
  ultimately show ?thesis using 1(1) 2(1) 3(1) 4(1,2) by simp
qed

text \<open>
  Copying block \<open>src\<close> to block \<open>dst\<close> and writing that to the disk, with the blocks read in either
  order.
\<close>

lemma copy_block:
  assumes "inv s" "unat src < vsize (view s)" "unat dst < vsize (view s)" "src \<noteq> dst"
    and "vheld (view s) = Map.empty" "vclean (view s) src"
    and "finite (vdirty (view s))" "card (insert src (insert dst (vdirty (view s)))) \<le> NBUF"
  shows copy_src_first: "\<exists>s'. kbind (rd src) (\<lambda>l. kbind (rd dst) (\<lambda>d. kbind (kget (\<lambda>s. data s l)) (\<lambda>x.
      kseq (edit d x) (kseq (wr d) (kseq (rel l) (rel d)))))) s e = Ok () s' e \<and> inv s' \<and> frame s s' \<and>
    view s' = v_write dst (v_set dst (vdata (view s) src) (view s))" (is "?A")
    and copy_dst_first: "\<exists>s'. kbind (rd dst) (\<lambda>d. kbind (rd src) (\<lambda>l. kbind (kget (\<lambda>s. data s l)) (\<lambda>x.
      kseq (edit d x) (kseq (wr d) (kseq (rel l) (rel d)))))) s e = Ok () s' e \<and> inv s' \<and> frame s s' \<and>
    view s' = v_write dst (v_set dst (vdata (view s) src) (view s))" (is "?B")
proof -
  note fin = copy_finish [OF assms(1,5,6,4)]
  from read_two [OF assms(1,2,3,4,5,7,8)] obtain b t c u where
    u: "rd src s e = Ok b t e" "rd dst t e = Ok c u e" "inv u" "frame s u" "b \<noteq> c"
    "view u = (view s)\<lparr>vheld := [b \<mapsto> src, c \<mapsto> dst]\<rparr>" by blast
  from fin [OF u(3,6,5)] u(1,2) frame_trans [OF u(4)] show ?A by (simp, blast)
  have "card (insert dst (insert src (vdirty (view s)))) \<le> NBUF"
    using assms(8) by (simp add: insert_commute)
  from read_two [OF assms(1,3,2) assms(4) [symmetric] assms(5,7) this] obtain b t c u where
    u: "rd dst s e = Ok b t e" "rd src t e = Ok c u e" "inv u" "frame s u" "b \<noteq> c"
    "view u = (view s)\<lparr>vheld := [b \<mapsto> dst, c \<mapsto> src]\<rparr>" by blast
  have "view u = (view s)\<lparr>vheld := [c \<mapsto> src, b \<mapsto> dst]\<rparr>" using u(5,6) by (simp add: fun_upd_twist)
  from fin [OF u(3) this] u(1,2,5) frame_trans [OF u(4)] show ?B by (simp, blast)
qed

end

section \<open>The buffer cache as a store of blocks\<close>

text \<open>The contents of a buffer, replaced as a whole: a \<^verbatim>\<open>memmove\<close> or \<^verbatim>\<open>memset\<close> into \<^verbatim>\<open>b->data\<close>.\<close>

definition set_data :: "nat \<Rightarrow> uchar list \<Rightarrow> unit kern" where
  "set_data b x = kmod (upd_buf b (\<lambda>y. y\<lparr>bdata := x\<rparr>))"

abbreviation bvalid :: "buf \<Rightarrow> bool" where
  "bvalid x \<equiv> bflags x AND B_VALID \<noteq> 0"

abbreviation bdirty :: "buf \<Rightarrow> bool" where
  "bdirty x \<equiv> bflags x AND B_DIRTY \<noteq> 0"

abbreviation mine :: "kernel \<Rightarrow> sleeplock" where
  "mine s \<equiv> sl_by (pid (ptable s ! the (curproc s)))"

text \<open>
  A buffer nobody uses is unlocked and, unless it is pinned, agrees with the disk. A buffer in use
  is locked by the executing process, and in use once.
\<close>

definition buf_ok :: "kernel \<Rightarrow> buf \<Rightarrow> bool" where
  "buf_ok s x \<longleftrightarrow> length (bdata x) = BSIZE \<and> (bvalid x \<longrightarrow> bdev x = 1 \<and> unat (blockno x) < disksize s) \<and>
     (bdirty x \<longrightarrow> bvalid x) \<and>
     (if refcnt x = 0
      then block x = \<lparr>slocked = 0, slpid = 0\<rparr> \<and>
        (bvalid x \<longrightarrow> \<not> bdirty x \<longrightarrow> bdata x = memdisk s (unat (blockno x)))
      else refcnt x = 1 \<and> block x = mine s \<and> bvalid x)"

definition store_inv :: "kernel \<Rightarrow> bool" where
  "store_inv s \<longleftrightarrow> held s = [] \<and> curproc s \<noteq> None \<and> the (curproc s) < length (ptable s) \<and> bc_inv (bufs s) \<and>
     (\<forall>b. length (memdisk s b) = BSIZE) \<and> (\<forall>i < NBUF. buf_ok s (bufs s ! i))"

definition store_view :: "kernel \<Rightarrow> bview" where
  "store_view s =
     \<lparr>vheld = (\<lambda>i. if i < NBUF \<and> refcnt (bufs s ! i) \<noteq> 0 then Some (blockno (bufs s ! i)) else None),
      vdata = blk_data s,
      vdirty = {blockno (bufs s ! i) | i. i < NBUF \<and> bdirty (bufs s ! i)},
      vdisk = memdisk s, vwrites = dwrites s, vsize = disksize s\<rparr>"

lemma store_view_sel [simp]:
  "vheld (store_view s) i =
     (if i < NBUF \<and> refcnt (bufs s ! i) \<noteq> 0 then Some (blockno (bufs s ! i)) else None)"
  "vdata (store_view s) = blk_data s"
  "vdirty (store_view s) = {blockno (bufs s ! i) | i. i < NBUF \<and> bdirty (bufs s ! i)}"
  "vdisk (store_view s) = memdisk s" "vwrites (store_view s) = dwrites s"
  "vsize (store_view s) = disksize s"
  by (simp_all add: store_view_def)

lemma ran_store_view [simp]:
  "ran (vheld (store_view s)) = {blockno (bufs s ! i) | i. i < NBUF \<and> refcnt (bufs s ! i) \<noteq> 0}"
  by (auto simp: ran_def split: if_splits)

text \<open>What the cache may change besides: the threads that wait for a buffer are woken.\<close>

definition proc_core :: "proc \<Rightarrow> proc" where
  "proc_core p = p\<lparr>ttable := [], pstate := UNUSED\<rparr>"

definition store_frame :: "kernel \<Rightarrow> kernel \<Rightarrow> bool" where
  "store_frame s s' \<longleftrightarrow> (\<exists>b m w p. map proc_core p = map proc_core (ptable s) \<and>
     s' = s\<lparr>bufs := b, memdisk := m, dwrites := w, ptable := p\<rparr>)"

lemma store_frameI:
  "map proc_core p = map proc_core (ptable s) \<Longrightarrow>
   s' = s\<lparr>bufs := b, memdisk := m, dwrites := w, ptable := p\<rparr> \<Longrightarrow> store_frame s s'"
  unfolding store_frame_def by blast

lemma store_frame_refl: "store_frame s s"
  by (rule store_frameI [where p = "ptable s" and b = "bufs s" and m = "memdisk s" and w = "dwrites s"]) simp_all

lemma store_frame_upd_buf: "store_frame s (upd_buf b f s)"
  by (rule store_frameI [where p = "ptable s" and m = "memdisk s" and w = "dwrites s"]) (simp_all add: upd_buf_def)

lemma store_frame_trans:
  assumes "store_frame s t" "store_frame t u"
  shows "store_frame s u"
proof -
  obtain b m w p where t: "map proc_core p = map proc_core (ptable s)"
    "t = s\<lparr>bufs := b, memdisk := m, dwrites := w, ptable := p\<rparr>"
    using assms(1) unfolding store_frame_def by blast
  obtain b' m' w' p' where u: "map proc_core p' = map proc_core (ptable t)"
    "u = t\<lparr>bufs := b', memdisk := m', dwrites := w', ptable := p'\<rparr>"
    using assms(2) unfolding store_frame_def by blast
  have "map proc_core p' = map proc_core (ptable s)" using u(1) t by simp
  moreover have "u = s\<lparr>bufs := b', memdisk := m', dwrites := w', ptable := p'\<rparr>"
    unfolding u(2) t(2) by simp
  ultimately show ?thesis unfolding store_frame_def by blast
qed

lemma store_frameD:
  assumes "store_frame s s'"
  shows "klog s' = klog s" "sb s' = sb s" "curproc s' = curproc s" "held s' = held s"
    "disksize s' = disksize s" "icache s' = icache s" "curthread s' = curthread s"
  using assms unfolding store_frame_def by auto

text \<open>Finding a block in the cache.\<close>

lemma find_cached_eq_Some:
  assumes "bc_inv bs" "i < NBUF" "bdev (bs ! i) = dev" "blockno (bs ! i) = blk" "dev \<noteq> 0"
  shows "find_cached dev blk bs = Some i"
proof -
  obtain xs where lru: "lru bs xs" and all: "set xs = {..<NBUF}" using assms(1) by (auto simp: bc_inv_def)
  have "find_cached dev blk bs \<noteq> None"
    unfolding find_cached_lru [OF lru] find_None_iff using assms(2-4) all by auto
  then obtain j where j: "find_cached dev blk bs = Some j" by auto
  then have "j < NBUF" "bdev (bs ! j) = dev" "blockno (bs ! j) = blk"
    using find_cached_SomeD [OF assms(1)] by blast+
  then have "j = i" using assms unfolding bc_inv_def one_copy_def by metis
  then show ?thesis using j by simp
qed

lemma find_cached_eq_None:
  assumes "bc_inv bs"
  shows "find_cached dev blk bs = None \<longleftrightarrow> (\<forall>i < NBUF. \<not> (bdev (bs ! i) = dev \<and> blockno (bs ! i) = blk))"
proof -
  obtain xs where lru: "lru bs xs" and all: "set xs = {..<NBUF}" using assms by (auto simp: bc_inv_def)
  show ?thesis unfolding find_cached_lru [OF lru] find_None_iff using all by auto
qed

lemma blk_data_at:
  assumes "bc_inv (bufs s)" "i < NBUF" "bdev (bufs s ! i) = 1" "blockno (bufs s ! i) = blk"
  shows "blk_data s blk = (if bvalid (bufs s ! i) then bdata (bufs s ! i) else memdisk s (unat blk))"
  using find_cached_eq_Some [OF assms(1-4)] by (simp add: blk_data_def)

lemma blk_data_uncached:
  assumes "bc_inv (bufs s)" "\<forall>i < NBUF. \<not> (bdev (bufs s ! i) = 1 \<and> blockno (bufs s ! i) = blk)"
  shows "blk_data s blk = memdisk s (unat blk)"
proof -
  have "find_cached 1 blk (bufs s) = None" unfolding find_cached_eq_None [OF assms(1)] by (rule assms(2))
  then show ?thesis by (simp add: blk_data_def)
qed

text \<open>There is a buffer to recycle when fewer than all are in use or pinned.\<close>

lemma find_unused_room:
  assumes "store_inv s" "vroom (store_view s)"
  shows "find_unused (bufs s) \<noteq> None"
proof
  assume none: "find_unused (bufs s) = None"
  have inv: "bc_inv (bufs s)" and ok: "\<And>i. i < NBUF \<Longrightarrow> buf_ok s (bufs s ! i)"
    using assms(1) by (auto simp: store_inv_def)
  obtain xs where lru: "lru (bufs s) xs" and all: "set xs = {..<NBUF}" using inv by (auto simp: bc_inv_def)
  have busy: "refcnt (bufs s ! i) \<noteq> 0 \<or> bdirty (bufs s ! i)" if "i < NBUF" for i
    using none that all unfolding find_unused_lru [OF lru] find_None_iff by auto
  let ?B = "\<lambda>i. blockno (bufs s ! i)"
  have dev: "bdev (bufs s ! i) = 1" if "i < NBUF" for i
    using ok [OF that] busy [OF that] by (auto simp: buf_ok_def split: if_splits)
  have "inj_on ?B {..<NBUF}"
    using inv dev unfolding bc_inv_def one_copy_def inj_on_def by (metis lessThan_iff zero_neq_one)
  then have "card (?B ` {..<NBUF}) = NBUF" by (simp add: card_image)
  moreover have "?B ` {..<NBUF} \<subseteq> ran (vheld (store_view s)) \<union> vdirty (store_view s)"
  proof
    fix k assume "k \<in> ?B ` {..<NBUF}"
    then obtain i where i: "i < NBUF" "k = ?B i" by auto
    then show "k \<in> ran (vheld (store_view s)) \<union> vdirty (store_view s)"
      using busy [OF i(1)] by auto
  qed
  moreover have "finite (ran (vheld (store_view s)) \<union> vdirty (store_view s))"
  proof (rule finite_subset)
    show "ran (vheld (store_view s)) \<union> vdirty (store_view s) \<subseteq> ?B ` {..<NBUF}"
      by auto
  qed simp
  ultimately show False
    using assms(2) card_mono [of "ran (vheld (store_view s)) \<union> vdirty (store_view s)" "?B ` {..<NBUF}"]
    by (simp add: vroom_def)
qed

text \<open>Replacing one buffer, its links apart.\<close>

lemma upd_nth_cong: "f (xs ! b) = g (xs ! b) \<Longrightarrow> upd_nth b f xs = upd_nth b g xs"
  by (simp add: upd_nth_def)

definition same_links :: "buf \<Rightarrow> buf \<Rightarrow> bool" where
  "same_links x y \<longleftrightarrow> bnext x = bnext y \<and> bprev x = bprev y"

lemma bc_inv_replace:
  assumes "bc_inv bs" "b < NBUF" "same_links x (bs ! b)"
    and "bdev x = bdev (bs ! b) \<and> blockno x = blockno (bs ! b) \<or>
      bdev x \<noteq> 0 \<and> find_cached (bdev x) (blockno x) bs = None"
  shows "bc_inv (upd_nth b (\<lambda>_. x) bs)"
  using assms(4)
proof
  let ?f = "\<lambda>y. x\<lparr>bnext := bnext y, bprev := bprev y, bdev := bdev y, blockno := blockno y\<rparr>"
  assume "bdev x = bdev (bs ! b) \<and> blockno x = blockno (bs ! b)"
  then have "upd_nth b (\<lambda>_. x) bs = upd_nth b ?f bs"
    using assms(3) by (intro upd_nth_cong) (simp add: same_links_def)
  then show ?thesis using bc_inv_upd [OF assms(1), of ?f b] by simp
next
  let ?f = "\<lambda>y. x\<lparr>bnext := bnext y, bprev := bprev y\<rparr>"
  assume new: "bdev x \<noteq> 0 \<and> find_cached (bdev x) (blockno x) bs = None"
  have "upd_nth b (\<lambda>_. x) bs = upd_nth b ?f bs"
    using assms(3) by (intro upd_nth_cong) (simp add: same_links_def)
  then show ?thesis using bc_inv_recycle [OF assms(1) _ assms(2), of "bdev x" "blockno x" ?f] new by simp
qed

lemma store_inv_replace:
  assumes "store_inv s" "bc_inv (upd_nth b (\<lambda>_. x) (bufs s))" "buf_ok s x" "b < NBUF"
  shows "store_inv (upd_buf b (\<lambda>_. x) s)"
proof -
  have "length (bufs s) = Suc NBUF" using assms(1) bc_inv_length by (simp add: store_inv_def)
  then have "upd_nth b (\<lambda>_. x) (bufs s) ! i = (if i = b then x else bufs s ! i)" for i
    using assms(4) by (cases "i = b") simp_all
  then show ?thesis
    using assms(1-3) by (auto simp: store_inv_def buf_ok_def upd_buf_def)
qed

text \<open>A buffer as the executing process has it after reading block \<open>blk\<close>.\<close>

definition taken :: "kernel \<Rightarrow> uint32 \<Rightarrow> buf \<Rightarrow> bool" where
  "taken s blk x \<longleftrightarrow> bdev x = 1 \<and> blockno x = blk \<and> refcnt x = 1 \<and> block x = mine s \<and> bvalid x \<and>
     bdata x = blk_data s blk"

lemma bflags_valid [simp]:
  "(f OR B_VALID) AND B_VALID \<noteq> 0" "((f OR B_VALID) AND B_DIRTY \<noteq> 0) = (f AND B_DIRTY \<noteq> 0)"
  "B_VALID \<noteq> 0" "B_DIRTY \<noteq> 0" "B_VALID AND B_DIRTY = 0"
proof -
  have "bit ((f OR B_VALID) AND B_VALID) 1" by (simp add: B_VALID_def bit_simps bit_numeral_rec)
  then show "(f OR B_VALID) AND B_VALID \<noteq> 0" by force
  have "(f OR B_VALID) AND B_DIRTY = f AND B_DIRTY"
    by (simp add: bit.conj_disj_distrib2 B_VALID_def B_DIRTY_def)
  then show "((f OR B_VALID) AND B_DIRTY \<noteq> 0) = (f AND B_DIRTY \<noteq> 0)" by simp
qed (simp_all add: B_VALID_def B_DIRTY_def)

lemma bread_exact:
  assumes inv: "store_inv s" and blk: "unat blk < disksize s" "blk \<notin> ran (vheld (store_view s))"
    and room: "vroom (store_view s) \<or> blk \<in> vdirty (store_view s)"
  shows "\<exists>b x. b < NBUF \<and> bread 1 blk s e = Ok b (upd_buf b (\<lambda>_. x) s) e \<and> refcnt (bufs s ! b) = 0 \<and>
    same_links x (bufs s ! b) \<and> taken s blk x \<and>
    (bdev (bufs s ! b) = 1 \<and> blockno (bufs s ! b) = blk \<and> bdirty x = bdirty (bufs s ! b) \<or>
     find_cached 1 blk (bufs s) = None \<and> \<not> bdirty (bufs s ! b) \<and> \<not> bdirty x)"
proof -
  obtain p where p: "curproc s = Some p" using inv by (auto simp: store_inv_def)
  have h: "held s = []" and bi: "bc_inv (bufs s)" and ok: "\<And>i. i < NBUF \<Longrightarrow> buf_ok s (bufs s ! i)"
    using inv by (auto simp: store_inv_def)
  show ?thesis
  proof (cases "find_cached 1 blk (bufs s)")
    case (Some b)
    then have b: "b < NBUF" "bdev (bufs s ! b) = 1" "blockno (bufs s ! b) = blk"
      using find_cached_SomeD [OF bi] by blast+
    have r: "refcnt (bufs s ! b) = 0" using b blk(2) by auto
    have u: "block (bufs s ! b) = \<lparr>slocked = 0, slpid = 0\<rparr>" using ok [OF b(1)] r by (simp add: buf_ok_def)
    have len: "b < length (bufs s)" using bc_inv_length [OF bi] b by simp
    show ?thesis
    proof (cases "bvalid (bufs s ! b)")
      case True
      let ?x = "(bufs s ! b)\<lparr>refcnt := 1, block := mine s\<rparr>"
      have "bread 1 blk s e = Ok b (upd_buf b (\<lambda>_. ?x) s) e"
        using bread_hit_valid [OF h p Some len _ True, of e] u r p
        by (simp, intro upd_buf_cong) simp
      then show ?thesis
        using b r True blk_data_at [OF bi b] by (intro exI [of _ b] exI [of _ ?x])
          (simp add: same_links_def taken_def)
    next
      case False
      then have d: "bflags (bufs s ! b) AND B_VALID = 0" "bflags (bufs s ! b) AND B_DIRTY = 0"
        using ok [OF b(1)] by (auto simp: buf_ok_def)
      let ?x = "(bufs s ! b)\<lparr>refcnt := 1, block := mine s, bdata := memdisk s (unat blk),
        bflags := bflags (bufs s ! b) OR B_VALID\<rparr>"
      have "bread 1 blk s e = Ok b (upd_buf b (\<lambda>_. ?x) s) e"
        using bread_hit_invalid [OF h p Some bi d(1) blk(1) u d(2), of e] r p
        by (simp, intro upd_buf_cong) simp
      then show ?thesis
        using b r False d blk_data_at [OF bi b] by (intro exI [of _ b] exI [of _ ?x])
          (simp add: same_links_def taken_def)
    qed
  next
    case None
    have "blk \<notin> vdirty (store_view s)"
    proof
      assume "blk \<in> vdirty (store_view s)"
      then obtain i where i: "i < NBUF" "blockno (bufs s ! i) = blk" "bdirty (bufs s ! i)"
        by auto
      then have "bdev (bufs s ! i) = 1" using ok [OF i(1)] by (auto simp: buf_ok_def)
      then show False using None i find_cached_eq_None [OF bi] by auto
    qed
    then obtain b where b: "find_unused (bufs s) = Some b" using find_unused_room [OF inv] room by auto
    then have f: "b < NBUF" "refcnt (bufs s ! b) = 0" "bflags (bufs s ! b) AND B_DIRTY = 0"
      using find_unused_SomeD [OF bi] by blast+
    have u: "block (bufs s ! b) = \<lparr>slocked = 0, slpid = 0\<rparr>" using ok [OF f(1)] f by (simp add: buf_ok_def)
    let ?x = "(bufs s ! b)\<lparr>bdev := 1, blockno := blk, bflags := B_VALID, refcnt := 1, block := mine s,
      bdata := memdisk s (unat blk)\<rparr>"
    have "bread 1 blk s e = Ok b (upd_buf b (\<lambda>_. ?x) s) e"
      using bread_miss [OF h p None bi b blk(1) u, of e] p by (simp, intro upd_buf_cong) simp
    then show ?thesis
      using f None by (intro exI [of _ b] exI [of _ ?x]) (simp add: same_links_def taken_def blk_data_def)
  qed
qed

lemma blk_data_replace:
  assumes inv: "bc_inv (bufs s)" "bc_inv (upd_nth b (\<lambda>_. x) (bufs s))" and b: "b < NBUF" "k \<noteq> blockno x"
    and old: "blockno (bufs s ! b) = k \<Longrightarrow> bvalid (bufs s ! b) \<Longrightarrow> bdata (bufs s ! b) = memdisk s (unat k)"
  shows "blk_data (upd_buf b (\<lambda>_. x) s) k = blk_data s k"
proof -
  let ?s = "upd_buf b (\<lambda>_. x) s"
  have inv': "bc_inv (bufs ?s)" using inv(2) by simp
  have nth: "upd_nth b (\<lambda>_. x) (bufs s) ! i = (if i = b then x else bufs s ! i)" for i
    using bc_inv_length [OF inv(1)] b(1) by (cases "i = b") simp_all
  show ?thesis
  proof (cases "find_cached 1 k (bufs ?s)")
    case (Some i)
    then have i: "i < NBUF" "bdev (bufs ?s ! i) = 1" "blockno (bufs ?s ! i) = k"
      using find_cached_SomeD [OF inv'] by blast+
    then have "i \<noteq> b" using b(2) by (auto simp: nth)
    then have eq: "bufs ?s ! i = bufs s ! i" by (simp add: nth)
    have "memdisk ?s = memdisk s" by simp
    then show ?thesis
      using blk_data_at [OF inv' i] blk_data_at [OF inv(1) i(1), of k] i eq by simp
  next
    case None
    have t: "blk_data ?s k = memdisk s (unat k)" using None by (simp add: blk_data_def)
    show ?thesis
    proof (cases "find_cached 1 k (bufs s)")
      case (Some i)
      then have i: "i < NBUF" "bdev (bufs s ! i) = 1" "blockno (bufs s ! i) = k"
        using find_cached_SomeD [OF inv(1)] by blast+
      have "\<not> (bdev (bufs ?s ! i) = 1 \<and> blockno (bufs ?s ! i) = k)"
        using None i(1) find_cached_eq_None [OF inv'] by blast
      then have "i = b" using i by (auto simp: nth split: if_splits)
      then show ?thesis using t blk_data_at [OF inv(1) i] i old by auto
    qed (use t in \<open>simp add: blk_data_def\<close>)
  qed
qed

lemma blk_data_length:
  assumes "store_inv s"
  shows "length (blk_data s blk) = BSIZE"
proof -
  have bi: "bc_inv (bufs s)" using assms by (simp add: store_inv_def)
  show ?thesis
    using assms by (auto simp: store_inv_def blk_data_def buf_ok_def split: option.splits
        dest!: find_cached_SomeD [OF bi])
qed

lemma store_read:
  assumes inv: "store_inv s" and blk: "unat blk < vsize (store_view s)" "blk \<notin> ran (vheld (store_view s))"
    and room: "vroom (store_view s) \<or> blk \<in> vdirty (store_view s)"
  shows "\<exists>b s'. bread 1 blk s e = Ok b s' e \<and> store_inv s' \<and> store_frame s s' \<and>
    vheld (store_view s) b = None \<and>
    store_view s' = (store_view s)\<lparr>vheld := (vheld (store_view s))(b := Some blk)\<rparr>"
proof -
  have sz: "unat blk < disksize s" using blk(1) by simp
  obtain b x where b: "b < NBUF" "bread 1 blk s e = Ok b (upd_buf b (\<lambda>_. x) s) e" "refcnt (bufs s ! b) = 0"
    "same_links x (bufs s ! b)" "taken s blk x"
    and alt: "bdev (bufs s ! b) = 1 \<and> blockno (bufs s ! b) = blk \<and> bdirty x = bdirty (bufs s ! b) \<or>
      find_cached 1 blk (bufs s) = None \<and> \<not> bdirty (bufs s ! b) \<and> \<not> bdirty x"
    using bread_exact [OF inv sz blk(2) room, of e] by blast
  have bi: "bc_inv (bufs s)" and ok: "buf_ok s (bufs s ! b)" and len: "length (bufs s) = Suc NBUF"
    using inv b(1) bc_inv_length by (auto simp: store_inv_def)
  let ?s = "upd_buf b (\<lambda>_. x) s"
  have nth: "upd_nth b (\<lambda>_. x) (bufs s) ! i = (if i = b then x else bufs s ! i)" for i
    using len b(1) by (cases "i = b") simp_all
  have tk: "bdev x = 1" "blockno x = blk" "refcnt x = 1" "bvalid x" "bdata x = blk_data s blk"
    "block x = mine s" using b(5) by (auto simp: taken_def)
  have bi': "bc_inv (bufs ?s)"
    using bc_inv_replace [OF bi b(1,4)] alt tk by auto
  have "length (blk_data s blk) = BSIZE" using inv by (rule blk_data_length)
  then have inv': "store_inv ?s"
    using store_inv_replace [OF inv _ _ b(1), of x] bi' tk sz by (auto simp: buf_ok_def)
  have data: "blk_data ?s k = blk_data s k" for k
  proof (cases "k = blk")
    case True
    then show ?thesis using blk_data_at [OF bi' b(1), of blk] tk by (simp add: nth)
  next
    case False
    show ?thesis
      using False alt tk ok b(3) bi' by (intro blk_data_replace [OF bi _ b(1)]) (auto simp: buf_ok_def)
  qed
  have "vdirty (store_view ?s) = vdirty (store_view s)"
    using alt tk by (auto simp: nth)
  moreover have "vheld (store_view ?s) = (vheld (store_view s))(b := Some blk)"
    using b(1) tk by (auto simp: nth fun_eq_iff)
  ultimately have "store_view ?s = (store_view s)\<lparr>vheld := (vheld (store_view s))(b := Some blk)\<rparr>"
    using data by (intro bview.equality) auto
  moreover have "store_frame s ?s" by (rule store_frame_upd_buf)
  ultimately show ?thesis using b(1-3) inv' by (intro exI [of _ b] exI [of _ ?s]) simp
qed

lemma held_facts:
  assumes "store_inv s" "vheld (store_view s) b = Some blk"
  shows "b < NBUF" "blockno (bufs s ! b) = blk" "refcnt (bufs s ! b) = 1" "block (bufs s ! b) = mine s"
    "bvalid (bufs s ! b)" "bdev (bufs s ! b) = 1" "length (bdata (bufs s ! b)) = BSIZE"
    "unat blk < disksize s" "b < length (bufs s)" "blk_data s blk = bdata (bufs s ! b)"
proof -
  show b: "b < NBUF" "blockno (bufs s ! b) = blk" using assms(2) by (auto split: if_splits)
  have "buf_ok s (bufs s ! b)" "refcnt (bufs s ! b) \<noteq> 0"
    using assms b(1) by (auto simp: store_inv_def split: if_splits)
  then show f: "refcnt (bufs s ! b) = 1" "block (bufs s ! b) = mine s"
    "bvalid (bufs s ! b)" "bdev (bufs s ! b) = 1" "length (bdata (bufs s ! b)) = BSIZE"
    "unat blk < disksize s" using b by (auto simp: buf_ok_def)
  have bi: "bc_inv (bufs s)" using assms(1) by (simp add: store_inv_def)
  show "b < length (bufs s)" using bc_inv_length [OF bi] b by simp
  show "blk_data s blk = bdata (bufs s ! b)" using blk_data_at [OF bi b(1) f(4) b(2)] f(3) by simp
qed

lemma held_dirty:
  assumes inv: "store_inv s" and h: "vheld (store_view s) b = Some blk"
  shows "i < NBUF \<Longrightarrow> bdev (bufs s ! i) = 1 \<Longrightarrow> blockno (bufs s ! i) = blk \<Longrightarrow> i = b"
    and "blk \<in> vdirty (store_view s) \<longleftrightarrow> bdirty (bufs s ! b)"
proof -
  note f = held_facts [OF inv h]
  have bi: "bc_inv (bufs s)" and ok: "\<And>i. i < NBUF \<Longrightarrow> buf_ok s (bufs s ! i)"
    using inv by (auto simp: store_inv_def)
  show uniq: "i = b" if "i < NBUF" "bdev (bufs s ! i) = 1" "blockno (bufs s ! i) = blk" for i
    using find_cached_eq_Some [OF bi that(1,2,3)] find_cached_eq_Some [OF bi f(1) f(6)] f(2) by simp
  have "bdev (bufs s ! i) = 1" if "i < NBUF" "bdirty (bufs s ! i)" for i
    using ok [OF that(1)] that(2) by (auto simp: buf_ok_def)
  then have "\<exists>i < NBUF. bdirty (bufs s ! i) \<and> blockno (bufs s ! i) = blk \<Longrightarrow> bdirty (bufs s ! b)"
    using uniq by metis
  then show "blk \<in> vdirty (store_view s) \<longleftrightarrow> bdirty (bufs s ! b)"
    using f(1,2) unfolding store_view_sel(3) by blast
qed

text \<open>Changing the contents or the flags of a buffer the process holds.\<close>

lemma store_change:
  assumes inv: "store_inv s" and h: "vheld (store_view s) b = Some blk"
    and x: "same_links x (bufs s ! b)" "bdev x = 1" "blockno x = blk" "refcnt x = 1" "block x = mine s"
      "bvalid x" "length (bdata x) = BSIZE"
  shows "store_inv (upd_buf b (\<lambda>_. x) s)"
    and "store_view (upd_buf b (\<lambda>_. x) s) = (store_view s)\<lparr>vdata := (blk_data s)(blk := bdata x),
      vdirty := (if bdirty x then insert blk else (\<lambda>D. D - {blk})) (vdirty (store_view s))\<rparr>"
proof -
  note f = held_facts [OF inv h]
  have bi: "bc_inv (bufs s)" and ok: "\<And>i. i < NBUF \<Longrightarrow> buf_ok s (bufs s ! i)"
    using inv by (auto simp: store_inv_def)
  let ?s = "upd_buf b (\<lambda>_. x) s"
  have bi': "bc_inv (upd_nth b (\<lambda>_. x) (bufs s))"
    using bc_inv_replace [OF bi f(1) x(1)] x f by simp
  show "store_inv ?s"
    using x f by (intro store_inv_replace [OF inv bi' _ f(1)]) (simp add: buf_ok_def)
  have nth: "upd_nth b (\<lambda>_. x) (bufs s) ! i = (if i = b then x else bufs s ! i)" for i
    using f(9) by (cases "i = b") simp_all
  have data: "blk_data ?s k = ((blk_data s)(blk := bdata x)) k" for k
  proof (cases "k = blk")
    case True
    then show ?thesis using blk_data_at [of ?s b blk] bi' f(1) x by (simp add: nth)
  next
    case False
    then show ?thesis using blk_data_replace [OF bi bi' f(1), of k] x f by simp
  qed
  have uniq: "i = b" if "i < NBUF" "bdirty (bufs s ! i)" "blockno (bufs s ! i) = blk" for i
    using held_dirty(1) [OF inv h that(1) _ that(3)] ok [OF that(1)] that(2) by (auto simp: buf_ok_def)
  have "vdirty (store_view ?s) = (if bdirty x then insert blk else (\<lambda>D. D - {blk})) (vdirty (store_view s))"
    using f(1,2) x(3) uniq by (auto simp: nth) metis+
  moreover have "vheld (store_view ?s) = vheld (store_view s)"
    using f x by (auto simp: nth fun_eq_iff)
  ultimately show "store_view ?s = (store_view s)\<lparr>vdata := (blk_data s)(blk := bdata x),
      vdirty := (if bdirty x then insert blk else (\<lambda>D. D - {blk})) (vdirty (store_view s))\<rparr>"
    using data by (intro bview.equality) auto
qed

lemma store_edit:
  assumes inv: "store_inv s" and h: "vheld (store_view s) b = Some blk" and x: "length x = BSIZE"
  shows "\<exists>s'. set_data b x s e = Ok () s' e \<and> store_inv s' \<and> store_frame s s' \<and>
    store_view s' = v_set blk x (store_view s)"
proof -
  note f = held_facts [OF inv h]
  let ?x = "(bufs s ! b)\<lparr>bdata := x\<rparr>"
  have s': "upd_buf b (\<lambda>y. y\<lparr>bdata := x\<rparr>) s = upd_buf b (\<lambda>_. ?x) s" by (intro upd_buf_cong) simp
  have "same_links ?x (bufs s ! b)" by (simp add: same_links_def)
  note c = store_change [OF inv h this]
  have D: "(if bdirty (bufs s ! b) then insert blk else (\<lambda>D. D - {blk})) (vdirty (store_view s)) =
      vdirty (store_view s)"
    using held_dirty(2) [OF inv h] by (auto simp del: store_view_sel(3))
  have "store_inv (upd_buf b (\<lambda>_. ?x) s)" using c(1) f x by simp
  moreover have "store_view (upd_buf b (\<lambda>_. ?x) s) = v_set blk x (store_view s)"
    using c(2) f x D by (simp add: v_set_def del: store_view_sel(3))
  ultimately show ?thesis
    using store_frame_upd_buf by (simp add: set_data_def s')
qed

text \<open>The disk changes where the process holds the block.\<close>

lemma store_disk:
  assumes inv: "store_inv s" and h: "vheld (store_view s) b = Some blk"
  defines "d \<equiv> bdata (bufs s ! b)"
  defines "t \<equiv> s\<lparr>memdisk := (memdisk s)(unat blk := d), dwrites := dwrites s @ [(unat blk, d)]\<rparr>"
  shows "store_inv t"
    and "store_view t = (store_view s)\<lparr>vdisk := (memdisk s)(unat blk := d),
      vwrites := dwrites s @ [(unat blk, d)]\<rparr>"
proof -
  note f = held_facts [OF inv h]
  have bi: "bc_inv (bufs s)" using inv by (simp add: store_inv_def)
  have ok: "buf_ok t (bufs s ! i)" if "i < NBUF" for i
  proof (cases "i = b")
    case True
    then show ?thesis using inv that f by (simp add: store_inv_def buf_ok_def t_def)
  next
    case False
    then have "\<not> (bdev (bufs s ! i) = 1 \<and> blockno (bufs s ! i) = blk)"
      using held_dirty(1) [OF inv h that] by blast
    then show ?thesis
      using inv that by (auto simp: store_inv_def buf_ok_def t_def word_unat_eq_iff)
  qed
  show "store_inv t" using inv ok f(7) by (simp add: store_inv_def t_def d_def)
  have "blk_data t k = blk_data s k" for k
  proof (cases "k = blk")
    case True
    then show ?thesis using blk_data_at [of t b blk] f bi by (simp add: t_def)
  next
    case False
    then show ?thesis by (simp add: blk_data_def t_def word_unat_eq_iff split: option.splits)
  qed
  then show "store_view t = (store_view s)\<lparr>vdisk := (memdisk s)(unat blk := d),
      vwrites := dwrites s @ [(unat blk, d)]\<rparr>"
    by (intro bview.equality) (auto simp: t_def)
qed

lemma store_write:
  assumes inv: "store_inv s" and h: "vheld (store_view s) b = Some blk"
  shows "\<exists>s'. bwrite b s e = Ok () s' e \<and> store_inv s' \<and> store_frame s s' \<and>
    store_view s' = v_write blk (store_view s)"
proof -
  note f = held_facts [OF inv h]
  let ?d = "bdata (bufs s ! b)"
  let ?t = "s\<lparr>memdisk := (memdisk s)(unat blk := ?d), dwrites := dwrites s @ [(unat blk, ?d)]\<rparr>"
  let ?x = "(bufs s ! b)\<lparr>bflags := ((bflags (bufs s ! b) OR B_DIRTY) AND NOT B_DIRTY) OR B_VALID\<rparr>"
  obtain p where p: "curproc s = Some p" and hd: "held s = []" using inv by (auto simp: store_inv_def)
  note d = store_disk [OF inv h]
  have ht: "vheld (store_view ?t) b = Some blk" using f by simp
  have "same_links ?x (bufs ?t ! b)" by (simp add: same_links_def)
  note c = store_change [OF d(1) ht this]
  have nd: "\<not> bdirty ?x"
    by (simp add: bit.conj_disj_distrib2 and.assoc B_VALID_def B_DIRTY_def)
  let ?s1 = "upd_buf b (\<lambda>x. x\<lparr>bflags := bflags x OR B_DIRTY\<rparr>) s"
  have "iderw b ?s1 e = Ok () (upd_buf b (\<lambda>y. y\<lparr>bflags := (bflags y AND NOT B_DIRTY) OR B_VALID\<rparr>)
     (?s1\<lparr>memdisk := (memdisk s)(unat blk := ?d), dwrites := dwrites s @ [(unat blk, ?d)]\<rparr>)) e"
    using iderw_write [of b ?s1 p e] f p hd by simp
  also have "upd_buf b (\<lambda>y. y\<lparr>bflags := (bflags y AND NOT B_DIRTY) OR B_VALID\<rparr>)
     (?s1\<lparr>memdisk := (memdisk s)(unat blk := ?d), dwrites := dwrites s @ [(unat blk, ?d)]\<rparr>) =
     upd_buf b (\<lambda>_. ?x) ?t"
    using f(9) by (simp add: upd_buf_def) (simp add: upd_nth_def)
  finally have w: "bwrite b s e = Ok () (upd_buf b (\<lambda>_. ?x) ?t) e"
    using holdingsleep_eq [of "BufLk b" s p e] hd p f by (simp add: bwrite_def kseq_def)
  have bd: "blk_data ?t = blk_data s" using arg_cong [OF d(2), of vdata] by simp
  have same: "(blk_data s)(blk := ?d) = blk_data s" using f(10) by auto
  have "store_view (upd_buf b (\<lambda>_. ?x) ?t) = (store_view ?t)\<lparr>vdata := (blk_data ?t)(blk := ?d),
      vdirty := vdirty (store_view ?t) - {blk}\<rparr>"
    using c(2) f nd by (simp del: store_view_sel)
  also have "\<dots> = v_write blk (store_view s)"
    unfolding d(2) bd same v_write_def using f(10) by simp
  finally have "store_view (upd_buf b (\<lambda>_. ?x) ?t) = v_write blk (store_view s)" .
  moreover have "store_inv (upd_buf b (\<lambda>_. ?x) ?t)" using c(1) f by simp
  moreover have "store_frame s ?t"
    by (rule store_frameI [where b = "bufs s" and p = "ptable s"]) simp_all
  ultimately show ?thesis using w store_frame_upd_buf store_frame_trans by blast
qed

text \<open>Relinking the list and waking threads do not change the view.\<close>

lemma store_relink:
  assumes inv: "store_inv s" and t: "t = s\<lparr>bufs := bs, ptable := q\<rparr>" "bc_inv bs"
    and core: "map buf_core bs = map buf_core (bufs s)" "map proc_core q = map proc_core (ptable s)"
  shows "store_inv t" "store_view t = store_view s" "store_frame s t"
proof -
  have bi: "bc_inv (bufs s)" and p: "the (curproc s) < length (ptable s)"
    using inv by (simp_all add: store_inv_def)
  have c: "bflags (bs ! i) = bflags (bufs s ! i) \<and> bdev (bs ! i) = bdev (bufs s ! i) \<and>
      blockno (bs ! i) = blockno (bufs s ! i) \<and> block (bs ! i) = block (bufs s ! i) \<and>
      refcnt (bs ! i) = refcnt (bufs s ! i) \<and> bdata (bs ! i) = bdata (bufs s ! i)" if "i < NBUF" for i
    using core_nth [OF core(1), of i] bc_inv_length [OF bi] that by (auto dest: buf_core_eqD)
  have "proc_core (q ! the (curproc s)) = proc_core (ptable s ! the (curproc s))"
    using core(2) p by (metis length_map nth_map)
  then have pid: "pid (q ! the (curproc s)) = pid (ptable s ! the (curproc s))"
    by (metis (mono_tags) proc_core_def proc.select_convs(4) proc.surjective proc.update_convs(3) proc.update_convs(9))
  have "length q = length (ptable s)" using core(2) by (metis length_map)
  then show "store_inv t" using inv t c pid by (simp add: store_inv_def buf_ok_def)
  have "blk_data t k = blk_data s k" for k
  proof (cases "find_cached 1 k (bufs s)")
    case (Some i)
    then have i: "i < NBUF" "bdev (bufs s ! i) = 1" "blockno (bufs s ! i) = k"
      using find_cached_SomeD [OF bi] by blast+
    show ?thesis
      using blk_data_at [OF bi i] blk_data_at [of t i k] i c [OF i(1)] t by simp
  next
    case None
    then have "\<forall>i < NBUF. \<not> (bdev (bufs t ! i) = 1 \<and> blockno (bufs t ! i) = k)"
      using find_cached_eq_None [OF bi] c t(1) by simp
    then show ?thesis using blk_data_uncached [of t k] t None by (simp add: blk_data_def)
  qed
  moreover have "vdirty (store_view t) = vdirty (store_view s)"
    unfolding store_view_sel t(1) using c by (intro Collect_cong iff_exI) auto
  ultimately show "store_view t = store_view s"
    using c t(1) by (intro bview.equality) (auto simp: fun_eq_iff simp del: store_view_sel(3))
  show "store_frame s t"
    using t(1) by (intro store_frameI [OF core(2), where b = bs and m = "memdisk s" and w = "dwrites s"]) simp
qed

lemma proc_core_wake [simp]: "proc_core (wake_proc ch p) = proc_core p"
  by (simp add: proc_core_def wake_proc_def)

lemma store_release:
  assumes inv: "store_inv s" and h: "vheld (store_view s) b = Some blk" and cl: "vclean (store_view s) blk"
  shows "\<exists>s'. brelse b s e = Ok () s' e \<and> store_inv s' \<and> store_frame s s' \<and>
    store_view s' = (store_view s)\<lparr>vheld := (vheld (store_view s))(b := None)\<rparr>"
proof -
  note f = held_facts [OF inv h]
  have bi: "bc_inv (bufs s)" using inv by (simp add: store_inv_def)
  let ?x = "(bufs s ! b)\<lparr>block := \<lparr>slocked = 0, slpid = 0\<rparr>, refcnt := 0\<rparr>"
  let ?t = "upd_buf b (\<lambda>_. ?x) s"
  have l: "same_links ?x (bufs s ! b)" by (simp add: same_links_def)
  have bi': "bc_inv (upd_nth b (\<lambda>_. ?x) (bufs s))" using bc_inv_replace [OF bi f(1) l] by simp
  have "bdirty (bufs s ! b) \<or> bdata (bufs s ! b) = memdisk s (unat blk)"
    using cl held_dirty(2) [OF inv h] f(10) by (simp add: vclean_def del: store_view_sel(3))
  then have inv': "store_inv ?t"
    using f by (intro store_inv_replace [OF inv bi' _ f(1)]) (auto simp: buf_ok_def)
  have nth: "upd_nth b (\<lambda>_. ?x) (bufs s) ! i = (if i = b then ?x else bufs s ! i)" for i
    using f(9) by (cases "i = b") simp_all
  have "blk_data ?t k = blk_data s k" for k
  proof (cases "k = blk")
    case True
    then show ?thesis using blk_data_at [of ?t b blk] bi' f by (simp add: nth)
  next
    case False
    then show ?thesis using blk_data_replace [OF bi bi' f(1), of k] f by simp
  qed
  moreover have "vdirty (store_view ?t) = vdirty (store_view s)"
    unfolding store_view_sel upd_buf_sel nth by (intro Collect_cong iff_exI) auto
  ultimately have view: "store_view ?t = (store_view s)\<lparr>vheld := (vheld (store_view s))(b := None)\<rparr>"
    using f by (intro bview.equality) (auto simp: nth fun_eq_iff simp del: store_view_sel(3))
  let ?bs = "push_front b (unlink_buf b (upd_nth b (\<lambda>_. ?x) (bufs s)))"
  let ?u = "?t\<lparr>bufs := ?bs, ptable := map (wake_proc (ChSleep (BufLk b))) (ptable s)\<rparr>"
  have eq: "upd_buf b (\<lambda>x. x\<lparr>block := \<lparr>slocked = 0, slpid = 0\<rparr>, refcnt := refcnt x - 1\<rparr>) s = ?t"
    using f(3) by (intro upd_buf_cong) simp
  obtain q where q: "curproc s = Some q" "held s = []" using inv by (auto simp: store_inv_def)
  have "brelse b s e = Ok () ?u e"
    using brelse_eq [OF q(2,1) f(9), of e] f(3,4) q
    unfolding Let_def eq by (simp add: wakes_def)
  moreover have "bc_inv ?bs" using bc_inv_move [OF bi' f(1)] .
  moreover have "map buf_core ?bs = map buf_core (bufs ?t)" by simp
  moreover have "map proc_core (map (wake_proc (ChSleep (BufLk b))) (ptable s)) = map proc_core (ptable ?t)"
    by (simp add: o_def)
  ultimately show ?thesis
    using store_relink [OF inv' refl] view store_frame_trans [OF store_frame_upd_buf] by metis
qed

interpretation bcache: block_store store_inv store_view store_frame "\<lambda>s b. bdata (bufs s ! b)"
  "bread 1" set_data bwrite brelse
proof
qed (use store_frame_refl store_frame_trans held_facts(10) blk_data_length store_read store_edit store_write
    store_release in \<open>auto simp del: store_view_sel ran_store_view simp: store_view_sel(2)\<close>)

end
