(* ===== verification/Log.thy ===== *)
theory Log
  imports Blockstore
begin

text \<open>
  \<^verbatim>\<open>log.c\<close>, the write-ahead log, and \<^verbatim>\<open>readsb\<close> of \<^verbatim>\<open>fs.c\<close>, which it calls. The log header in memory
  has room for \<^verbatim>\<open>LOGSIZE\<close> block numbers; following a larger count read from the disk would leave
  the array, which the model turns into \<open>Panic ''bounds''\<close>. The loops over the log therefore end
  after at most \<^verbatim>\<open>LOGSIZE + 1\<close> iterations.
\<close>

section \<open>Operations\<close>

definition decode_sb :: "uchar list \<Rightarrow> superblock" where
  "decode_sb x = \<lparr>sb_size = get32 x 0, sb_nblocks = get32 x 4, sb_ninodes = get32 x 8,
     sb_nlog = get32 x 12, sb_logstart = get32 x 16, sb_inodestart = get32 x 20, sb_bmapstart = get32 x 24\<rparr>"

definition readsb :: "uint32 \<Rightarrow> superblock kern" where
  "readsb dev =
     kbind (bread dev 1) (\<lambda>b.
     kbind (kget (\<lambda>s. decode_sb (bdata (bufs s ! b)))) (\<lambda>x.
     kseq (brelse b) (kret x)))"

definition upd_log :: "(logst \<Rightarrow> logst) \<Rightarrow> kernel \<Rightarrow> kernel" where
  "upd_log f s = s\<lparr>klog := f (klog s)\<rparr>"

definition upd_lh :: "(logheader \<Rightarrow> logheader) \<Rightarrow> kernel \<Rightarrow> kernel" where
  "upd_lh f = upd_log (\<lambda>l. l\<lparr>lh := f (lh l)\<rparr>)"

definition kbounds :: "bool \<Rightarrow> unit kern" where
  "kbounds ok = kwhen (\<not> ok) (kpanic ''bounds'')"

text \<open>The loop \<^verbatim>\<open>for(tail = 0; tail < log.lh.n; tail++)\<close>.\<close>

definition log_loop :: "(nat \<Rightarrow> unit kern) \<Rightarrow> unit kern" where
  "log_loop body = kloop (Suc LOGSIZE) (\<lambda>tail.
     kbind (kget (\<lambda>s. lh_n (lh (klog s)))) (\<lambda>n.
     if tail < n
     then kseq (kbounds (tail < LOGSIZE)) (kseq (body tail) (kret (Inl (Suc tail))))
     else kret (Inr ()))) 0"

definition install_trans :: "unit kern" where
  "install_trans = log_loop (\<lambda>tail.
     kbind (kget klog) (\<lambda>l.
     kbind (bread (ldev l) (lstart l + of_nat tail + 1)) (\<lambda>lbuf.
     kbind (bread (ldev l) (lh_block (lh l) ! tail)) (\<lambda>dbuf.
     kbind (kget (\<lambda>s. bdata (bufs s ! lbuf))) (\<lambda>x.
     kseq (set_data dbuf x)
    (kseq (bwrite dbuf)
    (kseq (brelse lbuf)
    (brelse dbuf))))))))"

definition read_head :: "unit kern" where
  "read_head =
     kbind (kget klog) (\<lambda>l.
     kbind (bread (ldev l) (lstart l)) (\<lambda>b.
     kbind (kget (\<lambda>s. bdata (bufs s ! b))) (\<lambda>x.
     let n = nat (sint (get32 x 0)) in
     kseq (kmod (upd_lh (\<lambda>h. h\<lparr>lh_n := n\<rparr>)))
    (kseq (kbounds (n \<le> LOGSIZE))
    (kseq (kmod (upd_lh (\<lambda>h. h\<lparr>lh_block := get32s x 4 n @ drop n (lh_block h)\<rparr>)))
    (brelse b))))))"

definition encode_head :: "logheader \<Rightarrow> uchar list \<Rightarrow> uchar list" where
  "encode_head h x = put32s (put32 x 0 (of_nat (lh_n h))) 4 (take (lh_n h) (lh_block h))"

definition write_head :: "unit kern" where
  "write_head =
     kbind (kget klog) (\<lambda>l.
     kbind (bread (ldev l) (lstart l)) (\<lambda>b.
     kbind (kget (\<lambda>s. bdata (bufs s ! b))) (\<lambda>x.
     kseq (kbounds (lh_n (lh l) \<le> LOGSIZE))
    (kseq (set_data b (encode_head (lh l) x))
    (kseq (bwrite b)
    (brelse b))))))"

definition recover_from_log :: "unit kern" where
  "recover_from_log =
     kseq read_head
    (kseq install_trans
    (kseq (kmod (upd_lh (\<lambda>h. h\<lparr>lh_n := 0\<rparr>)))
    write_head))"

definition initlog :: "uint32 \<Rightarrow> unit kern" where
  "initlog dev =
     (if 4 + 4 * LOGSIZE \<ge> BSIZE then kpanic ''initlog: too big logheader''
      else
        kbind (readsb dev) (\<lambda>b.
        kseq (kmod (upd_log (\<lambda>l. l\<lparr>lstart := sb_logstart b, lsize := sb_nlog b, ldev := dev\<rparr>)))
        recover_from_log))"

definition begin_step :: "unit option kern" where
  "begin_step =
     kbind (kget klog) (\<lambda>l.
     if committing l \<noteq> 0 then kseq (sleep ChLog LogLock) (kret None)
     else if int (lh_n (lh l)) + (outstanding l + 1) * int MAXOPBLOCKS > int LOGSIZE
     then kseq (sleep ChLog LogLock) (kret None)
     else
       kseq (kmod (upd_log (\<lambda>l. l\<lparr>outstanding := outstanding l + 1\<rparr>)))
      (kseq (lk_release LogLock) (kret (Some ()))))"

definition begin_op :: "unit kern" where
  "begin_op = kseq (lk_acquire LogLock) (kwait begin_step)"

definition write_log :: "unit kern" where
  "write_log = log_loop (\<lambda>tail.
     kbind (kget klog) (\<lambda>l.
     kbind (bread (ldev l) (lstart l + of_nat tail + 1)) (\<lambda>to.
     kbind (bread (ldev l) (lh_block (lh l) ! tail)) (\<lambda>from'.
     kbind (kget (\<lambda>s. bdata (bufs s ! from'))) (\<lambda>x.
     kseq (set_data to x)
    (kseq (bwrite to)
    (kseq (brelse from')
    (brelse to))))))))"

definition commit :: "unit kern" where
  "commit =
     kbind (kget (\<lambda>s. lh_n (lh (klog s)))) (\<lambda>n.
     kwhen (n > 0)
      (kseq write_log
      (kseq write_head
      (kseq install_trans
      (kseq (kmod (upd_lh (\<lambda>h. h\<lparr>lh_n := 0\<rparr>)))
      write_head)))))"

definition end_op :: "unit kern" where
  "end_op =
     kseq (lk_acquire LogLock)
    (kseq (kmod (upd_log (\<lambda>l. l\<lparr>outstanding := outstanding l - 1\<rparr>)))
    (kbind (kget klog) (\<lambda>l.
     if committing l \<noteq> 0 then kpanic ''log.committing''
     else if outstanding l = 0 then
       kseq (kmod (upd_log (\<lambda>l. l\<lparr>committing := 1\<rparr>)))
      (kseq (lk_release LogLock)
      (kseq commit
      (kseq (lk_acquire LogLock)
      (kseq (kmod (upd_log (\<lambda>l. l\<lparr>committing := 0\<rparr>)))
      (kseq (wakeup ChLog)
      (lk_release LogLock))))))
     else
       kseq (wakeup ChLog)
      (lk_release LogLock))))"

definition log_write :: "nat \<Rightarrow> unit kern" where
  "log_write b =
     kbind (kget klog) (\<lambda>l.
     if lh_n (lh l) \<ge> LOGSIZE \<or> int (lh_n (lh l)) \<ge> sint (lsize l) - 1 then kpanic ''too big a transaction''
     else if outstanding l < 1 then kpanic ''log_write outside of trans''
     else
       kseq (lk_acquire LogLock)
      (kbind (kget (\<lambda>s. blockno (bufs s ! b))) (\<lambda>blk.
       kbind (kget (\<lambda>s. lh (klog s))) (\<lambda>h.
       let i = (case find_idx (\<lambda>x. x = blk) (take (lh_n h) (lh_block h)) of
                  None \<Rightarrow> lh_n h | Some i \<Rightarrow> i) in
       kseq (kbounds (i < LOGSIZE))
      (kseq (kmod (upd_lh (\<lambda>h. h\<lparr>lh_block := (lh_block h)[i := blk],
              lh_n := (if i = lh_n h then lh_n h + 1 else lh_n h)\<rparr>)))
      (kseq (kmod (upd_buf b (\<lambda>x. x\<lparr>bflags := bflags x OR B_DIRTY\<rparr>)))
      (lk_release LogLock)))))))"

section \<open>Lock discipline\<close>

lemma held_upd_log [simp]: "held (upd_log f s) = held s" "held (upd_lh g s) = held s"
  by (simp_all add: upd_log_def upd_lh_def)

lemma lk_ok_kbounds [klock]: "lk_bal h (kbounds ok)"
  unfolding kbounds_def by (rule klock | simp add: lock_panics_def)+

lemma lk_ok_set_data [klock]: "lk_bal h (set_data b x)"
  unfolding set_data_def by (rule klock | simp)+

lemma lk_ok_readsb [klock]: "h = [] \<Longrightarrow> lk_bal h (readsb dev)"
  unfolding readsb_def by (rule klock | simp)+

lemma lk_ok_log_loop [klock]: "(\<And>i. lk_bal h (body i)) \<Longrightarrow> lk_bal h (log_loop body)"
  unfolding log_loop_def by (rule klock | simp)+ (auto intro: lk_ok_kret)

lemma lk_ok_install_trans [klock]: "h = [] \<Longrightarrow> lk_bal h install_trans"
  unfolding install_trans_def by (rule klock | simp)+

lemma lk_ok_write_log [klock]: "h = [] \<Longrightarrow> lk_bal h write_log"
  unfolding write_log_def by (rule klock | simp)+

lemma lk_ok_read_head [klock]: "h = [] \<Longrightarrow> lk_bal h read_head"
  unfolding read_head_def by (rule klock | simp)+

lemma lk_ok_write_head [klock]: "h = [] \<Longrightarrow> lk_bal h write_head"
  unfolding write_head_def by (rule klock | simp)+

lemma lk_ok_recover [klock]: "h = [] \<Longrightarrow> lk_bal h recover_from_log"
  unfolding recover_from_log_def by (rule klock | simp)+

lemma lk_ok_initlog [klock]: "h = [] \<Longrightarrow> lk_bal h (initlog dev)"
  unfolding initlog_def by (rule klock | simp add: lock_panics_def)+

lemma lk_ok_begin_step [klock]:
  "h = [] \<Longrightarrow> lk_ok (LogLock # h) begin_step (\<lambda>r. case r of None \<Rightarrow> LogLock # h | Some a \<Rightarrow> h)"
  unfolding begin_step_def by (rule klock | simp)+

lemma lk_ok_begin_op [klock]: "h = [] \<Longrightarrow> lk_bal h begin_op"
  unfolding begin_op_def by (rule klock | simp)+

lemma lk_ok_commit [klock]: "h = [] \<Longrightarrow> lk_bal h commit"
  unfolding commit_def by (rule klock | simp)+

lemma lk_ok_end_op [klock]: "h = [] \<Longrightarrow> lk_bal h end_op"
  unfolding end_op_def by (rule klock | simp add: lock_panics_def)+

lemma lk_ok_log_write [klock]: "LogLock \<notin> set h \<Longrightarrow> lk_bal h (log_write b)"
  unfolding log_write_def by (rule klock | simp add: lock_panics_def)+

end
