(* ===== verification/Crash.thy ===== *)
theory Crash
  imports Log
begin

text \<open>
  Crash safety of the log. A crash loses the memory and keeps the disk as the block writes issued
  so far have left it; a restart runs \<^verbatim>\<open>recover_from_log\<close> on that disk. The theorems say that
  whatever prefix of the writes of \<^verbatim>\<open>commit\<close> reached the disk, recovery ends with all of the
  transaction's blocks at their old contents or all at their new ones.
\<close>

section \<open>Sequences of block writes\<close>

definition apply_writes :: "(nat \<times> uchar list) list \<Rightarrow> (nat \<Rightarrow> uchar list) \<Rightarrow> nat \<Rightarrow> uchar list" where
  "apply_writes ws d = fold (\<lambda>(b, x) d. d(b := x)) ws d"

lemma apply_writes_simps [simp]:
  "apply_writes [] d = d" "apply_writes (w # ws) d = apply_writes ws (d(fst w := snd w))"
  "apply_writes (ws @ vs) d = apply_writes vs (apply_writes ws d)"
  by (simp_all add: apply_writes_def split_beta)

lemma apply_writes_other: "b \<notin> fst ` set ws \<Longrightarrow> apply_writes ws d b = d b"
  by (induction ws arbitrary: d) auto

lemma apply_writes_same:
  assumes "i < length ws" "distinct (map fst ws)"
  shows "apply_writes ws d (fst (ws ! i)) = snd (ws ! i)"
  using assms
proof (induction ws arbitrary: i d)
  case (Cons w ws)
  show ?case
  proof (cases i)
    case 0
    then show ?thesis using Cons.prems by (simp add: apply_writes_other)
  next
    case (Suc j)
    then show ?thesis using Cons by simp
  qed
qed simp

text \<open>Writing blocks one after the other, on the view of the store.\<close>

definition v_puts :: "(uint32 \<times> uchar list) list \<Rightarrow> bview \<Rightarrow> bview" where
  "v_puts ps v = fold (\<lambda>(k, x) v. v_write k (v_set k x v)) ps v"

definition raw :: "(uint32 \<times> uchar list) list \<Rightarrow> (nat \<times> uchar list) list" where
  "raw ps = map (\<lambda>(k, x). (unat k, x)) ps"

lemma raw_simps [simp]: "raw [] = []" "raw (p # ps) = (unat (fst p), snd p) # raw ps"
  "raw (ps @ qs) = raw ps @ raw qs" "length (raw ps) = length ps"
  by (simp_all add: raw_def split_beta)

lemma v_puts_append: "v_puts (ps @ qs) v = v_puts qs (v_puts ps v)"
  by (simp add: v_puts_def)

lemma v_puts_sel [simp]:
  "vheld (v_puts ps v) = vheld v" "vsize (v_puts ps v) = vsize v"
  "vwrites (v_puts ps v) = vwrites v @ raw ps" "vdisk (v_puts ps v) = apply_writes (raw ps) (vdisk v)"
  "vdirty (v_puts ps v) = vdirty v - fst ` set ps"
  by (induction ps arbitrary: v) (auto simp: v_puts_def v_write_def v_set_def split_beta)

lemma v_puts_data_other: "k \<notin> fst ` set ps \<Longrightarrow> vdata (v_puts ps v) k = vdata v k"
  by (induction ps arbitrary: v) (auto simp: v_puts_def v_write_def v_set_def split_beta)

lemma v_puts_data_same:
  assumes "i < length ps" "distinct (map fst ps)"
  shows "vdata (v_puts ps v) (fst (ps ! i)) = snd (ps ! i)"
  using assms
proof (induction ps arbitrary: i v)
  case (Cons p ps)
  obtain k x where p: "p = (k, x)" by (cases p)
  have eq: "v_puts (p # ps) v = v_puts ps (v_write k (v_set k x v))" by (simp add: v_puts_def p)
  show ?case
  proof (cases i)
    case 0
    then show ?thesis
      using Cons.prems p v_puts_data_other [of k ps] unfolding eq by (simp add: v_write_def v_set_def)
  next
    case (Suc j)
    then show ?thesis using Cons eq by simp
  qed
qed simp

section \<open>The loops over the log\<close>

lemma log_loop_rule:
  assumes n: "n \<le> LOGSIZE" and P0: "P 0 s" and count: "\<And>i s. P i s \<Longrightarrow> lh_n (lh (klog s)) = n"
    and step: "\<And>i s. i < n \<Longrightarrow> P i s \<Longrightarrow> \<exists>s'. body i s e = Ok () s' e \<and> P (Suc i) s'"
  shows "\<exists>s'. log_loop body s e = Ok () s' e \<and> P n s'"
proof -
  let ?f = "\<lambda>tail. kbind (kget (\<lambda>s. lh_n (lh (klog s)))) (\<lambda>n. if tail < n
     then kseq (kbounds (tail < LOGSIZE)) (kseq (body tail) (kret (Inl (Suc tail)))) else kret (Inr ()))"
  have "\<exists>s'. kloop (Suc k) ?f i s e = Ok () s' e \<and> P n s'" if "P i s" "i \<le> n" "n - i \<le> k" for k i s
    using that
  proof (induction k arbitrary: i s)
    case 0
    then show ?case using count [OF 0(1)] by simp
  next
    case (Suc k)
    show ?case
    proof (cases "i < n")
      case True
      then obtain s1 where s1: "body i s e = Ok () s1 e" "P (Suc i) s1" using step Suc.prems(1) by blast
      have "Suc i \<le> n" "n - Suc i \<le> k" using True Suc.prems(3) by simp_all
      from Suc.IH [OF s1(2) this] obtain s2 where "kloop (Suc k) ?f (Suc i) s1 e = Ok () s2 e" "P n s2"
        by blast
      moreover have "kloop (Suc (Suc k)) ?f i s e = kloop (Suc k) ?f (Suc i) s1 e"
        unfolding kloop.simps(2) [of "Suc k"] using True s1(1) n count [OF Suc.prems(1)]
        by (simp add: kbounds_def del: kloop.simps)
      ultimately show ?thesis by metis
    next
      case False
      then have "i = n" using Suc.prems(2) by simp
      then show ?thesis using Suc.prems(1) count [OF Suc.prems(1)] by auto
    qed
  qed
  moreover have "n - 0 \<le> LOGSIZE" using n by simp
  ultimately show ?thesis using P0 unfolding log_loop_def by blast
qed

section \<open>What the routines of the log write\<close>

definition slot :: "logst \<Rightarrow> nat \<Rightarrow> uint32" where
  "slot l i = lstart l + of_nat i + 1"

definition logged :: "logst \<Rightarrow> uint32 list" where
  "logged l = take (lh_n (lh l)) (lh_block (lh l))"

definition log_area :: "logst \<Rightarrow> nat set" where
  "log_area l = {unat (lstart l) ..< unat (lstart l) + unat (lsize l)}"

text \<open>
  A log on a disk of \<open>sz\<close> blocks: the log's blocks are on the disk, the transaction fits into them
  and leaves one buffer free, its blocks are distinct and none of them belongs to the log.
\<close>

definition log_ok :: "logst \<Rightarrow> nat \<Rightarrow> bool" where
  "log_ok l sz \<longleftrightarrow> ldev l = 1 \<and> lh_n (lh l) < NBUF \<and> lh_n (lh l) < unat (lsize l) \<and>
     length (lh_block (lh l)) = LOGSIZE \<and> unat (lstart l) + unat (lsize l) \<le> sz \<and> sz < 2 ^ 32 \<and>
     distinct (logged l) \<and> (\<forall>b \<in> set (logged l). unat b < sz \<and> unat b \<notin> log_area l)"

lemma log_ok_facts:
  assumes "log_ok l sz"
  shows "lh_n (lh l) \<le> LOGSIZE" "length (logged l) = lh_n (lh l)" "unat (lstart l) < sz"
    and "\<And>i. i < lh_n (lh l) \<Longrightarrow> unat (slot l i) = unat (lstart l) + i + 1"
    and "\<And>i. i < lh_n (lh l) \<Longrightarrow> unat (slot l i) < sz \<and> unat (slot l i) \<in> log_area l"
    and "unat (lstart l) \<in> log_area l"
    and "\<And>i. i < lh_n (lh l) \<Longrightarrow> lh_block (lh l) ! i = logged l ! i \<and> logged l ! i \<in> set (logged l)"
proof -
  show n: "lh_n (lh l) \<le> LOGSIZE" "length (logged l) = lh_n (lh l)"
    using assms by (simp_all add: log_ok_def NBUF_def LOGSIZE_def MAXOPBLOCKS_def logged_def)
  show "unat (lstart l) < sz" "unat (lstart l) \<in> log_area l"
    using assms by (auto simp: log_ok_def log_area_def)
  fix i assume i: "i < lh_n (lh l)"
  have "unat (lstart l) + i + 1 < 2 ^ 32" using assms i by (auto simp: log_ok_def)
  moreover have "slot l i = lstart l + of_nat (i + 1)" by (simp add: slot_def)
  ultimately show u: "unat (slot l i) = unat (lstart l) + i + 1"
    by (simp add: unat_plus_if' unat_of_nat del: of_nat_Suc)
  then show "unat (slot l i) < sz \<and> unat (slot l i) \<in> log_area l"
    using assms i by (auto simp: log_ok_def log_area_def)
  show "lh_block (lh l) ! i = logged l ! i \<and> logged l ! i \<in> set (logged l)"
    using i n(2) nth_mem [of i "logged l"] by (simp add: logged_def)
qed

lemma slot_apart:
  assumes "log_ok l sz" "i < lh_n (lh l)" "j < lh_n (lh l)"
  shows "slot l i \<noteq> logged l ! j" "slot l i \<noteq> lstart l" "lstart l \<noteq> logged l ! j"
    "slot l i = slot l j \<longleftrightarrow> i = j"
proof -
  note f = log_ok_facts [OF assms(1)]
  have "unat (logged l ! j) \<notin> log_area l" using assms(1) f(7) [OF assms(3)] by (simp add: log_ok_def)
  then show "slot l i \<noteq> logged l ! j" "lstart l \<noteq> logged l ! j"
    using f(5) [OF assms(2)] f(6) by metis+
  have "unat (slot l i) \<noteq> unat (lstart l)" using f(4) [OF assms(2)] by simp
  then show "slot l i \<noteq> lstart l" by metis
  have "unat (slot l i) = unat (slot l j) \<longleftrightarrow> i = j" using f(4) [OF assms(2)] f(4) [OF assms(3)] by simp
  then show "slot l i = slot l j \<longleftrightarrow> i = j" by metis
qed

text \<open>A quiet state of the cache: nobody holds a buffer, and only blocks of the transaction are pinned.\<close>

definition quiet :: "logst \<Rightarrow> kernel \<Rightarrow> bool" where
  "quiet l s \<longleftrightarrow> store_inv s \<and> klog s = l \<and> log_ok l (disksize s) \<and>
     vheld (store_view s) = Map.empty \<and> vdirty (store_view s) \<subseteq> set (logged l)"

lemma store_clean:
  assumes inv: "store_inv s" and h: "vheld (store_view s) = Map.empty"
  shows "vclean (store_view s) k"
proof (cases "\<exists>i < NBUF. bdev (bufs s ! i) = 1 \<and> blockno (bufs s ! i) = k")
  case True
  then obtain i where i: "i < NBUF" "bdev (bufs s ! i) = 1" "blockno (bufs s ! i) = k" by blast
  have bi: "bc_inv (bufs s)" using inv by (simp add: store_inv_def)
  have "vheld (store_view s) i = None" using h by (simp del: store_view_sel)
  then have "refcnt (bufs s ! i) = 0" using i(1) by (simp split: if_splits)
  moreover have "buf_ok s (bufs s ! i)" using inv i(1) by (simp add: store_inv_def)
  ultimately show ?thesis
    using i blk_data_at [OF bi i] by (auto simp: vclean_def buf_ok_def)
next
  case False
  then show ?thesis
    using inv blk_data_uncached [of s k] by (auto simp: vclean_def store_inv_def)
qed

lemma quiet_clean: "quiet l s \<Longrightarrow> vclean (store_view s) k"
  using store_clean by (simp add: quiet_def del: store_view_sel)

lemma quiet_card:
  assumes "quiet l s" "A \<subseteq> insert k (set (logged l))"
  shows "finite (vdirty (store_view s))" "card (A \<union> vdirty (store_view s)) \<le> NBUF"
    "card (vdirty (store_view s)) < NBUF"
proof -
  have D: "vdirty (store_view s) \<subseteq> set (logged l)" and ok: "log_ok l (disksize s)"
    using assms(1) by (simp_all add: quiet_def del: store_view_sel)
  show "finite (vdirty (store_view s))" using D finite_subset by blast
  have c: "card (set (logged l)) < NBUF"
    using card_length [of "logged l"] log_ok_facts(2) [OF ok] ok by (simp add: log_ok_def)
  have "card (A \<union> vdirty (store_view s)) \<le> card (insert k (set (logged l)))"
    using assms(2) D by (intro card_mono) auto
  also have "\<dots> \<le> NBUF" using c by (simp add: card_insert_if)
  finally show "card (A \<union> vdirty (store_view s)) \<le> NBUF" .
  show "card (vdirty (store_view s)) < NBUF" using card_mono [OF _ D] c by simp
qed

text \<open>A quiet state stays quiet when blocks are written.\<close>

lemma quiet_puts:
  assumes "quiet l s" "store_inv t" "store_frame s t" "store_view t = v_puts ps (store_view s)"
  shows "quiet l t"
  using assms store_frameD [OF assms(3)] by (auto simp: quiet_def simp del: store_view_sel)

lemma v_puts_snoc: "v_puts (ps @ [(k, x)]) v = v_write k (v_set k x (v_puts ps v))"
  by (simp add: v_puts_def)

text \<open>
  Copying blocks one after the other inside one of the loops: block \<open>src i\<close> to block \<open>dst i\<close>.
\<close>

lemma copy_loop:
  fixes src dst :: "nat \<Rightarrow> uint32"
  assumes q: "quiet l s" and n: "n = lh_n (lh l)"
    and ok: "\<And>i. i < n \<Longrightarrow> unat (src i) < disksize s \<and> unat (dst i) < disksize s"
    and apart: "\<And>i j. i < n \<Longrightarrow> j < n \<Longrightarrow> src i \<noteq> dst j"
    and room: "\<And>i. i < n \<Longrightarrow> src i \<in> set (logged l) \<or> dst i \<in> set (logged l)"
    and body: "\<And>i t. i < n \<Longrightarrow> klog t = l \<Longrightarrow> body i t e =
        kbind (bread 1 (dst i)) (\<lambda>d. kbind (bread 1 (src i)) (\<lambda>b. kbind (kget (\<lambda>s. bdata (bufs s ! b))) (\<lambda>x.
          kseq (set_data d x) (kseq (bwrite d) (kseq (brelse b) (brelse d)))))) t e \<or>
      body i t e =
        kbind (bread 1 (src i)) (\<lambda>b. kbind (bread 1 (dst i)) (\<lambda>d. kbind (kget (\<lambda>s. bdata (bufs s ! b))) (\<lambda>x.
          kseq (set_data d x) (kseq (bwrite d) (kseq (brelse b) (brelse d)))))) t e"
  shows "\<exists>s'. log_loop body s e = Ok () s' e \<and> quiet l s' \<and> store_frame s s' \<and>
    store_view s' = v_puts (map (\<lambda>i. (dst i, vdata (store_view s) (src i))) [0..<n]) (store_view s)"
proof -
  let ?ps = "\<lambda>i. map (\<lambda>i. (dst i, vdata (store_view s) (src i))) [0..<i]"
  let ?P = "\<lambda>i t. quiet l t \<and> store_frame s t \<and> store_view t = v_puts (?ps i) (store_view s)"
  have lok: "log_ok l (disksize s)" using q by (simp add: quiet_def)
  have "\<exists>s'. log_loop body s e = Ok () s' e \<and> ?P n s'"
  proof (rule log_loop_rule)
    show "n \<le> LOGSIZE" using log_ok_facts(1) [OF lok] n by simp
    show "?P 0 s" using q store_frame_refl by (simp add: v_puts_def)
    show "lh_n (lh (klog t)) = n" if "?P i t" for i t using that n by (simp add: quiet_def)
    fix i t assume i: "i < n" and P: "?P i t"
    then have qt: "quiet l t" and kl: "klog t = l" and inv: "store_inv t" and sz: "disksize t = disksize s"
      using store_frameD by (auto simp: quiet_def simp del: store_view_sel)
    have b: "unat (src i) < vsize (store_view t)" "unat (dst i) < vsize (store_view t)" "src i \<noteq> dst i"
      "vheld (store_view t) = Map.empty"
      using ok [OF i] apart [OF i i] sz qt by (simp_all add: quiet_def)
    obtain k where "{src i, dst i} \<subseteq> insert k (set (logged l))" using room [OF i] by blast
    from quiet_card(1,2) [OF qt this]
    have c: "finite (vdirty (store_view t))" "card (insert (src i) (insert (dst i) (vdirty (store_view t)))) \<le> NBUF"
      by simp_all
    note cb = bcache.copy_block [OF inv b(1,2,3,4) quiet_clean [OF qt] c, of e]
    have vt: "store_view t = v_puts (?ps i) (store_view s)" and ft: "store_frame s t" using P by blast+
    have "src i \<notin> fst ` set (?ps i)" 
    proof
      assume "src i \<in> fst ` set (?ps i)"
      then obtain j where "j < i" "src i = dst j" by auto
      then show False using apart [OF i, of j] i by simp
    qed
    then have d: "vdata (store_view t) (src i) = vdata (store_view s) (src i)"
      unfolding vt by (rule v_puts_data_other)
    have "\<exists>t'. body i t e = Ok () t' e \<and> store_inv t' \<and> store_frame t t' \<and>
      store_view t' = v_write (dst i) (v_set (dst i) (vdata (store_view t) (src i)) (store_view t))"
      by (rule disjE [OF body [OF i kl]]; simp only:; rule cb)
    then obtain t' where t': "body i t e = Ok () t' e" "store_inv t'" "store_frame t t'"
      "store_view t' = v_write (dst i) (v_set (dst i) (vdata (store_view t) (src i)) (store_view t))"
      by blast
    have ps: "?ps (Suc i) = ?ps i @ [(dst i, vdata (store_view s) (src i))]" by simp
    have v1: "store_view t' = v_puts [(dst i, vdata (store_view t) (src i))] (store_view t)"
      unfolding t'(4) by (simp add: v_puts_def del: store_view_sel)
    have v2: "store_view t' = v_puts (?ps (Suc i)) (store_view s)"
      unfolding ps v_puts_snoc vt [symmetric] d [symmetric] by (rule t'(4))
    have "?P (Suc i) t'"
      using quiet_puts [OF qt t'(2,3) v1] store_frame_trans [OF ft t'(3)] v2 by (intro conjI)
    then show "\<exists>s'. body i t e = Ok () s' e \<and> ?P (Suc i) s'" using t'(1) by blast
  qed
  then show ?thesis by blast
qed

lemma write_log_puts:
  assumes q: "quiet l s"
  shows "\<exists>s'. write_log s e = Ok () s' e \<and> quiet l s' \<and> store_frame s s' \<and> store_view s' =
    v_puts (map (\<lambda>i. (slot l i, vdata (store_view s) (logged l ! i))) [0..<lh_n (lh l)]) (store_view s)"
proof -
  have ok: "log_ok l (disksize s)" using q by (simp add: quiet_def)
  note f = log_ok_facts [OF ok]
  show ?thesis unfolding write_log_def
  proof (rule copy_loop [OF q refl])
    fix i assume i: "i < lh_n (lh l)"
    show "unat (logged l ! i) < disksize s \<and> unat (slot l i) < disksize s"
      using f(5,7) [OF i] ok by (simp add: log_ok_def)
    show "logged l ! i \<noteq> slot l j" if "j < lh_n (lh l)" for j using slot_apart(1) [OF ok that i] by simp
    show "logged l ! i \<in> set (logged l) \<or> slot l i \<in> set (logged l)" using f(7) [OF i] by simp
  qed (use ok f(7) in \<open>simp add: slot_def log_ok_def\<close>)
qed

lemma install_trans_puts:
  assumes q: "quiet l s"
  shows "\<exists>s'. install_trans s e = Ok () s' e \<and> quiet l s' \<and> store_frame s s' \<and> store_view s' =
    v_puts (map (\<lambda>i. (logged l ! i, vdata (store_view s) (slot l i))) [0..<lh_n (lh l)]) (store_view s)"
proof -
  have ok: "log_ok l (disksize s)" using q by (simp add: quiet_def)
  note f = log_ok_facts [OF ok]
  show ?thesis unfolding install_trans_def
  proof (rule copy_loop [OF q refl])
    fix i assume i: "i < lh_n (lh l)"
    show "unat (slot l i) < disksize s \<and> unat (logged l ! i) < disksize s"
      using f(5,7) [OF i] ok by (simp add: log_ok_def)
    show "slot l i \<noteq> logged l ! j" if "j < lh_n (lh l)" for j using slot_apart(1) [OF ok i that] .
    show "slot l i \<in> set (logged l) \<or> logged l ! i \<in> set (logged l)" using f(7) [OF i] by simp
  qed (use ok f(7) in \<open>simp add: slot_def log_ok_def\<close>)
qed

lemma kbind_kget: "kbind (kget f) g s e = g (f s) s e"
  by simp

lemma length_encode_head [simp]: "length (encode_head h x) = length x"
  by (simp add: encode_head_def)

lemma write_head_puts:
  assumes q: "quiet l s"
  shows "\<exists>s'. write_head s e = Ok () s' e \<and> quiet l s' \<and> store_frame s s' \<and> store_view s' =
    v_puts [(lstart l, encode_head (lh l) (vdata (store_view s) (lstart l)))] (store_view s)"
proof -
  have ok: "log_ok l (disksize s)" and inv: "store_inv s" and k: "klog s = l"
    using q by (simp_all add: quiet_def)
  note f = log_ok_facts [OF ok]
  have "vroom (store_view s)"
    using quiet_card(3) [OF q, of "{}" 0] q by (simp add: vroom_def quiet_def del: store_view_sel ran_store_view)
  then obtain s' where s': "kbind (bread 1 (lstart l)) (\<lambda>b. kbind (kget (\<lambda>s. bdata (bufs s ! b))) (\<lambda>x.
      kseq (set_data b (encode_head (lh l) x)) (kseq (bwrite b) (brelse b)))) s e = Ok () s' e"
    "store_inv s'" "store_frame s s'" "store_view s' = v_write (lstart l)
      (v_set (lstart l) (encode_head (lh l) (vdata (store_view s) (lstart l))) (store_view s))"
    using bcache.rewrite_block [OF inv, of "lstart l" "encode_head (lh l)" e] f(3) q
    by (auto simp: quiet_def simp del: ran_store_view store_view_sel simp: store_view_sel(6))
  have v: "store_view s' = v_puts [(lstart l, encode_head (lh l) (vdata (store_view s) (lstart l)))] (store_view s)"
    using s'(4) by (simp add: v_puts_def)
  have "kseq (kbounds (lh_n (lh l) \<le> LOGSIZE)) m = m" for m :: "unit kern"
    using f(1) by (intro ext) (simp add: kbounds_def)
  moreover have "ldev l = 1" using ok by (simp add: log_ok_def)
  ultimately have "write_head s e = Ok () s' e"
    using s'(1) unfolding write_head_def kbind_kget k by (simp only:)
  then show ?thesis using quiet_puts [OF q s'(2,3) v] s'(3) v by blast
qed

section \<open>Commit and recovery\<close>

text \<open>The block writes of \<^verbatim>\<open>commit\<close>, and the state of the log afterwards.\<close>

definition empty_log :: "logst \<Rightarrow> logst" where
  "empty_log l = l\<lparr>lh := (lh l)\<lparr>lh_n := 0\<rparr>\<rparr>"

definition commit_log :: "logst \<Rightarrow> (uint32 \<Rightarrow> uchar list) \<Rightarrow> (uint32 \<times> uchar list) list" where
  "commit_log l D = map (\<lambda>i. (slot l i, D (logged l ! i))) [0..<lh_n (lh l)]"

definition commit_home :: "logst \<Rightarrow> (uint32 \<Rightarrow> uchar list) \<Rightarrow> (uint32 \<times> uchar list) list" where
  "commit_home l D = map (\<lambda>i. (logged l ! i, D (logged l ! i))) [0..<lh_n (lh l)]"

definition commit_puts :: "logst \<Rightarrow> (uint32 \<Rightarrow> uchar list) \<Rightarrow> (uint32 \<times> uchar list) list" where
  "commit_puts l D = commit_log l D @ [(lstart l, encode_head (lh l) (D (lstart l)))] @
     commit_home l D @ [(lstart l, encode_head (lh (empty_log l)) (encode_head (lh l) (D (lstart l))))]"

lemma store_upd_log [simp]:
  "store_inv (upd_log f s) = store_inv s" "store_view (upd_log f s) = store_view s"
proof -
  have "blk_data (upd_log f s) k = blk_data s k" for k
    by (simp add: blk_data_def upd_log_def split: option.splits)
  then show "store_view (upd_log f s) = store_view s" by (intro bview.equality) (auto simp: upd_log_def)
  show "store_inv (upd_log f s) = store_inv s" by (simp add: store_inv_def buf_ok_def upd_log_def)
qed

lemma quiet_empty_log:
  assumes "quiet l s" "vdirty (store_view s) = {}"
  shows "quiet (empty_log l) (upd_lh (\<lambda>h. h\<lparr>lh_n := 0\<rparr>) s)"
  using assms
  by (auto simp: quiet_def upd_lh_def empty_log_def log_ok_def logged_def simp del: store_view_sel)
    (auto simp: upd_log_def)

lemma commit_data:
  fixes v :: bview
  assumes ok: "log_ok l sz" and n: "n = lh_n (lh l)"
  defines "v1 \<equiv> v_puts (commit_log l (vdata v)) v"
  shows "vdata v1 (lstart l) = vdata v (lstart l)"
    and "i < n \<Longrightarrow> vdata (v_puts [(lstart l, x)] v1) (slot l i) = vdata v (logged l ! i)"
    and "vdata (v_puts (commit_home l (vdata v)) (v_puts [(lstart l, x)] v1)) (lstart l) = x"
proof -
  have fl: "fst ` set (commit_log l D) = slot l ` {..<n}" "fst ` set (commit_home l D) = (\<lambda>i. logged l ! i) ` {..<n}" for D
    by (simp_all add: commit_log_def commit_home_def n image_image atLeast0LessThan)
  have "lstart l \<notin> slot l ` {..<n}" using slot_apart(2) [OF ok] n by (metis imageE lessThan_iff)
  then show "vdata v1 (lstart l) = vdata v (lstart l)" by (simp add: v1_def v_puts_data_other fl)
  have "lstart l \<notin> (\<lambda>i. logged l ! i) ` {..<n}" using slot_apart(3) [OF ok] n by (metis imageE lessThan_iff)
  then show "vdata (v_puts (commit_home l (vdata v)) (v_puts [(lstart l, x)] v1)) (lstart l) = x"
    using v_puts_data_same [of 0 "[(lstart l, x)]" v1] by (simp add: v_puts_data_other fl)
  assume i: "i < n"
  have "distinct (map fst (commit_log l (vdata v)))"
    using slot_apart(4) [OF ok] n by (auto simp: commit_log_def o_def distinct_map inj_on_def)
  then have "vdata v1 (slot l i) = vdata v (logged l ! i)"
    using v_puts_data_same [of i "commit_log l (vdata v)" v] i n by (simp add: commit_log_def v1_def)
  moreover have "slot l i \<noteq> lstart l" using slot_apart(2) [OF ok] i n by simp
  ultimately show "vdata (v_puts [(lstart l, x)] v1) (slot l i) = vdata v (logged l ! i)"
    by (simp add: v_puts_data_other)
qed

lemma commit_exact:
  assumes q: "quiet l s" and n: "0 < lh_n (lh l)"
  shows "\<exists>s'. commit s e = Ok () s' e \<and> quiet (empty_log l) s' \<and>
    store_view s' = v_puts (commit_puts l (blk_data s)) (store_view s)"
proof -
  let ?D = "vdata (store_view s)" and ?n = "lh_n (lh l)"
  have ok: "log_ok l (disksize s)" using q by (simp add: quiet_def)
  note cd = commit_data [OF ok refl, where v = "store_view s"]
  obtain s1 where 1: "write_log s e = Ok () s1 e" "quiet l s1"
    "store_view s1 = v_puts (commit_log l ?D) (store_view s)"
    using write_log_puts [OF q, of e] unfolding commit_log_def by blast
  obtain s2 where 2: "write_head s1 e = Ok () s2 e" "quiet l s2"
    "store_view s2 = v_puts [(lstart l, encode_head (lh l) (?D (lstart l)))] (store_view s1)"
    using write_head_puts [OF 1(2), of e] unfolding 1(3) cd(1) by blast
  have "map (\<lambda>i. (logged l ! i, vdata (store_view s2) (slot l i))) [0..<?n] = commit_home l ?D"
    unfolding commit_home_def 2(3) 1(3) using cd(2) by simp
  then obtain s3 where 3: "install_trans s2 e = Ok () s3 e" "quiet l s3"
    "store_view s3 = v_puts (commit_home l ?D) (store_view s2)"
    using install_trans_puts [OF 2(2), of e] by metis
  let ?s4 = "upd_lh (\<lambda>h. h\<lparr>lh_n := 0\<rparr>) s3"
  have "fst ` set (commit_home l ?D) = set (logged l)"
    using log_ok_facts(2) [OF ok] nth_image [of ?n "logged l"] by (simp add: commit_home_def image_image)
  then have "vdirty (store_view s3) = {}"
    unfolding 3(3) v_puts_sel using 2(2) by (auto simp: quiet_def simp del: store_view_sel)
  then have q4: "quiet (empty_log l) ?s4" using 3(2) by (intro quiet_empty_log)
  have v4: "store_view ?s4 = store_view s3" by (simp add: upd_lh_def)
  have "lstart (empty_log l) = lstart l" by (simp add: empty_log_def)
  then obtain s5 where 5: "write_head ?s4 e = Ok () s5 e" "quiet (empty_log l) s5"
    "store_view s5 = v_puts [(lstart l, encode_head (lh (empty_log l)) (encode_head (lh l) (?D (lstart l))))] (store_view s3)"
    using write_head_puts [OF q4, of e] cd(3) unfolding v4 3(3) 2(3) 1(3) by metis
  have "klog s = l" using q by (simp add: quiet_def)
  then have "commit s e = Ok () s5 e"
    using 1(1) 2(1) 3(1) 5(1) n by (simp add: commit_def)
  moreover have "store_view s5 = v_puts (commit_puts l ?D) (store_view s)"
    unfolding 5(3) 3(3) 2(3) 1(3) commit_puts_def v_puts_append ..
  ultimately show ?thesis using 5(2) by auto
qed

text \<open>The state of the log after \<^verbatim>\<open>read_head\<close> has found the header \<open>x\<close> on the disk.\<close>

definition disk_log :: "logst \<Rightarrow> uchar list \<Rightarrow> logst" where
  "disk_log l x = (let n = nat (sint (get32 x 0)) in
     l\<lparr>lh := (lh l)\<lparr>lh_n := n, lh_block := get32s x 4 n @ drop n (lh_block (lh l))\<rparr>\<rparr>)"

text \<open>A kernel that has just started on the disk \<open>d\<close>: nothing is held or pinned in the cache.\<close>

definition restarted :: "logst \<Rightarrow> (nat \<Rightarrow> uchar list) \<Rightarrow> nat \<Rightarrow> kernel \<Rightarrow> bool" where
  "restarted l d sz t \<longleftrightarrow> store_inv t \<and> vheld (store_view t) = Map.empty \<and> vdirty (store_view t) = {} \<and>
     memdisk t = d \<and> disksize t = sz \<and> lstart (klog t) = lstart l \<and> lsize (klog t) = lsize l \<and>
     ldev (klog t) = 1 \<and> length (lh_block (lh (klog t))) = LOGSIZE"

lemma read_head_exact:
  assumes r: "restarted l d sz t" and ok: "log_ok (disk_log (klog t) (d (unat (lstart l)))) sz"
  shows "\<exists>t'. read_head t e = Ok () t' e \<and> store_view t' = store_view t \<and>
    quiet (disk_log (klog t) (d (unat (lstart l)))) t'"
proof -
  let ?H = "lstart l" and ?L = "disk_log (klog t) (d (unat (lstart l)))"
  let ?n = "lh_n (lh ?L)"
  have inv: "store_inv t" and h: "vheld (store_view t) = Map.empty" and dirty: "vdirty (store_view t) = {}"
    and k: "lstart (klog t) = ?H" "ldev (klog t) = 1" and sz: "disksize t = sz" and d: "memdisk t = d"
    using r by (simp_all add: restarted_def del: store_view_sel)
  have "lstart ?L = ?H" using k by (simp add: disk_log_def Let_def)
  then have H: "unat ?H < vsize (store_view t)" using log_ok_facts(3) [OF ok] sz by simp
  have cl: "vclean (store_view t) ?H" by (rule store_clean [OF inv h])
  have "0 < NBUF" by (simp add: NBUF_def MAXOPBLOCKS_def)
  then have room: "vroom (store_view t)" using h dirty by (simp add: vroom_def del: store_view_sel ran_store_view)
  obtain b t1 where 1: "bread 1 ?H t e = Ok b t1 e" "store_inv t1" "store_frame t t1"
    "store_view t1 = (store_view t)\<lparr>vheld := [b \<mapsto> ?H]\<rparr>"
    using bcache.rd_law [OF inv H, of e] h room by (auto simp del: ran_store_view store_view_sel)
  have h1: "vheld (store_view t1) b = Some ?H" unfolding 1(4) by simp
  have "d (unat ?H) = vdata (store_view t) ?H" using cl unfolding vclean_def dirty by (simp add: d)
  then have x: "bdata (bufs t1 ! b) = d (unat ?H)"
    using bcache.data_law [OF 1(2) h1] unfolding 1(4) by simp
  let ?t2 = "upd_log (\<lambda>_. ?L) t1"
  have "store_inv ?t2" "vheld (store_view ?t2) b = Some ?H" "vclean (store_view ?t2) ?H"
    using 1(2) h1 cl unfolding store_upd_log 1(4) by (simp_all add: vclean_def)
  from bcache.rel_law [OF this, of e] obtain t3 where 3: "brelse b ?t2 e = Ok () t3 e" "store_inv t3"
    "store_frame ?t2 t3" "store_view t3 = (store_view ?t2)\<lparr>vheld := (vheld (store_view ?t2))(b := None)\<rparr>" by blast
  have v3: "store_view t3 = store_view t"
    unfolding 3(4) store_upd_log 1(4) by (rule bview.equality) (simp_all add: h)
  have kl: "klog t1 = klog t" using store_frameD(1) [OF 1(3)] .
  have "nat (sint (get32 (d (unat ?H)) 0)) \<le> LOGSIZE"
    using log_ok_facts(1) [OF ok] by (simp add: disk_log_def Let_def)
  then have "read_head t e = brelse b ?t2 e"
    unfolding read_head_def kbind_kget k using 1(1) x kl
    by (simp add: kseq_def kbounds_def Let_def upd_lh_def upd_log_def disk_log_def)
  moreover have "klog t3 = ?L" "disksize t3 = sz"
    using store_frameD(1,5) [OF 3(3)] store_frameD(5) [OF 1(3)] sz by (simp_all add: upd_log_def)
  then have "quiet ?L t3"
    using 3(2) v3 h dirty ok by (simp add: quiet_def del: store_view_sel)
  ultimately show ?thesis using 3(1) v3 by auto
qed

lemma recover_exact:
  assumes r: "restarted l d sz t"
  defines "L \<equiv> disk_log (klog t) (d (unat (lstart l)))"
  assumes ok: "log_ok L sz"
  shows "\<exists>t'. recover_from_log t e = Ok () t' e \<and> quiet (empty_log L) t' \<and> (\<exists>x. store_view t' =
    v_puts (map (\<lambda>i. (logged L ! i, d (unat (slot L i)))) [0..<lh_n (lh L)] @ [(lstart l, x)]) (store_view t))"
proof -
  let ?ps = "map (\<lambda>i. (logged L ! i, d (unat (slot L i)))) [0..<lh_n (lh L)]"
  obtain t1 where 1: "read_head t e = Ok () t1 e" "store_view t1 = store_view t" "quiet L t1"
    using read_head_exact [OF r ok [unfolded L_def], of e, folded L_def] by blast
  have t: "store_inv t" "vheld (store_view t) = Map.empty" "vdirty (store_view t) = {}" "vdisk (store_view t) = d"
    using r by (simp_all add: restarted_def del: store_view_sel(1,2,3))
  have "vdata (store_view t) k = d (unat k)" for k
    using store_clean [OF t(1,2), of k] unfolding vclean_def t(3,4) by simp
  then have ps: "map (\<lambda>i. (logged L ! i, vdata (store_view t) (slot L i))) [0..<lh_n (lh L)] = ?ps"
    by (simp only:)
  obtain t2 where 2: "install_trans t1 e = Ok () t2 e" "quiet L t2" "store_view t2 = v_puts ?ps (store_view t)"
    using install_trans_puts [OF 1(3), of e] unfolding 1(2) ps by blast
  let ?t3 = "upd_lh (\<lambda>h. h\<lparr>lh_n := 0\<rparr>) t2"
  have "vdirty (store_view t2) = {}"
    unfolding 2(3) v_puts_sel t(3) by simp
  then have q3: "quiet (empty_log L) ?t3" using 2(2) by (intro quiet_empty_log)
  have v3: "store_view ?t3 = store_view t2" by (simp add: upd_lh_def)
  have ls: "lstart (empty_log L) = lstart l"
    using r by (simp add: empty_log_def L_def disk_log_def Let_def restarted_def)
  obtain t4 where 4: "write_head ?t3 e = Ok () t4 e" "quiet (empty_log L) t4"
    "\<exists>x. store_view t4 = v_puts [(lstart l, x)] (store_view t2)"
    using write_head_puts [OF q3, of e] unfolding v3 ls by blast
  have "recover_from_log t e = Ok () t4 e"
    using 1(1) 2(1) 4(1) by (simp add: recover_from_log_def)
  moreover obtain x where "store_view t4 = v_puts (?ps @ [(lstart l, x)]) (store_view t)"
    using 4(3) unfolding 2(3) v_puts_append by blast
  ultimately show ?thesis using 4(2) by blast
qed

section \<open>Crashes\<close>

lemma head_count:
  assumes "lh_n h \<le> LOGSIZE" "length x = BSIZE"
  shows "nat (sint (get32 (encode_head h x) 0)) = lh_n h"
proof -
  have "get32 (encode_head h x) 0 = of_nat (lh_n h)"
    using assms by (simp add: encode_head_def get_put32s_other BSIZE_def)
  moreover have "sint (of_nat (lh_n h) :: uint32) = int (lh_n h)"
    using assms(1) by (simp add: LOGSIZE_def MAXOPBLOCKS_def signed_of_nat signed_take_bit_int_eq_self)
  ultimately show ?thesis by simp
qed

lemma head_blocks:
  assumes "lh_n h \<le> LOGSIZE" "length x = BSIZE" "length (lh_block h) = LOGSIZE"
  shows "get32s (encode_head h x) 4 (lh_n h) = take (lh_n h) (lh_block h)"
  using assms by (simp add: encode_head_def BSIZE_def LOGSIZE_def MAXOPBLOCKS_def)

lemma apply_writes_cong:
  "b \<in> fst ` set ws \<or> d b = d' b \<Longrightarrow> apply_writes ws d b = apply_writes ws d' b"
proof (induction ws arbitrary: d d')
  case (Cons w ws)
  show ?case unfolding apply_writes_simps by (rule Cons.IH) (use Cons.prems in auto)
qed simp

lemma fst_raw: "fst ` set (raw ps) = unat ` fst ` set ps"
  by (force simp: raw_def image_iff)

text \<open>The three phases of the writes of a commit.\<close>

lemma take_commit_puts:
  obtains (log) j where "take k (commit_puts l D) = take j (commit_log l D)"
  | (install) j where "take k (commit_puts l D) =
      commit_log l D @ (lstart l, encode_head (lh l) (D (lstart l))) # take j (commit_home l D)"
  | (finished) "take k (commit_puts l D) = commit_puts l D"
proof -
  let ?n = "lh_n (lh l)"
  have len: "length (commit_log l D) = ?n" "length (commit_home l D) = ?n"
    by (simp_all add: commit_log_def commit_home_def)
  consider "k \<le> ?n" | j where "k = Suc (?n + j)" "j \<le> ?n" | "2 * ?n + 2 \<le> k"
  proof (cases "k \<le> ?n")
    case False
    then obtain j where "k = Suc (?n + j)" by (metis less_imp_Suc_add not_le)
    then show ?thesis using that by (cases "j \<le> ?n") auto
  qed
  then show ?thesis
  proof cases
    case 1
    then show ?thesis using log [of k] len by (simp add: commit_puts_def)
  next
    case (2 j)
    then show ?thesis using install [of j] len by (simp add: commit_puts_def)
  next
    case 3
    then show ?thesis using finished len by (simp add: commit_puts_def)
  qed
qed

lemma puts_outside_log:
  assumes ok: "log_ok l sz" and b: "b \<notin> log_area l"
  shows "apply_writes (raw (take j (commit_log l D))) d b = d b"
    and "apply_writes (raw ((lstart l, x) # ps)) d b = apply_writes (raw ps) d b"
    and "apply_writes (raw (ps @ [(lstart l, x)])) d b = apply_writes (raw ps) d b"
proof -
  note f = log_ok_facts [OF ok]
  have H: "b \<noteq> unat (lstart l)" using f(6) b by auto
  have "b \<notin> unat ` fst ` set (take j (commit_log l D))"
  proof
    assume "b \<in> unat ` fst ` set (take j (commit_log l D))"
    then obtain i where "i < lh_n (lh l)" "b = unat (slot l i)"
      by (auto simp: commit_log_def dest!: in_set_takeD)
    then show False using f(5) b by blast
  qed
  then show "apply_writes (raw (take j (commit_log l D))) d b = d b"
    by (intro apply_writes_other) (simp add: fst_raw)
  show "apply_writes (raw ((lstart l, x) # ps)) d b = apply_writes (raw ps) d b"
    using H by (simp add: apply_writes_cong)
  show "apply_writes (raw (ps @ [(lstart l, x)])) d b = apply_writes (raw ps) d b"
    using H by simp
qed

text \<open>What recovery finds and does in each phase.\<close>

definition agree :: "logst \<Rightarrow> (nat \<Rightarrow> uchar list) \<Rightarrow> (nat \<Rightarrow> uchar list) \<Rightarrow> bool" where
  "agree l d d' \<longleftrightarrow> (\<forall>b. b \<notin> log_area l \<longrightarrow> d b = d' b)"

lemma recover_empty:
  assumes ok: "log_ok l sz" and r: "restarted l d sz t" and n: "nat (sint (get32 (d (unat (lstart l))) 0)) = 0"
  shows "\<exists>t'. recover_from_log t e = Ok () t' e \<and> agree l (memdisk t') d"
proof -
  let ?L = "disk_log (klog t) (d (unat (lstart l)))"
  have L: "lh_n (lh ?L) = 0" "logged ?L = []" using n by (simp_all add: disk_log_def Let_def logged_def)
  have "log_ok ?L sz"
    using ok r L n by (auto simp: log_ok_def restarted_def disk_log_def Let_def logged_def log_area_def)
  from recover_exact [OF r this, of e] obtain t' x where t': "recover_from_log t e = Ok () t' e"
    "store_view t' = v_puts [(lstart l, x)] (store_view t)" unfolding L by auto
  have "memdisk t' = d(unat (lstart l) := x)"
    using arg_cong [OF t'(2), of vdisk] r by (simp add: restarted_def)
  then show ?thesis using t'(1) log_ok_facts(6) [OF ok] by (auto simp: agree_def)
qed

lemma recover_committed:
  assumes ok: "log_ok l sz" and r: "restarted l d sz t" and x: "length x = BSIZE"
    and hd: "d (unat (lstart l)) = encode_head (lh l) x"
    and slots: "\<And>i. i < lh_n (lh l) \<Longrightarrow> d (unat (slot l i)) = D (logged l ! i)"
  shows "\<exists>t'. recover_from_log t e = Ok () t' e \<and> agree l (memdisk t') (apply_writes (raw (commit_home l D)) d)"
proof -
  let ?L = "disk_log (klog t) (d (unat (lstart l)))" and ?n = "lh_n (lh l)"
  note f = log_ok_facts [OF ok]
  have len: "length (lh_block (lh l)) = LOGSIZE" using ok by (simp add: log_ok_def)
  have L: "lh_n (lh ?L) = ?n" "logged ?L = logged l" "slot ?L = slot l"
    using head_count [OF f(1) x] head_blocks [OF f(1) x len] r hd len f(1)
    by (auto simp: disk_log_def Let_def logged_def slot_def restarted_def fun_eq_iff)
  have "log_ok ?L sz"
    using ok r L f(1) by (auto simp: log_ok_def restarted_def log_area_def disk_log_def Let_def)
  from recover_exact [OF r this, of e] obtain t' y where t': "recover_from_log t e = Ok () t' e"
    "store_view t' = v_puts (map (\<lambda>i. (logged l ! i, d (unat (slot l i)))) [0..<?n] @ [(lstart l, y)]) (store_view t)"
    unfolding L by auto
  have "map (\<lambda>i. (logged l ! i, d (unat (slot l i)))) [0..<?n] = commit_home l D"
    using slots by (simp add: commit_home_def)
  then have "memdisk t' = apply_writes (raw (commit_home l D @ [(lstart l, y)])) d"
    using arg_cong [OF t'(2), of vdisk] r by (simp add: restarted_def)
  then show ?thesis using t'(1) puts_outside_log(3) [OF ok] by (auto simp: agree_def simp del: raw_simps)
qed

lemma commit_puts_outside:
  assumes ok: "log_ok l sz" and b: "b \<notin> log_area l"
  shows "apply_writes (raw (commit_puts l D)) d b = apply_writes (raw (commit_home l D)) d b"
proof -
  have "apply_writes (raw (commit_log l D)) d b = d b"
    using puts_outside_log(1) [OF ok b, of "length (commit_log l D)" D d] by simp
  moreover have "b \<noteq> unat (lstart l)" using log_ok_facts(6) [OF ok] b by auto
  ultimately show ?thesis by (simp add: commit_puts_def apply_writes_cong)
qed

lemma commit_home_data:
  assumes ok: "log_ok l sz" and b: "b \<in> set (logged l)"
  shows "apply_writes (raw (commit_home l D)) d (unat b) = D b"
proof -
  obtain i where i: "i < lh_n (lh l)" "b = logged l ! i"
    using b log_ok_facts(2) [OF ok] by (auto simp: in_set_conv_nth)
  have "distinct (logged l)" "length (logged l) = lh_n (lh l)"
    using ok log_ok_facts(2) [OF ok] by (simp_all add: log_ok_def)
  then have "distinct (map fst (raw (commit_home l D)))"
    by (auto simp: raw_def commit_home_def o_def distinct_map inj_on_def nth_eq_iff_index_eq
        word_unat_eq_iff [symmetric])
  then show ?thesis
    using apply_writes_same [of i "raw (commit_home l D)" d] i
    by (simp add: raw_def commit_home_def)
qed

text \<open>Recovery after any prefix of a commit's writes, phase by phase.\<close>

lemma agree_trans: "agree l d1 d2 \<Longrightarrow> (\<And>b. b \<notin> log_area l \<Longrightarrow> d2 b = d3 b) \<Longrightarrow> agree l d1 d3"
  by (simp add: agree_def)

lemma slots_written:
  assumes ok: "log_ok l sz" and i: "i < lh_n (lh l)"
  shows "apply_writes (raw (commit_log l D)) d (unat (slot l i)) = D (logged l ! i)"
proof -
  have "distinct (map fst (raw (commit_log l D)))"
    using log_ok_facts(4) [OF ok] by (auto simp: raw_def commit_log_def o_def distinct_map inj_on_def)
  then show ?thesis
    using apply_writes_same [of i "raw (commit_log l D)" d] i by (simp add: raw_def commit_log_def)
qed

lemma recover_log_phase:
  assumes ok: "log_ok l sz" and empty: "get32 (d (unat (lstart l))) 0 = 0"
    and r: "restarted l (apply_writes (raw (take j (commit_log l D))) d) sz t"
  shows "\<exists>t'. recover_from_log t e = Ok () t' e \<and> agree l (memdisk t') d"
proof -
  let ?d = "apply_writes (raw (take j (commit_log l D))) d"
  have "unat (lstart l) \<notin> unat ` fst ` set (take j (commit_log l D))"
  proof
    assume "unat (lstart l) \<in> unat ` fst ` set (take j (commit_log l D))"
    then obtain i where "i < lh_n (lh l)" "unat (lstart l) = unat (slot l i)"
      by (auto simp: commit_log_def dest!: in_set_takeD)
    then show False using log_ok_facts(4) [OF ok] by simp
  qed
  then have "?d (unat (lstart l)) = d (unat (lstart l))"
    by (intro apply_writes_other) (simp add: fst_raw)
  then have "nat (sint (get32 (?d (unat (lstart l))) 0)) = 0" using empty by simp
  from recover_empty [OF ok r this, of e] show ?thesis
    using agree_trans puts_outside_log(1) [OF ok] by blast
qed

lemma recover_install_phase:
  fixes l D d j
  defines "x \<equiv> encode_head (lh l) (D (lstart l))"
  defines "d' \<equiv> apply_writes (raw (commit_log l D @ (lstart l, x) # take j (commit_home l D))) d"
  assumes ok: "log_ok l sz" and len: "\<And>b. length (D b) = BSIZE" and r: "restarted l d' sz t"
  shows "\<exists>t'. recover_from_log t e = Ok () t' e \<and> agree l (memdisk t') (apply_writes (raw (commit_home l D)) d)"
proof -
  note f = log_ok_facts [OF ok]
  let ?home = "unat ` fst ` set (take j (commit_home l D))"
  have out: "b \<notin> ?home" if "b \<in> log_area l" for b
  proof
    assume "b \<in> ?home"
    then obtain i where "i < lh_n (lh l)" "b = unat (logged l ! i)"
      by (auto simp: commit_home_def dest!: in_set_takeD)
    then show False using f(7) ok that by (auto simp: log_ok_def)
  qed
  have d: "d' b = (if b = unat (lstart l) then x else apply_writes (raw (commit_log l D)) d b)"
    if "b \<notin> ?home" for b
    using that unfolding d'_def by (simp add: apply_writes_other fst_raw)
  have "d' (unat (lstart l)) = x" using d [OF out [OF f(6)]] by simp
  moreover have "d' (unat (slot l i)) = D (logged l ! i)" if "i < lh_n (lh l)" for i
  proof -
    have "unat (slot l i) \<notin> ?home" "unat (slot l i) \<noteq> unat (lstart l)"
      using out f(4,5) [OF that] by simp_all
    then show ?thesis using d slots_written [OF ok that] by simp
  qed
  ultimately obtain t' where t': "recover_from_log t e = Ok () t' e"
    "agree l (memdisk t') (apply_writes (raw (commit_home l D)) d')"
    using recover_committed [OF ok r len, of "lstart l" D e] unfolding x_def by blast
  have "apply_writes (raw (commit_home l D)) d' b = apply_writes (raw (commit_home l D)) d b"
    if b: "b \<notin> log_area l" for b
  proof (rule apply_writes_cong)
    have "b \<notin> ?home \<Longrightarrow> d' b = d b"
      using d [of b] b f(6) puts_outside_log(1) [OF ok b, of "length (commit_log l D)" D d] by auto
    moreover have "b \<in> ?home \<Longrightarrow> b \<in> fst ` set (raw (commit_home l D))"
      by (auto simp: fst_raw dest: in_set_takeD)
    ultimately show "b \<in> fst ` set (raw (commit_home l D)) \<or> d' b = d b" by blast
  qed
  then show ?thesis using t' agree_trans by blast
qed

lemma recover_last_phase:
  assumes ok: "log_ok l sz" and len: "\<And>b. length (D b) = BSIZE"
    and r: "restarted l (apply_writes (raw (commit_puts l D)) d) sz t"
  shows "\<exists>t'. recover_from_log t e = Ok () t' e \<and> agree l (memdisk t') (apply_writes (raw (commit_home l D)) d)"
proof -
  let ?d = "apply_writes (raw (commit_puts l D)) d"
  have "?d (unat (lstart l)) = encode_head (lh (empty_log l)) (encode_head (lh l) (D (lstart l)))"
    by (simp add: commit_puts_def)
  then have "nat (sint (get32 (?d (unat (lstart l))) 0)) = 0"
    using head_count [of "lh (empty_log l)"] len by (simp add: empty_log_def)
  from recover_empty [OF ok r this, of e] show ?thesis
    using agree_trans commit_puts_outside [OF ok] by blast
qed

lemma commit_prefix_recovers:
  assumes ok: "log_ok l sz" and empty: "get32 (d (unat (lstart l))) 0 = 0"
    and len: "\<And>b. length (D b) = BSIZE"
    and r: "restarted l (apply_writes (take k (raw (commit_puts l D))) d) sz t"
  shows "\<exists>t'. recover_from_log t e = Ok () t' e \<and>
    (agree l (memdisk t') d \<or> agree l (memdisk t') (apply_writes (raw (commit_home l D)) d))"
proof -
  have tk: "take k (raw (commit_puts l D)) = raw (take k (commit_puts l D))" by (simp add: raw_def take_map)
  show ?thesis
  proof (cases rule: take_commit_puts [of k l D])
    case (log j)
    show ?thesis using recover_log_phase [OF ok empty r [unfolded tk log]] by blast
  next
    case (install j)
    show ?thesis using recover_install_phase [OF ok len r [unfolded tk install]] by blast
  next
    case finished
    show ?thesis using recover_last_phase [OF ok len r [unfolded tk finished]] by blast
  qed
qed

section \<open>Properties\<close>

text \<open>
  C32. Crash safety of \<^verbatim>\<open>commit\<close>: it returns with every block of the transaction at its new
  contents on the disk; and if the machine stops after any number \<open>k\<close> of its block writes,
  \<^verbatim>\<open>recover_from_log\<close> on what is then on the disk restores, outside the log, the disk from before
  the transaction or the disk from after it.
\<close>

theorem commit_crash_safe:
  assumes q: "quiet l s" and n: "0 < lh_n (lh l)" and empty: "get32 (memdisk s (unat (lstart l))) 0 = 0"
  shows "\<exists>s' ws. commit s e = Ok () s' e \<and> dwrites s' = dwrites s @ ws \<and>
    memdisk s' = apply_writes ws (memdisk s) \<and>
    (\<forall>b \<in> set (logged l). memdisk s' (unat b) = blk_data s b) \<and>
    (\<forall>k t. restarted l (apply_writes (take k ws) (memdisk s)) (disksize s) t \<longrightarrow>
      (\<exists>t'. recover_from_log t e = Ok () t' e \<and>
        (agree l (memdisk t') (memdisk s) \<or> agree l (memdisk t') (memdisk s'))))"
proof -
  let ?D = "blk_data s" and ?d = "memdisk s"
  let ?new = "apply_writes (raw (commit_home l ?D)) ?d"
  have ok: "log_ok l (disksize s)" and inv: "store_inv s" using q by (simp_all add: quiet_def)
  obtain s' where s': "commit s e = Ok () s' e" "store_view s' = v_puts (commit_puts l ?D) (store_view s)"
    using commit_exact [OF q n, of e] by blast
  let ?ws = "raw (commit_puts l ?D)"
  have w: "dwrites s' = dwrites s @ ?ws" "memdisk s' = apply_writes ?ws ?d"
    using arg_cong [OF s'(2), of vwrites] arg_cong [OF s'(2), of vdisk] by simp_all
  have new: "agree l (memdisk s') ?new"
    using commit_puts_outside [OF ok] unfolding w(2) agree_def by blast
  have "\<exists>t'. recover_from_log t e = Ok () t' e \<and> (agree l (memdisk t') ?d \<or> agree l (memdisk t') (memdisk s'))"
    if r: "restarted l (apply_writes (take k ?ws) ?d) (disksize s) t" for k t
    using commit_prefix_recovers [OF ok empty _ r] blk_data_length [OF inv] new
    by (fastforce simp: agree_def)
  moreover have "memdisk s' (unat b) = ?D b" if "b \<in> set (logged l)" for b
    using new commit_home_data [OF ok that] ok that by (simp add: agree_def log_ok_def)
  ultimately show ?thesis using s'(1) w by blast
qed

text \<open>A concrete disk and log: one block, number 100, has been changed in the cache.\<close>

definition sample_log :: logst where
  "sample_log = \<lparr>lstart = 2, lsize = 30, outstanding = 0, committing = 0, ldev = 1,
     lh = \<lparr>lh_n = 1, lh_block = 100 # replicate 29 0\<rparr>\<rparr>"

definition sample_disk :: "buf list \<Rightarrow> kernel" where
  "sample_disk bs = (sample [])\<lparr>bufs := bs, memdisk := (\<lambda>_. replicate BSIZE 0), disksize := 1000,
     klog := sample_log\<rparr>"

lemma sample_disk_sel [simp]:
  "bufs (sample_disk bs) = bs" "memdisk (sample_disk bs) = (\<lambda>_. replicate BSIZE 0)"
  "disksize (sample_disk bs) = 1000" "klog (sample_disk bs) = sample_log" "held (sample_disk bs) = []"
  "curproc (sample_disk bs) = Some 0" "ptable (sample_disk bs) = [sample_proc, proc0]"
  by (simp_all add: sample_disk_def)

lemma sample_log_ok: "log_ok sample_log 1000" "logged sample_log = [100]"
  by (auto simp: sample_log_def log_ok_def logged_def log_area_def LOGSIZE_def NBUF_def MAXOPBLOCKS_def)

lemma sample_fresh:
  obtains bs where "bc_inv bs" "length bs = Suc NBUF" "\<And>i. i < NBUF \<Longrightarrow> bdev (bs ! i) = 0 \<and>
    bflags (bs ! i) = 0 \<and> refcnt (bs ! i) = 0 \<and> length (bdata (bs ! i)) = BSIZE \<and>
    block (bs ! i) = \<lparr>slocked = 0, slpid = 0\<rparr>"
proof -
  obtain bs where bs: "bc_idle bs" "\<And>i. i < NBUF \<Longrightarrow>
      buf_core (bs ! i) = buf_core ((bufs (sample []) ! i)\<lparr>block := \<lparr>slocked = 0, slpid = 0\<rparr>\<rparr>)"
    using binit_idle [OF sample_bufs_length] sample_bufs_fresh by blast
  have "length (bdata (bufs (sample []) ! i)) = BSIZE" if "i < NBUF" for i
    using that by (simp add: sample_def boot_def buf0_def nth_Cons split: nat.splits)
  then have "bdev (bs ! i) = 0 \<and> bflags (bs ! i) = 0 \<and> refcnt (bs ! i) = 0 \<and>
      length (bdata (bs ! i)) = BSIZE \<and> block (bs ! i) = \<lparr>slocked = 0, slpid = 0\<rparr>" if "i < NBUF" for i
    using bs(2) [OF that] sample_bufs_fresh [OF that] that by (auto simp: buf_core_def)
  moreover have "bc_inv bs" using bs(1) by (simp add: bc_idle_def)
  ultimately show ?thesis using that bc_inv_length by blast
qed

lemma sample_restarted:
  assumes "bc_inv bs" "\<And>i. i < NBUF \<Longrightarrow> bdev (bs ! i) = 0 \<and> bflags (bs ! i) = 0 \<and> refcnt (bs ! i) = 0 \<and>
    length (bdata (bs ! i)) = BSIZE \<and> block (bs ! i) = \<lparr>slocked = 0, slpid = 0\<rparr>"
  shows "restarted sample_log (\<lambda>_. replicate BSIZE 0) 1000 (sample_disk bs)"
proof -
  have "store_inv (sample_disk bs)"
    using assms by (simp add: store_inv_def buf_ok_def)
  moreover have "vheld (store_view (sample_disk bs)) = Map.empty" "vdirty (store_view (sample_disk bs)) = {}"
    using assms(2) by (auto simp: fun_eq_iff)
  ultimately show ?thesis
    by (simp add: restarted_def sample_log_def LOGSIZE_def MAXOPBLOCKS_def del: store_view_sel(1,3))
qed

theorem commit_crash_safe_witness:
  "\<exists>s s' t t'. quiet sample_log s \<and> commit s [] = Ok () s' [] \<and> memdisk s' 100 = replicate BSIZE 7 \<and>
    restarted sample_log (memdisk s) 1000 t \<and> recover_from_log t [] = Ok () t' []"
proof -
  obtain bs where bs: "bc_inv bs" "length bs = Suc NBUF" and fr: "\<And>i. i < NBUF \<Longrightarrow> bdev (bs ! i) = 0 \<and>
    bflags (bs ! i) = 0 \<and> refcnt (bs ! i) = 0 \<and> length (bdata (bs ! i)) = BSIZE \<and>
    block (bs ! i) = \<lparr>slocked = 0, slpid = 0\<rparr>" by (rule sample_fresh) blast
  have nb: "0 < NBUF" by (simp add: NBUF_def MAXOPBLOCKS_def)
  let ?x = "(bs ! 0)\<lparr>bdev := 1, blockno := 100, bflags := B_VALID OR B_DIRTY, bdata := replicate BSIZE 7\<rparr>"
  let ?s = "upd_buf 0 (\<lambda>_. ?x) (sample_disk bs)"
  note r = sample_restarted [OF bs(1) fr]
  have fl: "(B_VALID OR B_DIRTY) AND B_VALID \<noteq> 0" "(B_VALID OR B_DIRTY) AND B_DIRTY \<noteq> 0"
    by (simp_all add: B_VALID_def B_DIRTY_def)
  have "find_cached 1 100 bs = None" unfolding find_cached_eq_None [OF bs(1)] using fr by simp
  then have bi: "bc_inv (upd_nth 0 (\<lambda>_. ?x) bs)"
    by (intro bc_inv_replace [OF bs(1) nb]) (simp_all add: same_links_def)
  have inv: "store_inv ?s"
    using r bi fr [OF nb] fl nb by (intro store_inv_replace) (simp_all add: restarted_def buf_ok_def)
  have nth: "upd_nth 0 (\<lambda>_. ?x) bs ! i = (if i = 0 then ?x else bs ! i)" for i
    using bs(2) by (cases "i = 0") simp_all
  have "vheld (store_view ?s) = Map.empty" "vdirty (store_view ?s) \<subseteq> set (logged sample_log)"
    using fr fl by (auto simp: nth fun_eq_iff sample_log_ok)
  then have q: "quiet sample_log ?s"
    using inv sample_log_ok(1) by (simp add: quiet_def del: store_view_sel)
  have "blk_data ?s 100 = replicate BSIZE 7"
    using blk_data_at [of ?s 0 100] bi nb fl by (simp add: nth)
  moreover have "0 < lh_n (lh sample_log)" "get32 (memdisk ?s (unat (lstart sample_log))) 0 = 0"
    by (simp_all add: sample_log_def get32_def BSIZE_def)
  ultimately obtain s' t' where "commit ?s [] = Ok () s' []" "memdisk s' 100 = replicate BSIZE 7"
    "recover_from_log (sample_disk bs) [] = Ok () t' []"
    using commit_crash_safe [OF q, of "[]"] r sample_log_ok(2) by (auto dest!: spec [of _ 0])
  moreover have "restarted sample_log (memdisk ?s) 1000 (sample_disk bs)" using r by simp
  ultimately show ?thesis using q by blast
qed

end
