(* ===== verification/Transaction.thy ===== *)
theory Transaction
  imports Crash
begin

text \<open>
  The contract the log offers to the file system: inside a transaction (between \<^verbatim>\<open>begin_op\<close> and
  \<^verbatim>\<open>end_op\<close>) a block is changed by reading it, changing the buffer, \<^verbatim>\<open>log_write\<close> and \<^verbatim>\<open>brelse\<close>. The
  locale \<open>tx_store\<close> extends \<open>block_store\<close> with \<^verbatim>\<open>log_write\<close>; its lemma \<open>modify_block\<close> is the idiom
  \<^verbatim>\<open>fs.c\<close> consists of. The interpretation \<open>tx\<close> shows that \<^verbatim>\<open>log.c\<close> satisfies the laws.
\<close>

section \<open>The interface\<close>

text \<open>\<open>pend\<close>: the blocks of the transaction so far. \<open>cap\<close>: how many it may have.\<close>

locale tx_store = block_store inv view frame data rd edit wr rel
  for inv :: "'s \<Rightarrow> bool" and view :: "'s \<Rightarrow> bview" and frame :: "'s \<Rightarrow> 's \<Rightarrow> bool"
    and data :: "'s \<Rightarrow> nat \<Rightarrow> uchar list"
    and rd :: "uint32 \<Rightarrow> ('s, nat) kprog" and edit :: "nat \<Rightarrow> uchar list \<Rightarrow> ('s, unit) kprog"
    and wr :: "nat \<Rightarrow> ('s, unit) kprog" and rel :: "nat \<Rightarrow> ('s, unit) kprog" +
  fixes intx :: "'s \<Rightarrow> bool" and pend :: "'s \<Rightarrow> uint32 set" and cap :: "'s \<Rightarrow> nat"
    and tframe :: "'s \<Rightarrow> 's \<Rightarrow> bool" and lw :: "nat \<Rightarrow> ('s, unit) kprog"
  assumes frame_tx: "frame s s' \<Longrightarrow> intx s \<Longrightarrow> intx s' \<and> tframe s s' \<and> pend s' = pend s \<and> cap s' = cap s"
    and tframe_trans: "tframe s t \<Longrightarrow> tframe t u \<Longrightarrow> tframe s u"
    and lw_law: "inv s \<Longrightarrow> intx s \<Longrightarrow> vheld (view s) b = Some blk \<Longrightarrow> card (pend s) < cap s \<Longrightarrow>
      \<exists>s'. lw b s e = Ok () s' e \<and> inv s' \<and> intx s' \<and> tframe s s' \<and> pend s' = insert blk (pend s) \<and>
        cap s' = cap s \<and> view s' = (view s)\<lparr>vdirty := insert blk (vdirty (view s))\<rparr>"
begin

lemma modify_held:
  assumes "inv s" "intx s" "vheld (view s) b = Some blk" "card (pend s) < cap s" "length x = BSIZE"
  shows "\<exists>s'. kseq (edit b x) (kseq (lw b) (rel b)) s e = Ok () s' e \<and> inv s' \<and> intx s' \<and> tframe s s' \<and>
    pend s' = insert blk (pend s) \<and> cap s' = cap s \<and>
    view s' = (v_set blk x (view s))\<lparr>vdirty := insert blk (vdirty (view s)), vheld := (vheld (view s))(b := None)\<rparr>"
proof -
  obtain s1 where 1: "edit b x s e = Ok () s1 e" "inv s1" "frame s s1" "view s1 = v_set blk x (view s)"
    using edit_law [OF assms(1,3,5)] by blast
  note f1 = frame_tx [OF 1(3) assms(2)]
  have h1: "vheld (view s1) b = Some blk" using 1(4) assms(3) by (simp add: v_set_def)
  obtain s2 where 2: "lw b s1 e = Ok () s2 e" "inv s2" "intx s2" "tframe s1 s2" "pend s2 = insert blk (pend s)"
    "cap s2 = cap s" "view s2 = (view s1)\<lparr>vdirty := insert blk (vdirty (view s1))\<rparr>"
    using lw_law [OF 1(2) _ h1, of e] f1 assms(4) by auto
  have h2: "vheld (view s2) b = Some blk" "vclean (view s2) blk"
    using 2(7) h1 by (simp_all add: vclean_def)
  obtain s3 where 3: "rel b s2 e = Ok () s3 e" "inv s3" "frame s2 s3"
    "view s3 = (view s2)\<lparr>vheld := (vheld (view s2))(b := None)\<rparr>"
    using rel_law [OF 2(2) h2] by blast
  note f3 = frame_tx [OF 3(3) 2(3)]
  have "view s3 = (v_set blk x (view s))\<lparr>vdirty := insert blk (vdirty (view s)), vheld := (vheld (view s))(b := None)\<rparr>"
    unfolding 3(4) 2(7) 1(4) by (simp add: v_set_def)
  moreover have "tframe s s3" using f1 2(4) f3 tframe_trans by blast
  ultimately show ?thesis using 1(1) 2(1,5,6) 3(1,2) f3 by simp
qed

text \<open>The idiom of \<^verbatim>\<open>fs.c\<close>: read a block, replace its contents, log it and release it.\<close>

lemma modify_block:
  assumes "inv s" "intx s" "unat blk < vsize (view s)" "blk \<notin> ran (vheld (view s))"
    and "vroom (view s) \<or> blk \<in> vdirty (view s)" "card (pend s) < cap s"
    and "\<And>x. length x = BSIZE \<Longrightarrow> length (f x) = BSIZE"
  shows "\<exists>s'. kbind (rd blk) (\<lambda>b. kbind (kget (\<lambda>s. data s b)) (\<lambda>x.
      kseq (edit b (f x)) (kseq (lw b) (rel b)))) s e = Ok () s' e \<and> inv s' \<and> intx s' \<and> tframe s s' \<and>
    pend s' = insert blk (pend s) \<and> cap s' = cap s \<and>
    view s' = (v_set blk (f (vdata (view s) blk)) (view s))\<lparr>vdirty := insert blk (vdirty (view s))\<rparr>"
proof -
  obtain b s1 where 1: "rd blk s e = Ok b s1 e" "inv s1" "frame s s1" "vheld (view s) b = None"
    "view s1 = (view s)\<lparr>vheld := (vheld (view s))(b := Some blk)\<rparr>"
    using rd_law [OF assms(1,3,4,5)] by blast
  note f1 = frame_tx [OF 1(3) assms(2)]
  have h1: "vheld (view s1) b = Some blk" using 1(5) by simp
  have d: "data s1 b = vdata (view s) blk" using data_law [OF 1(2) h1] 1(5) by simp
  have len: "length (f (data s1 b)) = BSIZE" using d length_law [OF assms(1)] assms(7) by simp
  have ix: "intx s1" and c: "card (pend s1) < cap s1" using f1 assms(6) by simp_all
  from modify_held [OF 1(2) ix h1 c len, of e] obtain s2 where
    2: "kseq (edit b (f (data s1 b))) (kseq (lw b) (rel b)) s1 e = Ok () s2 e" "inv s2" "intx s2"
      "tframe s1 s2" "pend s2 = insert blk (pend s1)" "cap s2 = cap s1"
      "view s2 = (v_set blk (f (data s1 b)) (view s1))\<lparr>vdirty := insert blk (vdirty (view s1)),
         vheld := (vheld (view s1))(b := None)\<rparr>" by blast
  have "view s2 = (v_set blk (f (vdata (view s) blk)) (view s))\<lparr>vdirty := insert blk (vdirty (view s))\<rparr>"
    unfolding 2(7) 1(5) d using 1(4) by (simp add: v_set_def vheld_restore)
  moreover have "tframe s s2" using f1 2(4) tframe_trans by blast
  ultimately show ?thesis using 1(1) 2 f1 by simp
qed

end

section \<open>The log as a transaction store\<close>

definition tx_open :: "kernel \<Rightarrow> bool" where
  "tx_open s \<longleftrightarrow> 1 \<le> outstanding (klog s) \<and> length (lh_block (lh (klog s))) = LOGSIZE \<and>
     lh_n (lh (klog s)) \<le> LOGSIZE \<and> distinct (logged (klog s))"

definition tx_pend :: "kernel \<Rightarrow> uint32 set" where
  "tx_pend s = set (logged (klog s))"

definition tx_cap :: "kernel \<Rightarrow> nat" where
  "tx_cap s = min LOGSIZE (nat (sint (lsize (klog s)) - 1))"

text \<open>What stays the same besides the cache: everything but the header of the log.\<close>

definition tx_frame :: "kernel \<Rightarrow> kernel \<Rightarrow> bool" where
  "tx_frame s s' \<longleftrightarrow> (\<exists>h. store_frame (upd_log (\<lambda>l. l\<lparr>lh := h\<rparr>) s) s')"

lemma tx_frameI: "store_frame s s' \<Longrightarrow> tx_frame s s'"
  unfolding tx_frame_def by (rule exI [of _ "lh (klog s)"]) (simp add: upd_log_def)

lemma store_frame_upd_log:
  assumes "store_frame s t"
  shows "store_frame (upd_log f s) (upd_log f t)"
proof -
  obtain b m w p where t: "map proc_core p = map proc_core (ptable s)"
    "t = s\<lparr>bufs := b, memdisk := m, dwrites := w, ptable := p\<rparr>"
    using assms unfolding store_frame_def by blast
  show ?thesis
    by (rule store_frameI [where p = p and b = b and m = m and w = w]) (simp_all add: t upd_log_def)
qed

lemma tx_frame_trans: "tx_frame s t \<Longrightarrow> tx_frame t u \<Longrightarrow> tx_frame s u"
  unfolding tx_frame_def
proof (elim exE)
  fix h h' assume a: "store_frame (upd_log (\<lambda>l. l\<lparr>lh := h\<rparr>) s) t" "store_frame (upd_log (\<lambda>l. l\<lparr>lh := h'\<rparr>) t) u"
  have "upd_log (\<lambda>l. l\<lparr>lh := h'\<rparr>) (upd_log (\<lambda>l. l\<lparr>lh := h\<rparr>) s) = upd_log (\<lambda>l. l\<lparr>lh := h'\<rparr>) s"
    by (simp add: upd_log_def)
  then have "store_frame (upd_log (\<lambda>l. l\<lparr>lh := h'\<rparr>) s) (upd_log (\<lambda>l. l\<lparr>lh := h'\<rparr>) t)"
    using store_frame_upd_log [OF a(1), of "\<lambda>l. l\<lparr>lh := h'\<rparr>"] by simp
  then show "\<exists>h. store_frame (upd_log (\<lambda>l. l\<lparr>lh := h\<rparr>) s) u" using a(2) store_frame_trans by blast
qed

text \<open>What \<^verbatim>\<open>log_write\<close> does to the header: the block is appended unless it is there.\<close>

definition log_add :: "uint32 \<Rightarrow> logheader \<Rightarrow> logheader" where
  "log_add blk h = (if blk \<in> set (take (lh_n h) (lh_block h)) then h
     else h\<lparr>lh_block := (lh_block h)[lh_n h := blk], lh_n := lh_n h + 1\<rparr>)"

lemma log_write_eq:
  assumes "held s = []" "tx_open s" "lh_n (lh (klog s)) < tx_cap s"
  shows "log_write b s e = Ok () (upd_buf b (\<lambda>x. x\<lparr>bflags := bflags x OR B_DIRTY\<rparr>)
     (upd_lh (log_add (blockno (bufs s ! b))) s)) e"
proof -
  let ?h = "lh (klog s)" and ?blk = "blockno (bufs s ! b)"
  have n: "lh_n ?h < LOGSIZE" "\<not> int (lh_n ?h) \<ge> sint (lsize (klog s)) - 1" "\<not> outstanding (klog s) < 1"
    using assms(2,3) by (auto simp: tx_cap_def tx_open_def)
  show ?thesis
  proof (cases "find_idx (\<lambda>x. x = ?blk) (take (lh_n ?h) (lh_block ?h))")
    case None
    then have "?blk \<notin> set (take (lh_n ?h) (lh_block ?h))" by (auto simp: find_idx_None_iff)
    then show ?thesis
      using n assms(1) None
      by (simp add: log_write_def kbounds_def kseq_def kbind_def Let_def lk_acquire_apply lk_release_apply
          upd_lh_def upd_log_def upd_buf_def log_add_def)
  next
    case (Some i)
    then have i: "i < lh_n ?h" "i < length (lh_block ?h)" "lh_block ?h ! i = ?blk"
      using find_idx_SomeD [OF Some] by auto
    then have "?blk \<in> set (take (lh_n ?h) (lh_block ?h))"
      by (metis in_set_conv_nth length_take min_less_iff_conj nth_take)
    moreover have "(lh_block ?h)[i := ?blk] = lh_block ?h" using i(3) by (metis list_update_id)
    moreover have "i \<noteq> lh_n ?h" "i < LOGSIZE" using i n by auto
    ultimately show ?thesis
      using n assms(1) Some
      by (simp add: log_write_def kbounds_def kseq_def kbind_def Let_def lk_acquire_apply lk_release_apply
          upd_lh_def upd_log_def upd_buf_def log_add_def)
  qed
qed

lemma log_add_facts:
  assumes "tx_open s" "lh_n (lh (klog s)) < LOGSIZE"
    and t_def: "t = upd_lh (log_add blk) s"
  shows "tx_open t" "tx_pend t = insert blk (tx_pend s)" "tx_cap t = tx_cap s" "tx_frame s t"
proof -
  let ?h = "lh (klog s)"
  have l: "length (lh_block ?h) = LOGSIZE" "distinct (take (lh_n ?h) (lh_block ?h))"
    using assms(1) by (auto simp: tx_open_def logged_def)
  have "take (Suc (lh_n ?h)) ((lh_block ?h)[lh_n ?h := blk]) = take (lh_n ?h) (lh_block ?h) @ [blk]"
    using l(1) assms(2) by (simp add: take_Suc_conv_app_nth)
  then show "tx_open t" "tx_pend t = insert blk (tx_pend s)"
    using assms(1,2) l
    by (auto simp: tx_open_def tx_pend_def logged_def t_def upd_lh_def upd_log_def log_add_def)
  show "tx_cap t = tx_cap s" by (simp add: tx_cap_def t_def upd_lh_def upd_log_def)
  have "upd_lh (log_add blk) s = upd_log (\<lambda>l. l\<lparr>lh := log_add blk ?h\<rparr>) s" by (simp add: upd_lh_def upd_log_def)
  then show "tx_frame s t" unfolding tx_frame_def t_def using store_frame_refl by metis
qed

lemma tx_card: "tx_open s \<Longrightarrow> card (tx_pend s) = lh_n (lh (klog s))"
  by (simp add: tx_open_def tx_pend_def distinct_card) (simp add: logged_def)

lemma tx_log_write:
  assumes inv: "store_inv s" and o: "tx_open s" and h: "vheld (store_view s) b = Some blk"
    and c: "card (tx_pend s) < tx_cap s"
  shows "\<exists>s'. log_write b s e = Ok () s' e \<and> store_inv s' \<and> tx_open s' \<and> tx_frame s s' \<and>
    tx_pend s' = insert blk (tx_pend s) \<and> tx_cap s' = tx_cap s \<and>
    store_view s' = (store_view s)\<lparr>vdirty := insert blk (vdirty (store_view s))\<rparr>"
proof -
  note f = held_facts [OF inv h]
  let ?t = "upd_lh (log_add blk) s"
  let ?x = "(bufs s ! b)\<lparr>bflags := bflags (bufs s ! b) OR B_DIRTY\<rparr>"
  have n: "lh_n (lh (klog s)) < tx_cap s" "held s = []" using c tx_card [OF o] inv by (simp_all add: store_inv_def)
  then have "lh_n (lh (klog s)) < LOGSIZE" by (simp add: tx_cap_def)
  note a = log_add_facts [OF o this refl, of blk]
  have t: "store_inv ?t" "store_view ?t = store_view s" "bufs ?t = bufs s" "ptable ?t = ptable s" "curproc ?t = curproc s"
    using inv by (simp_all add: upd_lh_def) (simp_all add: upd_log_def)
  have "same_links ?x (bufs ?t ! b)" by (simp add: same_links_def t)
  moreover have ht: "vheld (store_view ?t) b = Some blk" using h t(2) by simp
  moreover have "bdirty ?x" "bvalid ?x" using f(5)
    by (simp_all add: bit.conj_disj_distrib2 B_DIRTY_def B_VALID_def)
  ultimately have c: "store_inv (upd_buf b (\<lambda>_. ?x) ?t)"
    "store_view (upd_buf b (\<lambda>_. ?x) ?t) = (store_view s)\<lparr>vdata := (blk_data ?t)(blk := bdata ?x),
      vdirty := insert blk (vdirty (store_view s))\<rparr>"
    using store_change [OF t(1) ht, of ?x] f t by (simp_all del: store_view_sel)
  have "blk_data ?t = blk_data s" using arg_cong [OF t(2), of vdata] by simp
  then have "(blk_data ?t)(blk := bdata ?x) = blk_data s" using f(10) by auto
  then have v: "store_view (upd_buf b (\<lambda>_. ?x) ?t) = (store_view s)\<lparr>vdirty := insert blk (vdirty (store_view s))\<rparr>"
    unfolding c(2) by (simp add: store_view_def)
  have u: "upd_buf b (\<lambda>x. x\<lparr>bflags := bflags x OR B_DIRTY\<rparr>) ?t = upd_buf b (\<lambda>_. ?x) ?t"
    by (intro upd_buf_cong) (simp add: t)
  have "log_write b s e = Ok () (upd_buf b (\<lambda>_. ?x) ?t) e"
    using log_write_eq [OF n(2) o n(1), of b e] f(2) u by simp
  moreover have "tx_open (upd_buf b (\<lambda>_. ?x) ?t)" "tx_pend (upd_buf b (\<lambda>_. ?x) ?t) = insert blk (tx_pend s)"
    "tx_cap (upd_buf b (\<lambda>_. ?x) ?t) = tx_cap s"
    using a by (simp_all add: tx_open_def tx_pend_def tx_cap_def)
  moreover have "tx_frame s (upd_buf b (\<lambda>_. ?x) ?t)"
    using a(4) tx_frameI [OF store_frame_upd_buf] tx_frame_trans by blast
  ultimately show ?thesis using c(1) v by blast
qed

interpretation tx: tx_store store_inv store_view store_frame "\<lambda>s b. bdata (bufs s ! b)"
  "bread 1" set_data bwrite brelse tx_open tx_pend tx_cap tx_frame log_write
proof
  show "tx_open s' \<and> tx_frame s s' \<and> tx_pend s' = tx_pend s \<and> tx_cap s' = tx_cap s"
    if "store_frame s s'" "tx_open s" for s s'
    using that tx_frameI [OF that(1)] store_frameD(1) [OF that(1)]
    by (simp add: tx_open_def tx_pend_def tx_cap_def)
qed (rule tx_frame_trans tx_log_write; assumption)+

end
