(* ===== verification/Cprintf.thy ===== *)
theory Cprintf
  imports Kstate
begin

text \<open>
  Formatted output: the output half of \<^verbatim>\<open>console.c\<close> and the user library's \<^verbatim>\<open>printf.c\<close>. What is sent
  to the console is the byte sequence \<open>cons_out\<close>, as the serial port receives it. The argument
  words on the stack are a list; a format that asks for more arguments than the caller passed, or
  for one of another kind, has no defined output (\<open>None\<close>).
\<close>

section \<open>Numbers\<close>

text \<open>
  The loop \<^verbatim>\<open>do buf[i++] = digits[x % base]; while((x /= base) != 0);\<close>. Every iteration divides by
  the base, 10 or 16, so 32 iterations are more than enough for a 32-bit number.
\<close>

primrec digit_loop :: "nat \<Rightarrow> string \<Rightarrow> uint32 \<Rightarrow> uint32 \<Rightarrow> string" where
  "digit_loop 0 ds base x = []"
| "digit_loop (Suc k) ds base x =
     ds ! unat (x mod base) # (let x' = x div base in if x' \<noteq> 0 then digit_loop k ds base x' else [])"

definition digits :: string where "digits = ''0123456789abcdef''"
definition u_digits :: string where "u_digits = ''0123456789ABCDEF''"

definition printint :: "uint32 \<Rightarrow> uint32 \<Rightarrow> bool \<Rightarrow> string" where
  "printint xx base sign =
     (let neg = (sign \<and> sint xx < 0);
          x = (if neg then - xx else xx);
          buf = digit_loop 32 digits base x;
          buf = (if neg then buf @ ''-'' else buf) in
      rev buf)"

definition u_printint :: "uint32 \<Rightarrow> uint32 \<Rightarrow> bool \<Rightarrow> string" where
  "u_printint xx base sg =
     (let neg = (sg \<and> sint xx < 0);
          x = (if neg then - xx else xx);
          buf = digit_loop 32 u_digits base x;
          buf = (if neg then buf @ ''-'' else buf) in
      rev buf)"

section \<open>Formats\<close>

datatype carg = AInt uint32 | AStr "string option"

definition str_arg :: "string option \<Rightarrow> string" where
  "str_arg s = (case s of None \<Rightarrow> ''(null)'' | Some s \<Rightarrow> s)"

fun cformat :: "string \<Rightarrow> carg list \<Rightarrow> string option" where
  "cformat [] args = Some []"
| "cformat (c # fmt) args =
     (if c \<noteq> CHR ''%'' then map_option ((#) c) (cformat fmt args)
      else case fmt of
        [] \<Rightarrow> Some []
      | k # fmt' \<Rightarrow>
          if k = CHR ''d'' then (case args of
              AInt x # as \<Rightarrow> map_option ((@) (printint x 10 True)) (cformat fmt' as) | _ \<Rightarrow> None)
          else if k = CHR ''x'' \<or> k = CHR ''p'' then (case args of
              AInt x # as \<Rightarrow> map_option ((@) (printint x 16 False)) (cformat fmt' as) | _ \<Rightarrow> None)
          else if k = CHR ''s'' then (case args of
              AStr s # as \<Rightarrow> map_option ((@) (str_arg s)) (cformat fmt' as) | _ \<Rightarrow> None)
          else if k = CHR ''%'' then map_option ((#) CHR ''%'') (cformat fmt' args)
          else map_option ((@) [CHR ''%'', k]) (cformat fmt' args))"

text \<open>\<^verbatim>\<open>printf\<close> of the user library: a loop over the format with a state, 0 or \<^verbatim>\<open>'%'\<close>.\<close>

fun u_printf :: "bool \<Rightarrow> string \<Rightarrow> carg list \<Rightarrow> string option" where
  "u_printf st [] ap = Some []"
| "u_printf False (c # fmt) ap =
     (if c = CHR ''%'' then u_printf True fmt ap else map_option ((#) c) (u_printf False fmt ap))"
| "u_printf True (c # fmt) ap =
     (if c = CHR ''d'' then (case ap of
          AInt x # as \<Rightarrow> map_option ((@) (u_printint x 10 True)) (u_printf False fmt as) | _ \<Rightarrow> None)
      else if c = CHR ''x'' \<or> c = CHR ''p'' then (case ap of
          AInt x # as \<Rightarrow> map_option ((@) (u_printint x 16 False)) (u_printf False fmt as) | _ \<Rightarrow> None)
      else if c = CHR ''s'' then (case ap of
          AStr s # as \<Rightarrow> map_option ((@) (str_arg s)) (u_printf False fmt as) | _ \<Rightarrow> None)
      else if c = CHR ''c'' then (case ap of
          AInt x # as \<Rightarrow> map_option ((#) (char_of (unat x))) (u_printf False fmt as) | _ \<Rightarrow> None)
      else if c = CHR ''%'' then map_option ((#) c) (u_printf False fmt ap)
      else map_option ((@) [CHR ''%'', c]) (u_printf False fmt ap))"

section \<open>The screen\<close>

text \<open>
  \<^verbatim>\<open>cgaputc\<close>: the cursor and the 25 lines of 80 cells of the CGA screen, the memory at \<^verbatim>\<open>0xb8000\<close>. \<open>None\<close> is the panic \<^verbatim>\<open>pos under/overflow\<close>.
\<close>

definition BACKSPACE :: uint32 where "BACKSPACE = 0x100"

definition cga_cell :: "uint32 \<Rightarrow> ushort" where
  "cga_cell c = ucast (c AND 0xFF) OR 0x700"

definition cga_put :: "uint32 \<Rightarrow> cga \<Rightarrow> cga" where
  "cga_put c g =
     (if c = 10 then g\<lparr>cpos := cpos g + (80 - cpos g mod 80)\<rparr>
      else if c = BACKSPACE then (if cpos g > 0 then g\<lparr>cpos := cpos g - 1\<rparr> else g)
      else g\<lparr>cpos := cpos g + 1, crt := (crt g)[nat (cpos g) := cga_cell c]\<rparr>)"

definition cga_scroll :: "cga \<Rightarrow> cga" where
  "cga_scroll g =
     (if cpos g div 80 \<ge> 24
      then
        (let up = take (23 * 80) (drop 80 (crt g)) @ drop (23 * 80) (crt g);
             pos = cpos g - 80 in
         g\<lparr>cpos := pos,
           crt := take (nat pos) up @ replicate (24 * 80 - nat pos) 0 @ drop (24 * 80) up\<rparr>)
      else g)"

definition cgaputc :: "uint32 \<Rightarrow> cga \<Rightarrow> cga option" where
  "cgaputc c g =
     (let g = cga_put c g in
      if cpos g < 0 \<or> cpos g > 25 * 80 then None
      else
        (let g = cga_scroll g in
         Some (g\<lparr>crt := (crt g)[nat (cpos g) := 0x720]\<rparr>)))"

section \<open>The console\<close>

text \<open>
  \<^verbatim>\<open>uartputc\<close>: the byte goes out when there is a port. The bounded wait for the transmitter is not
  visible in the state.
\<close>

definition uartputc :: "uint32 \<Rightarrow> unit kern" where
  "uartputc c = kbind (kget uart) (\<lambda>u.
     kwhen (u \<noteq> 0) (kmod (\<lambda>s. s\<lparr>cons_out := cons_out s @ [ucast c]\<rparr>)))"

text \<open>\<^verbatim>\<open>consputc\<close>. After a panic it would stop; in the model nothing runs after a panic.\<close>

definition consputc :: "uint32 \<Rightarrow> unit kern" where
  "consputc c =
     kseq (if c = BACKSPACE then kseq (uartputc 8) (kseq (uartputc 32) (uartputc 8)) else uartputc c)
    (kbind (kget (\<lambda>s. cgaputc c (screen s))) (\<lambda>g.
     case g of None \<Rightarrow> kpanic ''pos under/overflow'' | Some g \<Rightarrow> kmod (\<lambda>s. s\<lparr>screen := g\<rparr>)))"

text \<open>\<^verbatim>\<open>cprintf\<close>. The calls in the kernel pass the arguments their formats ask for.\<close>

definition cprintf :: "string \<Rightarrow> carg list \<Rightarrow> unit kern" where
  "cprintf fmt args =
     (let body = kfor (\<lambda>c. consputc (of_char c)) (case cformat fmt args of None \<Rightarrow> [] | Some out \<Rightarrow> out) in
      kbind (kget cons_locking) (\<lambda>l.
      if l \<noteq> 0 then kseq (lk_acquire ConsLock) (kseq body (lk_release ConsLock)) else body))"

lemma lk_ok_uartputc [klock]: "lk_bal h (uartputc c)"
  unfolding uartputc_def by (rule klock | simp)+

lemma lk_ok_consputc [klock]: "lk_bal h (consputc c)"
  unfolding consputc_def by (rule klock | simp add: lock_panics_def)+

lemma lk_ok_cprintf [klock]: "ConsLock \<notin> set h \<Longrightarrow> lk_bal h (cprintf fmt args)"
  unfolding cprintf_def by (rule klock | simp)+

section \<open>Properties\<close>

text \<open>The number a string of digits stands for, most significant digit first.\<close>

definition digit_value :: "char \<Rightarrow> nat" where
  "digit_value c = (if c \<in> set (take 10 digits) then of_char c - 48 else of_char c - 87)"

definition num_value :: "nat \<Rightarrow> string \<Rightarrow> nat" where
  "num_value base = foldl (\<lambda>n c. base * n + digit_value c) 0"

lemma digits_facts:
  assumes "d < 16"
  shows "digit_value (digits ! d) = d" "d < 10 \<Longrightarrow> digits ! d \<in> set (take 10 digits)"
proof -
  have "\<forall>d \<in> set [0..<16]. digit_value (digits ! d) = d \<and> (d < 10 \<longrightarrow> digits ! d \<in> set (take 10 digits))"
    by code_simp
  then show "digit_value (digits ! d) = d" "d < 10 \<Longrightarrow> digits ! d \<in> set (take 10 digits)"
    using assms by auto
qed

lemma num_value_snoc: "num_value base (xs @ [c]) = base * num_value base xs + digit_value c"
  by (simp add: num_value_def)

lemma digit_loop_value:
  assumes "1 < base" "base \<le> 16" "unat x < unat base ^ Suc k"
  shows "num_value (unat base) (rev (digit_loop (Suc k) digits base x)) = unat x"
  using assms(3)
proof (induction k arbitrary: x)
  case 0
  have b: "1 < unat base" "unat base \<le> 16"
    using assms(1,2) by (simp_all add: word_less_nat_alt word_le_nat_alt)
  have "x div base = 0" using 0 by (simp add: word_arith_nat_div)
  moreover have "x mod base = x" using 0 by (simp add: word_arith_nat_mod)
  ultimately show ?case using 0 b digits_facts(1) by (simp add: num_value_def)
next
  case (Suc k)
  have b: "1 < unat base" "unat base \<le> 16"
    using assms(1,2) by (simp_all add: word_less_nat_alt word_le_nat_alt)
  have d: "unat (x div base) = unat x div unat base" "unat (x mod base) = unat x mod unat base"
    by (simp_all add: unat_div unat_mod)
  have v: "digit_value (digits ! unat (x mod base)) = unat x mod unat base"
    using digits_facts(1) [of "unat (x mod base)"] b d(2) mod_less_divisor [of "unat base" "unat x"] by linarith
  show ?case
  proof (cases "x div base = 0")
    case True
    then have "unat x div unat base = 0" using d(1) by simp
    then have "unat x mod unat base = unat x" using b by (simp add: div_eq_0_iff)
    then show ?thesis using True v by (simp add: num_value_def)
  next
    case False
    have "unat (x div base) < unat base ^ Suc k"
      using Suc.prems b d(1) by (simp add: div_less_iff_less_mult mult.commute)
    note IH = Suc.IH [OF this]
    have "digit_loop (Suc (Suc k)) digits base x =
        digits ! unat (x mod base) # digit_loop (Suc k) digits base (x div base)"
      using False by (subst digit_loop.simps(2)) (simp add: Let_def del: digit_loop.simps)
    then show ?thesis using IH v d(1) by (simp add: num_value_snoc del: digit_loop.simps)
  qed
qed

lemma digit_loop_digits:
  assumes "1 < base" "base \<le> 10"
  shows "set (digit_loop k digits base x) \<subseteq> set (take 10 digits)"
proof (induction k arbitrary: x)
  case (Suc k)
  have "1 < unat base" "unat base \<le> 10"
    using assms by (simp_all add: word_less_nat_alt word_le_nat_alt)
  then have "unat x mod unat base < 10"
    using mod_less_divisor [of "unat base" "unat x"] by linarith
  then have "unat (x mod base) < 10" by (simp add: unat_mod)
  then show ?case using Suc.IH digits_facts(2) by (auto simp: Let_def)
qed simp

lemma printint_value:
  assumes "1 < base" "base \<le> 16"
  shows "num_value (unat base) (rev (digit_loop 32 digits base x)) = unat x"
proof -
  have "1 < unat base" using assms(1) by (simp add: word_less_nat_alt)
  then have "(2 :: nat) ^ 32 \<le> unat base ^ 32" by (intro power_mono) simp_all
  moreover have "unat x < 2 ^ 32" using unat_addr_lt [of x] by simp
  ultimately have "unat x < unat base ^ Suc 31" by simp
  from digit_loop_value [OF assms this] show ?thesis by (simp only: numeral_nat)
qed

text \<open>
  C36. What \<^verbatim>\<open>printint\<close> prints: the digits of a number have its value in the base, with a minus
  sign exactly for a negative number printed as signed, the most negative one included.
\<close>

theorem printint_roundtrip:
  "\<exists>ds. printint x 10 True = (if sint x < 0 then CHR ''-'' # ds else ds) \<and> ds \<noteq> [] \<and>
     set ds \<subseteq> set (take 10 digits) \<and> int (num_value 10 ds) = \<bar>sint x\<bar> \<and>
     num_value 16 (printint x 16 False) = unat x"
proof -
  let ?y = "if sint x < 0 then - x else x"
  let ?ds = "rev (digit_loop 32 digits 10 ?y)"
  have "num_value 10 ?ds = unat ?y" using printint_value [of 10 ?y] by simp
  moreover have "int (unat ?y) = \<bar>sint x\<bar>" by (simp only: abs_sint)
  moreover have "?ds \<noteq> []" by (simp add: numeral_nat)
  moreover have "set ?ds \<subseteq> set (take 10 digits)" using digit_loop_digits [of 10 32 ?y] by simp
  moreover have "num_value 16 (printint x 16 False) = unat x"
    using printint_value [of 16 x] by (simp add: printint_def Let_def)
  ultimately show ?thesis by (intro exI [of _ ?ds]) (simp add: printint_def Let_def)
qed

definition cga_ok :: "cga \<Rightarrow> bool" where
  "cga_ok g \<longleftrightarrow> 0 \<le> cpos g \<and> cpos g < 24 * 80 \<and> length (crt g) = 25 * 80"

lemma line_split: "80 * (i div 80) + i mod 80 = i" "0 \<le> i mod 80" "i mod 80 < 80" for i :: int
  by simp_all

lemma cga_put_bounds:
  assumes "cga_ok g"
  shows "0 \<le> cpos (cga_put c g) \<and> cpos (cga_put c g) \<le> 24 * 80 \<and> length (crt (cga_put c g)) = 25 * 80"
proof -
  have c: "0 \<le> cpos g" "cpos g < 24 * 80" using assms by (simp_all add: cga_ok_def)
  then have "cpos g div 80 \<le> 23" using line_split [of "cpos g"] by linarith
  then have "0 \<le> cpos g + (80 - cpos g mod 80) \<and> cpos g + (80 - cpos g mod 80) \<le> 24 * 80"
    using c line_split [of "cpos g"] by linarith
  then show ?thesis using c assms unfolding cga_put_def cga_ok_def by simp
qed

lemma cga_scroll_bounds:
  assumes "0 \<le> cpos g" "cpos g \<le> 24 * 80" "length (crt g) = 25 * 80"
  shows "cga_ok (cga_scroll g)"
proof (cases "cpos g div 80 \<ge> 24")
  case True
  then have "cpos g = 24 * 80" using assms(2) line_split [of "cpos g"] by linarith
  then show ?thesis using assms(3) by (simp add: cga_scroll_def cga_ok_def Let_def)
next
  case False
  then have "cpos g < 24 * 80" using line_split [of "cpos g"] by linarith
  then show ?thesis using False assms by (simp add: cga_scroll_def cga_ok_def)
qed

text \<open>
  The cursor never leaves the screen: from a position in the first 24 lines, every character
  leaves the cursor there, \<^verbatim>\<open>cgaputc\<close> does not panic, and the screen keeps its size.
\<close>

theorem cgaputc_in_bounds:
  assumes "cga_ok g"
  shows "\<exists>g'. cgaputc c g = Some g' \<and> cga_ok g'"
  using cga_put_bounds [OF assms, of c] cga_scroll_bounds [of "cga_put c g"]
  by (auto simp: cgaputc_def Let_def cga_ok_def)

theorem cgaputc_in_bounds_witness:
  "\<exists>g'. cgaputc 65 \<lparr>cpos = 1919, crt = replicate 2000 0\<rparr> = Some g' \<and> cga_ok g'"
  using cgaputc_in_bounds [of "\<lparr>cpos = 1919, crt = replicate 2000 0\<rparr>" 65] by (simp add: cga_ok_def)

end
