(* ===== verification/Inode.thy ===== *)
theory Inode
  imports Transaction Cprintf
begin

text \<open>
  The lower layers of \<^verbatim>\<open>fs.c\<close>: the block allocator and the inodes. An in-memory inode is an index
  into the inode cache. Block contents are taken apart with the offsets of \<^verbatim>\<open>fs.h\<close>.
\<close>

section \<open>Layout (\<^verbatim>\<open>fs.h\<close>)\<close>

definition NDIRECT :: nat where "NDIRECT = 12"
definition NINDIRECT :: nat where "NINDIRECT = BSIZE div 4"
definition MAXFILE :: nat where "MAXFILE = NDIRECT + NINDIRECT"
definition DINODE_SIZE :: nat where "DINODE_SIZE = 64"
definition IPB :: nat where "IPB = BSIZE div DINODE_SIZE"
definition BPB :: nat where "BPB = BSIZE * 8"
definition DIRSIZ :: nat where "DIRSIZ = 14"
definition ROOTINO :: uint32 where "ROOTINO = 1"
definition T_DIR :: ushort where "T_DIR = 1"
definition T_FILE :: ushort where "T_FILE = 2"
definition T_DEV :: ushort where "T_DEV = 3"

lemmas fs_defs = NDIRECT_def NINDIRECT_def MAXFILE_def DINODE_SIZE_def IPB_def BPB_def DIRSIZ_def BSIZE_def

definition IBLOCK :: "uint32 \<Rightarrow> superblock \<Rightarrow> uint32" where
  "IBLOCK i b = i div of_nat IPB + sb_inodestart b"

definition BBLOCK :: "uint32 \<Rightarrow> superblock \<Rightarrow> uint32" where
  "BBLOCK n b = n div of_nat BPB + sb_bmapstart b"

text \<open>The place of an inode in its block: \<^verbatim>\<open>(struct dinode*)bp->data + inum%IPB\<close>.\<close>

definition dinode_at :: "uint32 \<Rightarrow> nat" where
  "dinode_at i = DINODE_SIZE * (unat i mod IPB)"

definition get_dinode :: "uchar list \<Rightarrow> nat \<Rightarrow> inode \<Rightarrow> inode" where
  "get_dinode x o' ip = ip\<lparr>itype := get16 x o', imajor := get16 x (o' + 2), iminor := get16 x (o' + 4),
     inlink := get16 x (o' + 6), isize := get32 x (o' + 8), iaddrs := get32s x (o' + 12) (NDIRECT + 1)\<rparr>"

definition put_dinode :: "inode \<Rightarrow> nat \<Rightarrow> uchar list \<Rightarrow> uchar list" where
  "put_dinode ip o' x =
     put32s (put32 (put16 (put16 (put16 (put16 x o' (itype ip)) (o' + 2) (imajor ip)) (o' + 4) (iminor ip))
       (o' + 6) (inlink ip)) (o' + 8) (isize ip)) (o' + 12) (iaddrs ip)"

section \<open>Blocks\<close>

definition get_data :: "nat \<Rightarrow> uchar list kern" where
  "get_data b = kget (\<lambda>s. bdata (bufs s ! b))"

definition bzero :: "uint32 \<Rightarrow> uint32 \<Rightarrow> unit kern" where
  "bzero dev bno =
     kbind (bread dev bno) (\<lambda>b.
     kseq (set_data b (replicate BSIZE 0))
    (kseq (log_write b)
    (brelse b)))"

definition bm_used :: "uchar list \<Rightarrow> nat \<Rightarrow> bool" where
  "bm_used x bi \<longleftrightarrow> x ! (bi div 8) AND push_bit (bi mod 8) 1 \<noteq> 0"

definition bm_set :: "nat \<Rightarrow> uchar list \<Rightarrow> uchar list" where
  "bm_set bi x = x[bi div 8 := x ! (bi div 8) OR push_bit (bi mod 8) 1]"

definition bm_clear :: "nat \<Rightarrow> uchar list \<Rightarrow> uchar list" where
  "bm_clear bi x = x[bi div 8 := x ! (bi div 8) AND NOT (push_bit (bi mod 8) 1)]"

text \<open>The inner loop of \<^verbatim>\<open>balloc\<close>: \<open>b\<close> is the first block the bitmap block covers.\<close>

definition bm_find :: "uchar list \<Rightarrow> uint32 \<Rightarrow> uint32 \<Rightarrow> nat option" where
  "bm_find x b sz = find (\<lambda>bi. \<not> bm_used x bi) (takeWhile (\<lambda>bi. b + of_nat bi < sz) [0..<BPB])"

text \<open>
  \<^verbatim>\<open>balloc\<close>. The block number goes up in steps of \<^verbatim>\<open>BPB\<close>, so it repeats after \<open>2 ^ 20\<close> steps.
\<close>

definition balloc :: "uint32 \<Rightarrow> uint32 kern" where
  "balloc dev = kloop (2 ^ 20) (\<lambda>b.
     kbind (kget sb) (\<lambda>sup.
     if \<not> b < sb_size sup then kpanic ''balloc: out of blocks''
     else
       kbind (bread dev (BBLOCK b sup)) (\<lambda>bp.
       kbind (get_data bp) (\<lambda>x.
       case bm_find x b (sb_size sup) of
         Some bi \<Rightarrow>
           kseq (set_data bp (bm_set bi x))
          (kseq (log_write bp)
          (kseq (brelse bp)
          (kseq (bzero dev (b + of_nat bi))
          (kret (Inr (b + of_nat bi))))))
       | None \<Rightarrow> kseq (brelse bp) (kret (Inl (b + of_nat BPB)))))))
     0"

definition bfree :: "uint32 \<Rightarrow> uint32 \<Rightarrow> unit kern" where
  "bfree dev b =
     kbind (readsb dev) (\<lambda>sup.
     kseq (kmod (\<lambda>s. s\<lparr>sb := sup\<rparr>))
    (kbind (bread dev (BBLOCK b sup)) (\<lambda>bp.
     kbind (get_data bp) (\<lambda>x.
     let bi = unat b mod BPB in
     if \<not> bm_used x bi then kpanic ''freeing free block''
     else
       kseq (set_data bp (bm_clear bi x))
      (kseq (log_write bp)
      (brelse bp))))))"

section \<open>The inode cache\<close>

definition iinit :: "uint32 \<Rightarrow> unit kern" where
  "iinit dev =
     kseq (kfor (\<lambda>i. initsleeplock (InodeLk i)) [0..<NINODE])
    (kbind (readsb dev) (\<lambda>b.
     kseq (kmod (\<lambda>s. s\<lparr>sb := b\<rparr>))
    (cprintf (''sb: size %d nblocks %d ninodes %d nlog %d logstart %d inodestart %d bmap start %d'' @ [char_of (10 :: nat)])
      [AInt (sb_size b), AInt (sb_nblocks b), AInt (sb_ninodes b), AInt (sb_nlog b), AInt (sb_logstart b),
       AInt (sb_inodestart b), AInt (sb_bmapstart b)])))"

definition iget :: "uint32 \<Rightarrow> uint32 \<Rightarrow> nat kern" where
  "iget dev ino =
     kseq (lk_acquire IcacheLock)
    (kbind (kget (\<lambda>s. find_idx (\<lambda>x. 0 < iref x \<and> idev x = dev \<and> inum x = ino) (icache s))) (\<lambda>c.
     case c of
       Some i \<Rightarrow>
         kseq (kmod (upd_inode i (\<lambda>x. x\<lparr>iref := iref x + 1\<rparr>)))
        (kseq (lk_release IcacheLock) (kret i))
     | None \<Rightarrow>
         kbind (kget (\<lambda>s. find_idx (\<lambda>x. iref x = 0) (icache s))) (\<lambda>u.
         case u of
           None \<Rightarrow> kpanic ''iget: no inodes''
         | Some i \<Rightarrow>
             kseq (kmod (upd_inode i (\<lambda>x. x\<lparr>idev := dev, inum := ino, iref := 1, ivalid := 0\<rparr>)))
            (kseq (lk_release IcacheLock) (kret i)))))"

definition ialloc :: "uint32 \<Rightarrow> ushort \<Rightarrow> nat kern" where
  "ialloc dev ty = kloop (2 ^ 32) (\<lambda>ino.
     kbind (kget sb) (\<lambda>sup.
     if \<not> ino < sb_ninodes sup then kpanic ''ialloc: no inodes''
     else
       kbind (bread dev (IBLOCK ino sup)) (\<lambda>bp.
       kbind (get_data bp) (\<lambda>x.
       let o' = dinode_at ino in
       if get16 x o' = 0 then
         kseq (set_data bp (put16 (put_bytes x o' (replicate DINODE_SIZE 0)) o' ty))
        (kseq (log_write bp)
        (kseq (brelse bp)
        (kbind (iget dev ino) (\<lambda>i. kret (Inr i)))))
       else kseq (brelse bp) (kret (Inl (ino + 1)))))))
     1"

definition iupdate :: "nat \<Rightarrow> unit kern" where
  "iupdate i =
     kbind (kget (\<lambda>s. icache s ! i)) (\<lambda>ip.
     kbind (kget sb) (\<lambda>sup.
     kbind (bread (idev ip) (IBLOCK (inum ip) sup)) (\<lambda>bp.
     kbind (get_data bp) (\<lambda>x.
     kbind (kget (\<lambda>s. icache s ! i)) (\<lambda>ip.
     kseq (set_data bp (put_dinode ip (dinode_at (inum ip)) x))
    (kseq (log_write bp)
    (brelse bp)))))))"

definition idup :: "nat \<Rightarrow> nat kern" where
  "idup i =
     kseq (lk_acquire IcacheLock)
    (kseq (kmod (upd_inode i (\<lambda>x. x\<lparr>iref := iref x + 1\<rparr>)))
    (kseq (lk_release IcacheLock)
    (kret i)))"

definition ilock :: "nat option \<Rightarrow> unit kern" where
  "ilock ip =
     (case ip of
        None \<Rightarrow> kpanic ''ilock''
      | Some i \<Rightarrow>
          kbind (kget (\<lambda>s. iref (icache s ! i))) (\<lambda>r.
          if r < 1 then kpanic ''ilock''
          else
            kseq (acquiresleep (InodeLk i))
           (kbind (kget (\<lambda>s. icache s ! i)) (\<lambda>x.
            if ivalid x = 0 then
              kbind (kget sb) (\<lambda>sup.
              kbind (bread (idev x) (IBLOCK (inum x) sup)) (\<lambda>bp.
              kbind (get_data bp) (\<lambda>d.
              kseq (kmod (upd_inode i (get_dinode d (dinode_at (inum x)))))
             (kseq (brelse bp)
             (kseq (kmod (upd_inode i (\<lambda>y. y\<lparr>ivalid := 1\<rparr>)))
             (kbind (kget (\<lambda>s. itype (icache s ! i))) (\<lambda>ty.
              kwhen (ty = 0) (kpanic ''ilock: no type''))))))))
            else kret ()))))"

definition iunlock :: "nat option \<Rightarrow> unit kern" where
  "iunlock ip =
     (case ip of
        None \<Rightarrow> kpanic ''iunlock''
      | Some i \<Rightarrow>
          kbind (holdingsleep (InodeLk i)) (\<lambda>hold.
          kbind (kget (\<lambda>s. iref (icache s ! i))) (\<lambda>r.
          if \<not> hold \<or> r < 1 then kpanic ''iunlock''
          else releasesleep (InodeLk i))))"

section \<open>The blocks of an inode\<close>

text \<open>\<^verbatim>\<open>bmap\<close>. The result of \<^verbatim>\<open>balloc\<close> is stored in the inode, or in the indirect block.\<close>

definition bmap :: "nat \<Rightarrow> uint32 \<Rightarrow> uint32 kern" where
  "bmap i bn =
     kbind (kget (\<lambda>s. icache s ! i)) (\<lambda>ip.
     if unat bn < NDIRECT then
       (let a = iaddrs ip ! unat bn in
        if a = 0 then
          kbind (balloc (idev ip)) (\<lambda>a.
          kseq (kmod (upd_inode i (\<lambda>x. x\<lparr>iaddrs := (iaddrs x)[unat bn := a]\<rparr>))) (kret a))
        else kret a)
     else
       (let k = unat bn - NDIRECT in
        if k < NINDIRECT then
          kbind
            (let a = iaddrs ip ! NDIRECT in
             if a = 0 then
               kbind (balloc (idev ip)) (\<lambda>a.
               kseq (kmod (upd_inode i (\<lambda>x. x\<lparr>iaddrs := (iaddrs x)[NDIRECT := a]\<rparr>))) (kret a))
             else kret a) (\<lambda>ind.
          kbind (bread (idev ip) ind) (\<lambda>bp.
          kbind (get_data bp) (\<lambda>x.
          kbind
            (if get32 x (4 * k) = 0 then
               kbind (balloc (idev ip)) (\<lambda>a.
               kbind (get_data bp) (\<lambda>x.
               kseq (set_data bp (put32 x (4 * k) a))
              (kseq (log_write bp) (kret a))))
             else kret (get32 x (4 * k))) (\<lambda>a.
          kseq (brelse bp) (kret a)))))
        else kpanic ''bmap: out of range''))"

definition itrunc :: "nat \<Rightarrow> unit kern" where
  "itrunc i =
     kseq (kfor (\<lambda>k.
       kbind (kget (\<lambda>s. icache s ! i)) (\<lambda>ip.
       kwhen (iaddrs ip ! k \<noteq> 0)
        (kseq (bfree (idev ip) (iaddrs ip ! k))
        (kmod (upd_inode i (\<lambda>x. x\<lparr>iaddrs := (iaddrs x)[k := 0]\<rparr>)))))) [0..<NDIRECT])
    (kbind (kget (\<lambda>s. icache s ! i)) (\<lambda>ip.
     kseq (kwhen (iaddrs ip ! NDIRECT \<noteq> 0)
       (kbind (bread (idev ip) (iaddrs ip ! NDIRECT)) (\<lambda>bp.
        kseq (kfor (\<lambda>j.
          kbind (get_data bp) (\<lambda>x.
          kwhen (get32 x (4 * j) \<noteq> 0) (bfree (idev ip) (get32 x (4 * j))))) [0..<NINDIRECT])
       (kseq (brelse bp)
       (kseq (bfree (idev ip) (iaddrs ip ! NDIRECT))
       (kmod (upd_inode i (\<lambda>x. x\<lparr>iaddrs := (iaddrs x)[NDIRECT := 0]\<rparr>))))))))
    (kseq (kmod (upd_inode i (\<lambda>x. x\<lparr>isize := 0\<rparr>)))
    (iupdate i))))"

definition iput :: "nat \<Rightarrow> unit kern" where
  "iput i =
     kseq (acquiresleep (InodeLk i))
    (kbind (kget (\<lambda>s. icache s ! i)) (\<lambda>ip.
     kseq (kwhen (ivalid ip \<noteq> 0 \<and> inlink ip = 0)
       (kseq (lk_acquire IcacheLock)
       (kbind (kget (\<lambda>s. iref (icache s ! i))) (\<lambda>r.
        kseq (lk_release IcacheLock)
       (kwhen (r = 1)
         (kseq (itrunc i)
         (kseq (kmod (upd_inode i (\<lambda>x. x\<lparr>itype := 0\<rparr>)))
         (kseq (iupdate i)
         (kmod (upd_inode i (\<lambda>x. x\<lparr>ivalid := 0\<rparr>)))))))))))
    (kseq (releasesleep (InodeLk i))
    (kseq (lk_acquire IcacheLock)
    (kseq (kmod (upd_inode i (\<lambda>x. x\<lparr>iref := iref x - 1\<rparr>)))
    (lk_release IcacheLock))))))"

definition iunlockput :: "nat \<Rightarrow> unit kern" where
  "iunlockput i = kseq (iunlock (Some i)) (iput i)"

record statrec =
  st_dev :: uint32
  st_ino :: uint32
  st_type :: ushort
  st_nlink :: ushort
  st_size :: uint32

definition stati :: "nat \<Rightarrow> statrec kern" where
  "stati i = kget (\<lambda>s. let ip = icache s ! i in
     \<lparr>st_dev = idev ip, st_ino = inum ip, st_type = itype ip, st_nlink = inlink ip, st_size = isize ip\<rparr>)"

section \<open>Lock discipline\<close>

lemma lk_ok_get_data [klock]: "lk_bal h (get_data b)"
  unfolding get_data_def by (rule klock)

lemma lk_ok_bzero [klock]: "h = [] \<Longrightarrow> lk_bal h (bzero dev b)"
  unfolding bzero_def by (rule klock | simp)+

lemma lk_ok_balloc [klock]: "h = [] \<Longrightarrow> lk_bal h (balloc dev)"
  unfolding balloc_def by (rule klock | simp add: lock_panics_def)+

lemma lk_ok_bfree [klock]: "h = [] \<Longrightarrow> lk_bal h (bfree dev b)"
  unfolding bfree_def by (rule klock | simp add: lock_panics_def)+

lemma lk_ok_initsleeplock [klock]: "lk_bal h (initsleeplock l)"
  unfolding initsleeplock_def by (rule klock | simp)+

lemma lk_ok_iinit [klock]: "h = [] \<Longrightarrow> lk_bal h (iinit dev)"
  unfolding iinit_def by (rule klock | simp)+

lemma lk_ok_iget [klock]: "IcacheLock \<notin> set h \<Longrightarrow> lk_bal h (iget dev ino)"
  unfolding iget_def by (rule klock | simp add: lock_panics_def)+

lemma lk_ok_ialloc [klock]: "h = [] \<Longrightarrow> lk_bal h (ialloc dev ty)"
  unfolding ialloc_def by (rule klock | simp add: lock_panics_def)+

lemma lk_ok_iupdate [klock]: "h = [] \<Longrightarrow> lk_bal h (iupdate i)"
  unfolding iupdate_def by (rule klock | simp)+

lemma lk_ok_idup [klock]: "IcacheLock \<notin> set h \<Longrightarrow> lk_bal h (idup i)"
  unfolding idup_def by (rule klock | simp)+

lemma lk_ok_ilock [klock]: "h = [] \<Longrightarrow> lk_bal h (ilock ip)"
  unfolding ilock_def by (rule klock | simp add: lock_panics_def)+

lemma lk_ok_iunlock [klock]: "h = [] \<Longrightarrow> lk_bal h (iunlock ip)"
  unfolding iunlock_def by (rule klock | simp add: lock_panics_def)+

lemma lk_ok_bmap [klock]: "h = [] \<Longrightarrow> lk_bal h (bmap i bn)"
  unfolding bmap_def by (rule klock | simp add: lock_panics_def)+

lemma lk_ok_itrunc [klock]: "h = [] \<Longrightarrow> lk_bal h (itrunc i)"
  unfolding itrunc_def by (rule klock | simp)+

lemma lk_ok_iput [klock]: "h = [] \<Longrightarrow> lk_bal h (iput i)"
  unfolding iput_def by (rule klock | simp)+

lemma lk_ok_iunlockput [klock]: "h = [] \<Longrightarrow> lk_bal h (iunlockput i)"
  unfolding iunlockput_def by (rule klock | simp)+

lemma lk_ok_stati [klock]: "lk_bal h (stati i)"
  unfolding stati_def by (rule klock)

end
