(* ===== verification/Spinlock.thy ===== *)
theory Spinlock
  imports Machine
begin

text \<open>
  \<^verbatim>\<open>spinlock.c\<close> and the processor lookup of \<^verbatim>\<open>proc.c\<close>, at the level of the machine: the
  interrupt flag of each processor, the per-processor nesting counter, the atomic exchange.
  The routines take the local APIC id \<open>a\<close> of the processor that executes them.

  Two results: the routines implement the list of held locks that \<open>Machine\<close> uses, including
  the restoring of the interrupt flag; and processors that interleave between the single
  memory operations never both own the lock.
\<close>

section \<open>State\<close>

record cpu =
  apicid :: uchar
  ncli :: int
  intena :: uint32

record spinlock =
  locked :: uint32
  lname :: string
  lcpu :: "nat option"
  pcs :: "uint32 list"

record smp =
  eflags :: "uchar \<Rightarrow> uint32"
  cpus :: "cpu list"
  ncpu :: nat
  locks :: "lockid \<Rightarrow> spinlock"

text \<open>A routine panics with a message or returns.\<close>

type_synonym 'a outcome = "string + 'a"

definition obind :: "'a outcome \<Rightarrow> ('a \<Rightarrow> 'b outcome) \<Rightarrow> 'b outcome" where
  "obind m f = (case m of Inl msg \<Rightarrow> Inl msg | Inr x \<Rightarrow> f x)"

lemma obind_simps [simp]: "obind (Inl msg) f = Inl msg" "obind (Inr x) f = f x"
  by (simp_all add: obind_def)

section \<open>Operations\<close>

definition cli :: "uchar \<Rightarrow> smp \<Rightarrow> smp" where
  "cli a st = st\<lparr>eflags := (eflags st)(a := eflags st a AND NOT FL_IF)\<rparr>"

definition sti :: "uchar \<Rightarrow> smp \<Rightarrow> smp" where
  "sti a st = st\<lparr>eflags := (eflags st)(a := eflags st a OR FL_IF)\<rparr>"

text \<open>\<^verbatim>\<open>xchg(&lk->locked, v)\<close>: the old value, and the new state.\<close>

definition xchg :: "lockid \<Rightarrow> uint32 \<Rightarrow> smp \<Rightarrow> uint32 \<times> smp" where
  "xchg l v st = (locked (locks st l), st\<lparr>locks := (locks st)(l := (locks st l)\<lparr>locked := v\<rparr>)\<rparr>)"

definition mycpu :: "uchar \<Rightarrow> smp \<Rightarrow> nat outcome" where
  "mycpu a st =
     (if eflags st a AND FL_IF \<noteq> 0 then Inl (''mycpu called with interrupts enabled'' @ [CHR 0x0A])
      else case find_idx (\<lambda>c. apicid c = a) (take (ncpu st) (cpus st)) of
        Some i \<Rightarrow> Inr i
      | None \<Rightarrow> Inl (''unknown apicid'' @ [CHR 0x0A]))"

definition cpuid :: "uchar \<Rightarrow> smp \<Rightarrow> nat outcome" where
  "cpuid a st = mycpu a st"

definition initlock :: "lockid \<Rightarrow> string \<Rightarrow> smp \<Rightarrow> smp" where
  "initlock l name st =
     st\<lparr>locks := (locks st)(l := (locks st l)\<lparr>lname := name, locked := 0, lcpu := None\<rparr>)\<rparr>"

definition pushcli :: "uchar \<Rightarrow> smp \<Rightarrow> smp outcome" where
  "pushcli a st = (let ef = eflags st a; st = cli a st in
     obind (mycpu a st) (\<lambda>c.
       let st = (if ncli (cpus st ! c) = 0
                 then st\<lparr>cpus := upd_nth c (\<lambda>x. x\<lparr>intena := ef AND FL_IF\<rparr>) (cpus st)\<rparr>
                 else st) in
       Inr (st\<lparr>cpus := upd_nth c (\<lambda>x. x\<lparr>ncli := ncli x + 1\<rparr>) (cpus st)\<rparr>)))"

definition popcli :: "uchar \<Rightarrow> smp \<Rightarrow> smp outcome" where
  "popcli a st =
     (if eflags st a AND FL_IF \<noteq> 0 then Inl ''popcli - interruptible''
      else obind (mycpu a st) (\<lambda>c.
        let st = st\<lparr>cpus := upd_nth c (\<lambda>x. x\<lparr>ncli := ncli x - 1\<rparr>) (cpus st)\<rparr> in
        if ncli (cpus st ! c) < 0 then Inl ''popcli''
        else if ncli (cpus st ! c) = 0 \<and> intena (cpus st ! c) \<noteq> 0 then Inr (sti a st)
        else Inr st))"

definition holding :: "uchar \<Rightarrow> lockid \<Rightarrow> smp \<Rightarrow> (bool \<times> smp) outcome" where
  "holding a l st =
     obind (pushcli a st) (\<lambda>st.
     obind (mycpu a st) (\<lambda>c.
     let r = (locked (locks st l) \<noteq> 0 \<and> lcpu (locks st l) = Some c) in
     obind (popcli a st) (\<lambda>st. Inr (r, st))))"

text \<open>\<^verbatim>\<open>getcallerpcs\<close>: ten return addresses along the saved frame pointers, zeros at the end.\<close>

primrec callerpcs :: "memory \<Rightarrow> addr \<Rightarrow> nat \<Rightarrow> uint32 list" where
  "callerpcs m ebp 0 = []"
| "callerpcs m ebp (Suc k) =
     (if ebp = 0 \<or> ebp < KERNBASE \<or> ebp = 0xffffffff then replicate (Suc k) 0
      else load32 m (ebp + 4) # callerpcs m (load32 m ebp) k)"

definition getcallerpcs :: "memory \<Rightarrow> addr \<Rightarrow> uint32 list" where
  "getcallerpcs m v = callerpcs m (v - 8) 10"

text \<open>
  The spin loop of \<^verbatim>\<open>acquire\<close>. Each element of the list is what the other processors do
  between two exchanges; \<open>None\<close> is a processor that still spins.
\<close>

fun spin :: "lockid \<Rightarrow> (smp \<Rightarrow> smp) list \<Rightarrow> smp \<Rightarrow> smp option" where
  "spin l [] st = (case xchg l 1 st of (old, st) \<Rightarrow> if old \<noteq> 0 then None else Some st)"
| "spin l (e # es) st =
     (case xchg l 1 st of (old, st) \<Rightarrow> if old \<noteq> 0 then spin l es (e st) else Some st)"

definition acquire ::
    "uchar \<Rightarrow> memory \<Rightarrow> addr \<Rightarrow> lockid \<Rightarrow> (smp \<Rightarrow> smp) list \<Rightarrow> smp \<Rightarrow> smp option outcome" where
  "acquire a m v l es st =
     obind (pushcli a st) (\<lambda>st.
     obind (holding a l st) (\<lambda>(r, st).
     if r then Inl ''acquire''
     else case spin l es st of
       None \<Rightarrow> Inr None
     | Some st \<Rightarrow>
         obind (mycpu a st) (\<lambda>c.
         Inr (Some (st\<lparr>locks := (locks st)
           (l := (locks st l)\<lparr>lcpu := Some c, pcs := getcallerpcs m v\<rparr>)\<rparr>)))))"

definition release :: "uchar \<Rightarrow> lockid \<Rightarrow> smp \<Rightarrow> smp outcome" where
  "release a l st =
     obind (holding a l st) (\<lambda>(r, st).
     if \<not> r then Inl ''release''
     else
       let st = st\<lparr>locks := (locks st)
             (l := (locks st l)\<lparr>pcs := (pcs (locks st l))[0 := 0], lcpu := None\<rparr>)\<rparr>;
           st = st\<lparr>locks := (locks st)(l := (locks st l)\<lparr>locked := 0\<rparr>)\<rparr> in
       popcli a st)"

section \<open>The routines implement the list of held locks\<close>

text \<open>
  \<open>sp_rel a c h st\<close>: processor \<open>c\<close> (APIC id \<open>a\<close>) holds exactly the locks of the list \<open>h\<close>, its
  nesting counter is the length of the list, and interrupts are off while it is not empty.
\<close>

definition cpu_of :: "uchar \<Rightarrow> smp \<Rightarrow> nat option" where
  "cpu_of a st = find_idx (\<lambda>c. apicid c = a) (take (ncpu st) (cpus st))"

definition sp_rel :: "uchar \<Rightarrow> nat \<Rightarrow> lockid list \<Rightarrow> smp \<Rightarrow> bool" where
  "sp_rel a c h st \<longleftrightarrow>
     cpu_of a st = Some c \<and> ncli (cpus st ! c) = int (length h) \<and> distinct h \<and>
     (\<forall>l. l \<in> set h \<longleftrightarrow> locked (locks st l) \<noteq> 0 \<and> lcpu (locks st l) = Some c) \<and>
     (h \<noteq> [] \<longrightarrow> eflags st a AND FL_IF = 0)"

lemma FL_IF_and_not [simp]: "(x AND NOT FL_IF) AND FL_IF = 0"
  by (simp add: and.assoc)

lemma FL_IF_nz [simp]: "FL_IF \<noteq> 0"
  by (simp add: FL_IF_def)

lemma or_FL_IF [simp]: "(x OR FL_IF) AND FL_IF = FL_IF"
  by (rule bit_word_eqI) (auto simp: bit_simps)

lemma length_callerpcs [simp]: "length (callerpcs m ebp k) = k"
  by (induction k arbitrary: ebp) simp_all

lemma find_idx_upd_apicid:
  assumes "\<And>x. apicid (f x) = apicid x"
  shows "find_idx (\<lambda>c. apicid c = a) (take n (upd_nth i f xs)) =
         find_idx (\<lambda>c. apicid c = a) (take n xs)"
proof -
  have gen: "find_idx (\<lambda>c. apicid c = a) ys = find_idx (\<lambda>c. c = a) (map apicid ys)" for ys
    by (induction ys) auto
  have "map apicid (take n (upd_nth i f xs)) = map apicid (take n xs)"
    using map_upd_nth_cong [of apicid f i xs] assms by (metis take_map)
  then show ?thesis by (simp add: gen)
qed

lemma cpu_of_simps [simp]:
  "cpu_of a (st\<lparr>eflags := ef\<rparr>) = cpu_of a st"
  "cpu_of a (st\<lparr>locks := lk\<rparr>) = cpu_of a st"
  by (simp_all add: cpu_of_def)

lemma cpu_of_upd [simp]:
  "(\<And>x. apicid (f x) = apicid x) \<Longrightarrow>
   cpu_of a (st\<lparr>cpus := upd_nth i f (cpus st)\<rparr>) = cpu_of a st"
  by (simp add: cpu_of_def find_idx_upd_apicid)

lemma cpu_of_lt: "cpu_of a st = Some c \<Longrightarrow> c < length (cpus st)"
  unfolding cpu_of_def using find_idx_lt by fastforce

lemma mycpu_eq:
  "mycpu a st = (if eflags st a AND FL_IF \<noteq> 0 then Inl (''mycpu called with interrupts enabled'' @ [CHR 0x0A])
     else case cpu_of a st of Some i \<Rightarrow> Inr i | None \<Rightarrow> Inl (''unknown apicid'' @ [CHR 0x0A]))"
  by (simp add: mycpu_def cpu_of_def)

lemma pushcli_eq:
  assumes "cpu_of a st = Some c"
  shows "pushcli a st = Inr (st\<lparr>eflags := (eflags st)(a := eflags st a AND NOT FL_IF),
    cpus := upd_nth c (\<lambda>x. x\<lparr>
      intena := (if ncli x = 0 then eflags st a AND FL_IF else intena x),
      ncli := ncli x + 1\<rparr>) (cpus st)\<rparr>)"
  using assms cpu_of_lt [OF assms]
  by (auto simp: pushcli_def cli_def mycpu_eq Let_def upd_nth_def)

lemma popcli_eq:
  assumes "cpu_of a st = Some c" "eflags st a AND FL_IF = 0" "0 < ncli (cpus st ! c)"
  shows "popcli a st =
    Inr ((if ncli (cpus st ! c) = 1 \<and> intena (cpus st ! c) \<noteq> 0 then sti a else id)
      (st\<lparr>cpus := upd_nth c (\<lambda>x. x\<lparr>ncli := ncli x - 1\<rparr>) (cpus st)\<rparr>))"
  using assms cpu_of_lt [OF assms(1)] by (auto simp: popcli_def mycpu_eq Let_def)

lemma holding_nested:
  assumes "cpu_of a st = Some c" "eflags st a AND FL_IF = 0" "0 < ncli (cpus st ! c)"
  shows "holding a l st = Inr (locked (locks st l) \<noteq> 0 \<and> lcpu (locks st l) = Some c, st)"
proof -
  have lt: "c < length (cpus st)" using assms(1) by (rule cpu_of_lt)
  have ef: "eflags st a AND NOT FL_IF = eflags st a"
  proof (rule bit_word_eqI)
    fix n
    have "bit (eflags st a AND FL_IF) n = bit (0 :: uint32) n" using assms(2) by simp
    then show "bit (eflags st a AND NOT FL_IF) n = bit (eflags st a) n"
      by (auto simp: bit_simps dest: bit_imp_le_length)
  qed
  let ?st = "st\<lparr>cpus := upd_nth c (\<lambda>x. x\<lparr>ncli := ncli x + 1\<rparr>) (cpus st)\<rparr>"
  have p: "pushcli a st = Inr ?st"
    using pushcli_eq [OF assms(1)] assms(3) lt ef by (simp add: upd_nth_def)
  have c: "cpu_of a ?st = Some c" using assms(1) by simp
  have q: "popcli a ?st = Inr st"
    using popcli_eq [OF c] assms lt by (simp add: upd_nth_def)
  show ?thesis using p q c assms(2) by (simp add: holding_def mycpu_eq Let_def)
qed

lemma holding_result:
  assumes "cpu_of a st = Some c" "ncli (cpus st ! c) = 0"
  shows "\<exists>st'. holding a l st = Inr (locked (locks st l) \<noteq> 0 \<and> lcpu (locks st l) = Some c, st')"
proof -
  have lt: "c < length (cpus st)" using assms(1) by (rule cpu_of_lt)
  show ?thesis
    using pushcli_eq [OF assms(1)] assms lt
    by (auto simp: holding_def mycpu_eq Let_def popcli_def cpu_of_def find_idx_upd_apicid)
qed

text \<open>Taking a free lock, and taking a lock the processor already holds.\<close>

lemma acquire_free:
  assumes rel: "sp_rel a c h st" and free: "locked (locks st l) = 0"
  shows "\<exists>st'. acquire a m v l [] st = Inr (Some st') \<and> sp_rel a c (l # h) st' \<and>
    intena (cpus st' ! c) = (if h = [] then eflags st a AND FL_IF else intena (cpus st ! c)) \<and>
    eflags st' a = eflags st a AND NOT FL_IF"
proof -
  from rel have c: "cpu_of a st = Some c" by (simp add: sp_rel_def)
  have lt: "c < length (cpus st)" using c by (rule cpu_of_lt)
  let ?f = "\<lambda>x. x\<lparr>intena := (if ncli x = 0 then eflags st a AND FL_IF else intena x),
      ncli := ncli x + 1\<rparr>"
  let ?st = "st\<lparr>eflags := (eflags st)(a := eflags st a AND NOT FL_IF),
      cpus := upd_nth c ?f (cpus st)\<rparr>"
  have c1: "cpu_of a ?st = Some c" using c by (simp add: cpu_of_def find_idx_upd_apicid)
  have n1: "ncli (cpus ?st ! c) = int (length h) + 1" using rel lt by (simp add: sp_rel_def)
  have hold: "holding a l ?st = Inr (False, ?st)"
    using holding_nested [OF c1] n1 free by simp
  let ?lk = "(locks st l)\<lparr>locked := 1, lcpu := Some c, pcs := getcallerpcs m v\<rparr>"
  let ?st' = "?st\<lparr>locks := (locks st)(l := ?lk)\<rparr>"
  have acq: "acquire a m v l [] st = Inr (Some ?st')"
    using hold c1 free by (simp add: acquire_def pushcli_eq [OF c] xchg_def mycpu_eq)
  have "sp_rel a c (l # h) ?st'"
    using rel free n1 c1 unfolding sp_rel_def by (auto simp: cpu_of_def)
  moreover have "intena (cpus ?st' ! c) = (if h = [] then eflags st a AND FL_IF else intena (cpus st ! c))"
    using rel lt by (auto simp: sp_rel_def)
  ultimately show ?thesis using acq by auto
qed

lemma acquire_held:
  assumes rel: "sp_rel a c h st" and "l \<in> set h"
  shows "acquire a m v l es st = Inl ''acquire''"
proof -
  from rel have c: "cpu_of a st = Some c" by (simp add: sp_rel_def)
  have lt: "c < length (cpus st)" using c by (rule cpu_of_lt)
  let ?f = "\<lambda>x. x\<lparr>intena := (if ncli x = 0 then eflags st a AND FL_IF else intena x),
      ncli := ncli x + 1\<rparr>"
  let ?st = "st\<lparr>eflags := (eflags st)(a := eflags st a AND NOT FL_IF),
      cpus := upd_nth c ?f (cpus st)\<rparr>"
  have c1: "cpu_of a ?st = Some c" using c by (simp add: cpu_of_def find_idx_upd_apicid)
  have "0 < ncli (cpus ?st ! c)" using rel lt by (simp add: sp_rel_def)
  then have "holding a l ?st = Inr (True, ?st)"
    using holding_nested [OF c1] rel assms(2) by (simp add: sp_rel_def)
  then show ?thesis by (simp add: acquire_def pushcli_eq [OF c])
qed

text \<open>Letting go of a lock, and of one the processor does not hold.\<close>

lemma release_held:
  assumes rel: "sp_rel a c h st" and l: "l \<in> set h"
  shows "\<exists>st'. release a l st = Inr st' \<and> sp_rel a c (remove1 l h) st' \<and>
    locked (locks st' l) = 0 \<and> intena (cpus st' ! c) = intena (cpus st ! c) \<and>
    eflags st' a = (if h = [l] \<and> intena (cpus st ! c) \<noteq> 0 then eflags st a OR FL_IF else eflags st a)"
proof -
  from rel have c: "cpu_of a st = Some c" by (simp add: sp_rel_def)
  have lt: "c < length (cpus st)" using c by (rule cpu_of_lt)
  have pos: "0 < ncli (cpus st ! c)" and ef: "eflags st a AND FL_IF = 0"
    using rel l by (auto simp: sp_rel_def)
  have hold: "holding a l st = Inr (True, st)"
    using holding_nested [OF c ef pos] rel l by (simp add: sp_rel_def)
  let ?lk = "(locks st l)\<lparr>pcs := (pcs (locks st l))[0 := 0], lcpu := None, locked := 0\<rparr>"
  let ?st1 = "st\<lparr>locks := (locks st)(l := ?lk)\<rparr>"
  let ?st2 = "?st1\<lparr>cpus := upd_nth c (\<lambda>x. x\<lparr>ncli := ncli x - 1\<rparr>) (cpus st)\<rparr>"
  let ?st' = "(if ncli (cpus st ! c) = 1 \<and> intena (cpus st ! c) \<noteq> 0 then sti a else id) ?st2"
  have rls: "release a l st = Inr ?st'"
    using hold popcli_eq [of a ?st1 c] c ef pos by (simp add: release_def Let_def)
  have one: "ncli (cpus st ! c) = 1 \<longleftrightarrow> h = [l]"
  proof -
    have "ncli (cpus st ! c) = int (length h)" using rel by (simp add: sp_rel_def)
    then show ?thesis using l by (cases h) auto
  qed
  have d: "distinct h" using rel by (simp add: sp_rel_def)
  have len: "int (length (remove1 l h)) = int (length h) - 1"
    using l length_pos_if_in_set [of l h] by (simp add: length_remove1 of_nat_diff Suc_leI)
  have "sp_rel a c (remove1 l h) ?st'"
    using rel l lt d one ef c len unfolding sp_rel_def
    by (auto simp: sti_def cpu_of_def find_idx_upd_apicid)
  then show ?thesis
    using rls one lt by (auto simp: sti_def)
qed

lemma release_not_held:
  assumes rel: "sp_rel a c h st" and l: "l \<notin> set h"
  shows "release a l st = Inl ''release''"
proof (cases h)
  case Nil
  with rel obtain st' where "holding a l st = Inr (False, st')"
    using holding_result [of a st c l] by (auto simp: sp_rel_def)
  then show ?thesis by (simp add: release_def)
next
  case (Cons k ks)
  with rel have "holding a l st = Inr (locked (locks st l) \<noteq> 0 \<and> lcpu (locks st l) = Some c, st)"
    by (intro holding_nested) (auto simp: sp_rel_def)
  moreover have "\<not> (locked (locks st l) \<noteq> 0 \<and> lcpu (locks st l) = Some c)"
    using rel l by (simp add: sp_rel_def)
  ultimately show ?thesis by (simp add: release_def)
qed

section \<open>The interface the kernel relies on\<close>

text \<open>
  What a caller may assume of a lock: \<open>inv h s\<close> reads the list of held locks off the state,
  \<open>free l s\<close> says that nobody holds \<open>l\<close>. Both the machine-level routines and the list of
  \<open>Machine\<close> meet the contract.
\<close>

locale lock_api =
  fixes acq :: "lockid \<Rightarrow> 's \<Rightarrow> string + 's"
    and rel :: "lockid \<Rightarrow> 's \<Rightarrow> string + 's"
    and inv :: "lockid list \<Rightarrow> 's \<Rightarrow> bool"
    and free :: "lockid \<Rightarrow> 's \<Rightarrow> bool"
  assumes inv_distinct: "inv h s \<Longrightarrow> distinct h"
    and acq_free: "inv h s \<Longrightarrow> free l s \<Longrightarrow> l \<notin> set h \<Longrightarrow> \<exists>t. acq l s = Inr t \<and> inv (l # h) t"
    and acq_held: "inv h s \<Longrightarrow> l \<in> set h \<Longrightarrow> acq l s = Inl ''acquire''"
    and rel_held: "inv h s \<Longrightarrow> l \<in> set h \<Longrightarrow> \<exists>t. rel l s = Inr t \<and> inv (remove1 l h) t \<and> free l t"
    and rel_not_held: "inv h s \<Longrightarrow> l \<notin> set h \<Longrightarrow> rel l s = Inl ''release''"
begin

lemma critical_section:
  assumes "inv h s" "free l s" "l \<notin> set h"
  shows "\<exists>t u. acq l s = Inr t \<and> inv (l # h) t \<and> rel l t = Inr u \<and> inv h u \<and> free l u"
proof -
  obtain t where t: "acq l s = Inr t" "inv (l # h) t" using acq_free [OF assms] by blast
  obtain u where "rel l t = Inr u" "inv (remove1 l (l # h)) u" "free l u"
    using rel_held [OF t(2), of l] by auto
  with t show ?thesis by auto
qed

lemma double_release:
  assumes "inv h s" "l \<in> set h"
  shows "\<exists>t. rel l s = Inr t \<and> rel l t = Inl ''release''"
proof -
  obtain t where t: "rel l s = Inr t" "inv (remove1 l h) t" using rel_held [OF assms] by blast
  have "l \<notin> set (remove1 l h)" using inv_distinct [OF assms(1)] by simp
  with t show ?thesis using rel_not_held by blast
qed

end

definition sp_acquire :: "uchar \<Rightarrow> memory \<Rightarrow> addr \<Rightarrow> lockid \<Rightarrow> smp \<Rightarrow> smp outcome" where
  "sp_acquire a m v l st = (case acquire a m v l [] st of
      Inl msg \<Rightarrow> Inl msg | Inr None \<Rightarrow> Inl ''spins'' | Inr (Some st') \<Rightarrow> Inr st')"

interpretation spin: lock_api "sp_acquire a m v" "release a" "sp_rel a c"
    "\<lambda>l st. locked (locks st l) = 0"
  for a m v c
proof unfold_locales
  fix h st l
  assume rel: "sp_rel a c h st"
  show "distinct h" using rel by (simp add: sp_rel_def)
  show "\<exists>t. sp_acquire a m v l st = Inr t \<and> sp_rel a c (l # h) t"
    if "locked (locks st l) = 0"
    using acquire_free [OF rel that, of m v] by (auto simp: sp_acquire_def)
  show "sp_acquire a m v l st = Inl ''acquire''" if "l \<in> set h"
    using acquire_held [OF rel that] by (simp add: sp_acquire_def)
  show "\<exists>t. release a l st = Inr t \<and> sp_rel a c (remove1 l h) t \<and> locked (locks t l) = 0"
    if "l \<in> set h"
    using release_held [OF rel that] by blast
  show "release a l st = Inl ''release''" if "l \<notin> set h"
    using release_not_held [OF rel that] .
qed

definition run_lk :: "('s, unit) kprog \<Rightarrow> 's \<Rightarrow> 's outcome" where
  "run_lk m s = (case m s [] of Ok r s' e \<Rightarrow> Inr s' | Panic msg \<Rightarrow> Inl msg | _ \<Rightarrow> Inl ''blocked'')"

interpretation held_list: lock_api "\<lambda>l. run_lk (lk_acquire l)" "\<lambda>l. run_lk (lk_release l)"
    "\<lambda>h s. held s = h \<and> distinct h" "\<lambda>l s. l \<notin> set (held (s :: 'z mach_scheme))"
  by unfold_locales (auto simp: run_lk_def lk_acquire_apply lk_release_apply)

section \<open>Processors that interleave\<close>

text \<open>
  Where a processor is: outside; in the loop of \<^verbatim>\<open>acquire\<close>; past the successful exchange but
  with \<^verbatim>\<open>lk->cpu\<close> not yet set; in the critical section; in \<^verbatim>\<open>release\<close> with \<^verbatim>\<open>lk->cpu\<close> already
  cleared. Each step is one access to the lock.
\<close>

datatype spc = Out | Spinning | Got | Crit | Clearing

inductive spin_step :: "(nat \<Rightarrow> spc) \<times> spinlock \<Rightarrow> (nat \<Rightarrow> spc) \<times> spinlock \<Rightarrow> bool" where
  enter: "pc c = Out \<Longrightarrow> \<not> (locked lk \<noteq> 0 \<and> lcpu lk = Some c) \<Longrightarrow>
    spin_step (pc, lk) (pc(c := Spinning), lk)"
| retry: "pc c = Spinning \<Longrightarrow> locked lk \<noteq> 0 \<Longrightarrow> spin_step (pc, lk) (pc, lk\<lparr>locked := 1\<rparr>)"
| take: "pc c = Spinning \<Longrightarrow> locked lk = 0 \<Longrightarrow>
    spin_step (pc, lk) (pc(c := Got), lk\<lparr>locked := 1\<rparr>)"
| own: "pc c = Got \<Longrightarrow> spin_step (pc, lk) (pc(c := Crit), lk\<lparr>lcpu := Some c, pcs := ps\<rparr>)"
| disown: "pc c = Crit \<Longrightarrow> locked lk \<noteq> 0 \<and> lcpu lk = Some c \<Longrightarrow>
    spin_step (pc, lk) (pc(c := Clearing), lk\<lparr>pcs := (pcs lk)[0 := 0], lcpu := None\<rparr>)"
| unlock: "pc c = Clearing \<Longrightarrow> spin_step (pc, lk) (pc(c := Out), lk\<lparr>locked := 0\<rparr>)"

inductive spin_reach :: "(nat \<Rightarrow> spc) \<times> spinlock \<Rightarrow> bool" where
  start: "locked lk = 0 \<Longrightarrow> lcpu lk = None \<Longrightarrow> spin_reach (\<lambda>_. Out, lk)"
| step: "spin_reach x \<Longrightarrow> spin_step x y \<Longrightarrow> spin_reach y"

inductive_cases spin_stepE: "spin_step (pc, lk) y"

definition owns :: "spc \<Rightarrow> bool" where
  "owns p \<longleftrightarrow> p = Got \<or> p = Crit \<or> p = Clearing"

text \<open>
  The invariant: the lock word is 0 and nobody owns the lock, or it is 1, exactly one
  processor owns it, and \<^verbatim>\<open>lk->cpu\<close> names that processor exactly while it is in its critical
  section.
\<close>

definition spin_inv :: "(nat \<Rightarrow> spc) \<times> spinlock \<Rightarrow> bool" where
  "spin_inv = (\<lambda>(pc, lk).
     locked lk = 0 \<and> lcpu lk = None \<and> (\<forall>c. \<not> owns (pc c)) \<or>
     locked lk = 1 \<and> (\<exists>c. owns (pc c) \<and> (\<forall>d. owns (pc d) \<longrightarrow> d = c) \<and>
       lcpu lk = (if pc c = Crit then Some c else None)))"

lemma spin_inv_free:
  "locked lk = 0 \<Longrightarrow> spin_inv (pc, lk) \<longleftrightarrow> lcpu lk = None \<and> (\<forall>c. \<not> owns (pc c))"
  by (simp add: spin_inv_def)

lemma spin_inv_taken:
  "owns (pc c) \<Longrightarrow> spin_inv (pc, lk) \<longleftrightarrow>
     locked lk = 1 \<and> (\<forall>d. owns (pc d) \<longrightarrow> d = c) \<and>
     lcpu lk = (if pc c = Crit then Some c else None)"
  unfolding spin_inv_def by (simp, metis)

lemma owns_simps [simp]:
  "\<not> owns Out" "\<not> owns Spinning" "owns Got" "owns Crit" "owns Clearing"
  by (simp_all add: owns_def)

lemma spin_inv_ownerI:
  "owns (pc c) \<Longrightarrow> locked lk = 1 \<Longrightarrow> (\<And>d. d \<noteq> c \<Longrightarrow> \<not> owns (pc d)) \<Longrightarrow>
   lcpu lk = (if pc c = Crit then Some c else None) \<Longrightarrow> spin_inv (pc, lk)"
  by (rule spin_inv_taken [THEN iffD2]) blast+

lemma spin_inv_owner_unique: "spin_inv (pc, lk) \<Longrightarrow> owns (pc c) \<Longrightarrow> d \<noteq> c \<Longrightarrow> \<not> owns (pc d)"
  using spin_inv_taken by blast

lemma spin_step_inv: "spin_step x y \<Longrightarrow> spin_inv x \<Longrightarrow> spin_inv y"
proof (induction rule: spin_step.induct)
  case (enter pc c lk)
  then have own: "owns ((pc(c := Spinning)) d) = owns (pc d)"
    "((pc(c := Spinning)) d = Crit) = (pc d = Crit)" for d
    by (auto simp: owns_def)
  from enter.prems show ?case unfolding spin_inv_def prod.case own .
next
  case (retry pc c lk)
  then show ?case by (simp add: spin_inv_def)
next
  case (take pc c lk)
  then have "lcpu lk = None" "\<And>d. \<not> owns (pc d)" by (simp_all add: spin_inv_free)
  then show ?case by (intro spin_inv_ownerI [of _ c]) simp_all
next
  case (own pc c lk ps)
  then have "owns (pc c)" by simp
  with own.prems have "locked lk = 1" "\<And>d. d \<noteq> c \<Longrightarrow> \<not> owns (pc d)"
    by (metis spin_inv_taken)+
  then show ?case by (intro spin_inv_ownerI [of _ c]) simp_all
next
  case (disown pc c lk)
  then have "owns (pc c)" by simp
  with disown.prems have "locked lk = 1" "\<And>d. d \<noteq> c \<Longrightarrow> \<not> owns (pc d)"
    by (metis spin_inv_taken)+
  then show ?case by (intro spin_inv_ownerI [of _ c]) simp_all
next
  case (unlock pc c lk)
  then have "owns (pc c)" "pc c \<noteq> Crit" by simp_all
  with unlock.prems have "lcpu lk = None" "\<And>d. d \<noteq> c \<Longrightarrow> \<not> owns (pc d)"
    by (metis spin_inv_taken)+
  then show ?case by (subst spin_inv_free) simp_all
qed

lemma spin_reach_inv: "spin_reach x \<Longrightarrow> spin_inv x"
proof (induction rule: spin_reach.induct)
  case (start lk)
  then show ?case by (simp add: spin_inv_def)
qed (rule spin_step_inv)

section \<open>Properties\<close>

lemma FL_IF_cases: "x AND FL_IF = 0 \<or> x AND FL_IF = FL_IF"
proof -
  have "bit (2 ^ 9 :: uint32) n \<longleftrightarrow> n = 9" for n
    by (subst bit_exp_iff) auto
  then have FL: "bit FL_IF n \<longleftrightarrow> n = 9" for n by (simp add: FL_IF_def)
  show ?thesis
  proof (cases "bit x 9")
    case True
    then have "x AND FL_IF = FL_IF" by (intro bit_word_eqI) (auto simp: FL bit_and_iff)
    then show ?thesis ..
  next
    case False
    then have "x AND FL_IF = 0" by (intro bit_word_eqI) (auto simp: FL bit_and_iff)
    then show ?thesis ..
  qed
qed

text \<open>The outcomes of the same call at both levels agree.\<close>

fun same_outcome :: "uchar \<Rightarrow> nat \<Rightarrow> smp outcome \<Rightarrow> 'z mach_scheme outcome \<Rightarrow> bool" where
  "same_outcome a c (Inl x) (Inl y) = (x = y)"
| "same_outcome a c (Inr st) (Inr s) = sp_rel a c (held s) st"
| "same_outcome a c _ _ = False"

text \<open>
  A concrete machine: one processor, interrupts on, every lock free.
\<close>

definition smp1 :: smp where
  "smp1 = \<lparr>eflags = (\<lambda>_. FL_IF), cpus = [\<lparr>apicid = 0, ncli = 0, intena = 0\<rparr>], ncpu = 1,
     locks = (\<lambda>_. \<lparr>locked = 0, lname = [], lcpu = None, pcs = replicate 10 0\<rparr>)\<rparr>"

lemma sp_rel_smp1: "sp_rel 0 0 [] smp1"
  by (simp add: sp_rel_def cpu_of_def smp1_def)

lemma spin_reach_got: "spin_reach ((\<lambda>_. Out)(0 := Got), (locks smp1 l)\<lparr>locked := 1\<rparr>)"
proof -
  have "spin_reach (\<lambda>_. Out, locks smp1 l)" by (rule spin_reach.start) (simp_all add: smp1_def)
  then have "spin_reach ((\<lambda>_. Out)(0 := Spinning), locks smp1 l)"
    by (rule spin_reach.step) (rule spin_step.enter, simp_all add: smp1_def)
  then have "spin_reach (((\<lambda>_. Out)(0 := Spinning))(0 := Got), (locks smp1 l)\<lparr>locked := 1\<rparr>)"
    by (rule spin_reach.step) (rule spin_step.take, simp_all add: smp1_def)
  then show ?thesis by simp
qed

text \<open>
  The test \<^verbatim>\<open>holding(lk)\<close> is true of a processor exactly while it is in its critical section.
\<close>

lemma spinlock_holding_exact:
  assumes "spin_reach (pc, lk)"
  shows "(locked lk \<noteq> 0 \<and> lcpu lk = Some c) = (pc c = Crit)"
proof -
  have inv: "spin_inv (pc, lk)" using assms by (rule spin_reach_inv)
  show ?thesis
  proof (cases "locked lk = 0")
    case True
    then have "\<not> owns (pc c)" using inv by (simp add: spin_inv_free)
    then show ?thesis using True by auto
  next
    case False
    then obtain d where d: "owns (pc d)" "lcpu lk = (if pc d = Crit then Some d else None)"
      using inv by (auto simp: spin_inv_def)
    have "pc c \<noteq> Crit" if "c \<noteq> d"
      using spin_inv_owner_unique [OF inv d(1) that] by auto
    then show ?thesis using False d(2) by (cases "c = d") (auto split: if_splits)
  qed
qed

text \<open>
  C1. Mutual exclusion of a spinlock. However the single memory operations of \<^verbatim>\<open>acquire\<close> and
  \<^verbatim>\<open>release\<close> on any number of processors interleave, at most one processor is between its
  successful exchange and the clearing of the lock word; and the test \<^verbatim>\<open>holding(lk)\<close> is true of a
  processor exactly in its critical section, so that one that follows the protocol never triggers the
  panics of the two routines.
\<close>

theorem spinlock_mutual_exclusion:
  assumes "spin_reach (pc, lk)"
  shows "(owns (pc c) \<longrightarrow> owns (pc d) \<longrightarrow> c = d) \<and> ((locked lk \<noteq> 0 \<and> lcpu lk = Some c) = (pc c = Crit))"
proof
  show "owns (pc c) \<longrightarrow> owns (pc d) \<longrightarrow> c = d"
    using spin_inv_owner_unique [OF spin_reach_inv [OF assms]] by blast
qed (rule spinlock_holding_exact [OF assms])

theorem spinlock_mutual_exclusion_witness:
  "\<exists>pc lk. spin_reach (pc, lk) \<and> {d. owns (pc d)} = {0}"
proof -
  let ?pc = "(\<lambda>_ :: nat. Out)(0 := Got)"
  have "d = 0" if "owns (?pc d)" for d
    using spinlock_mutual_exclusion [OF spin_reach_got, THEN conjunct1, rule_format, OF that, of 0] by simp
  then have "{d. owns (?pc d)} \<subseteq> {0}" by blast
  moreover have "0 \<in> {d. owns (?pc d)}" by simp
  ultimately have "{d. owns (?pc d)} = {0}" by blast
  then show ?thesis using spin_reach_got by blast
qed

text \<open>
  C21. Taking and letting go of a lock restores the interrupt flag: interrupts are off in
  between, and afterwards they are as they were before, whatever they were.
\<close>

theorem acquire_release_interrupts:
  assumes "sp_rel a c [] st" "locked (locks st l) = 0"
  shows "\<exists>t u. acquire a m v l [] st = Inr (Some t) \<and> sp_rel a c [l] t \<and>
    eflags t a AND FL_IF = 0 \<and> release a l t = Inr u \<and> sp_rel a c [] u \<and>
    locked (locks u l) = 0 \<and> eflags u a AND FL_IF = eflags st a AND FL_IF"
proof -
  obtain t where t: "acquire a m v l [] st = Inr (Some t)" "sp_rel a c [l] t"
    "intena (cpus t ! c) = eflags st a AND FL_IF" "eflags t a = eflags st a AND NOT FL_IF"
    using acquire_free [OF assms, of m v] by auto
  obtain u where u: "release a l t = Inr u" "sp_rel a c [] u" "locked (locks u l) = 0"
    "eflags u a = (if intena (cpus t ! c) \<noteq> 0 then eflags t a OR FL_IF else eflags t a)"
    using release_held [OF t(2), of l] by auto
  have "eflags u a AND FL_IF = eflags st a AND FL_IF"
    using FL_IF_cases [of "eflags st a"] u(4) t(3,4) by auto
  with t u show ?thesis by (intro exI [of _ t] exI [of _ u]) simp
qed

theorem acquire_release_interrupts_witness:
  "\<exists>t u. acquire 0 (\<lambda>_. 0) 0 PtableLock [] smp1 = Inr (Some t) \<and> sp_rel 0 0 [PtableLock] t \<and>
    eflags t 0 AND FL_IF = 0 \<and> release 0 PtableLock t = Inr u \<and> sp_rel 0 0 [] u \<and>
    locked (locks u PtableLock) = 0 \<and> eflags u 0 AND FL_IF = FL_IF"
  using acquire_release_interrupts [OF sp_rel_smp1, of PtableLock "\<lambda>_. 0" 0]
  by (simp add: smp1_def)

text \<open>
  C20. The locks of \<^verbatim>\<open>spinlock.c\<close> implement the list of held locks the rest of the kernel is
  stated over: \<^verbatim>\<open>acquire\<close> and \<^verbatim>\<open>release\<close> return related states, and panic in the same cases with
  the same message. The lock a processor asks for is free if the processor does not hold it
  itself.
\<close>

theorem spinlock_refines_held_list:
  assumes rel: "sp_rel a c (held s) st"
    and free: "l \<notin> set (held s) \<Longrightarrow> locked (locks st l) = 0"
  shows "same_outcome a c (sp_acquire a m v l st) (run_lk (lk_acquire l) s) \<and>
    same_outcome a c (release a l st) (run_lk (lk_release l) s)"
proof (cases "l \<in> set (held s)")
  case True
  then show ?thesis
    using spin.acq_held [OF rel True] spin.rel_held [OF rel True]
    by (auto simp: run_lk_def lk_acquire_apply lk_release_apply)
next
  case False
  obtain t where "sp_acquire a m v l st = Inr t" "sp_rel a c (l # held s) t"
    using spin.acq_free [OF rel free [OF False] False] by blast
  with False show ?thesis
    using spin.rel_not_held [OF rel False]
    by (simp add: run_lk_def lk_acquire_apply lk_release_apply)
qed

theorem spinlock_refines_held_list_witness:
  "same_outcome 0 0 (sp_acquire 0 (\<lambda>_. 0) 0 PtableLock smp1)
     (run_lk (lk_acquire PtableLock) \<lparr>mem = (\<lambda>_. 0), held = []\<rparr>) \<and>
   same_outcome 0 0 (release 0 PtableLock smp1)
     (run_lk (lk_release PtableLock) \<lparr>mem = (\<lambda>_. 0), held = []\<rparr>)"
  using spinlock_refines_held_list [of 0 0 "\<lparr>mem = (\<lambda>_. 0), held = []\<rparr>" smp1 PtableLock "\<lambda>_. 0" 0]
    sp_rel_smp1 by (simp add: smp1_def)

end
