(* ===== verification/Console.thy ===== *)
theory Console
  imports Inode Spinlock
begin

text \<open>
  The input half of \<^verbatim>\<open>console.c\<close>, the serial port (\<^verbatim>\<open>uart.c\<close>), the keyboard (\<^verbatim>\<open>kbd.c\<close>, with the
  tables of \<^verbatim>\<open>kbd.h\<close>) and the process listing of \<^verbatim>\<open>proc.c\<close> that the console prints on request.
  What the devices deliver is an argument: the characters \<^verbatim>\<open>getc\<close> returns before a negative one, the
  bytes of the keyboard's data port.
\<close>

section \<open>The process listing\<close>

definition state_name :: "threadstate \<Rightarrow> string" where
  "state_name st =
     (case st of T_UNUSED \<Rightarrow> ''t_unused'' | T_EMBRYO \<Rightarrow> ''t_embryo'' | T_SLEEPING \<Rightarrow> ''t_sleep ''
      | T_RUNNABLE \<Rightarrow> ''t_runble'' | T_RUNNING \<Rightarrow> ''t_run   '' | T_ZOMBIE \<Rightarrow> ''t_zombie'')"

definition CONTEXT_EBP :: uint32 where "CONTEXT_EBP = 12"

text \<open>The loop over the return addresses stops at the first zero.\<close>

definition procdump :: "unit kern" where
  "procdump = kfor (\<lambda>t.
     kbind (kget (\<lambda>s. pstate (ptable s ! fst t))) (\<lambda>ps.
     kwhen (ps \<noteq> UNUSED)
      (kbind (kget (\<lambda>s. thread_at s t)) (\<lambda>th.
       kseq (cprintf ''%d %s %s'' [AInt (tid th), AStr (Some (state_name (tstate th))), AStr (Some (tname th))])
      (kbind (kget (\<lambda>s. tstate (thread_at s t))) (\<lambda>st.
       kseq (kwhen (st = T_SLEEPING)
         (kbind (kget (\<lambda>s. getcallerpcs (mem s)
             (load32 (mem s) (tcontext (thread_at s t) + CONTEXT_EBP) + 8))) (\<lambda>pc.
          kfor (\<lambda>a. cprintf '' %p'' [AInt a]) (takeWhile (\<lambda>a. a \<noteq> 0) pc))))
      (cprintf [char_of (10 :: nat)] []))))))) slots"

section \<open>The line discipline\<close>

definition INPUT_BUF :: uint32 where "INPUT_BUF = 128"

text \<open>\<^verbatim>\<open>C(x)\<close>, the control characters the code uses, and the other characters it names.\<close>

definition C_P :: uint32 where "C_P = 0x10"
definition C_U :: uint32 where "C_U = 0x15"
definition C_H :: uint32 where "C_H = 8"
definition C_D :: uint32 where "C_D = 4"
definition NL :: uint32 where "NL = 10"
definition CR :: uint32 where "CR = 13"
definition DEL :: uint32 where "DEL = 0x7f"

definition cons_char :: "consinput \<Rightarrow> uint32 \<Rightarrow> uchar" where
  "cons_char b i = cbuf b ! unat (i mod INPUT_BUF)"

definition upd_input :: "(consinput \<Rightarrow> consinput) \<Rightarrow> kernel \<Rightarrow> kernel" where
  "upd_input f s = s\<lparr>input := f (input s)\<rparr>"

text \<open>Control-U: the loop moves \<^verbatim>\<open>e\<close> down to \<^verbatim>\<open>w\<close> at most.\<close>

definition kill_line :: "unit kern" where
  "kill_line = kbind (kget input) (\<lambda>b0.
     kloop (Suc (unat (ce b0 - cw b0))) (\<lambda>_.
       kbind (kget input) (\<lambda>b.
       if ce b \<noteq> cw b \<and> cons_char b (ce b - 1) \<noteq> ucast NL then
         kseq (kmod (upd_input (\<lambda>b. b\<lparr>ce := ce b - 1\<rparr>)))
        (kseq (consputc BACKSPACE) (kret (Inl ())))
       else kret (Inr ()))) ())"

text \<open>One round of the loop of \<^verbatim>\<open>consoleintr\<close>; the result says whether a listing was asked for.\<close>

definition cons_key :: "uint32 \<Rightarrow> bool kern" where
  "cons_key c =
     (if c = C_P then kret True
      else if c = C_U then kseq kill_line (kret False)
      else if c = C_H \<or> c = DEL then
        kbind (kget input) (\<lambda>b.
        kseq (kwhen (ce b \<noteq> cw b)
          (kseq (kmod (upd_input (\<lambda>b. b\<lparr>ce := ce b - 1\<rparr>))) (consputc BACKSPACE)))
       (kret False))
      else
        kbind (kget input) (\<lambda>b.
        kseq (kwhen (c \<noteq> 0 \<and> ce b - cr b < INPUT_BUF)
          (let c = (if c = CR then NL else c) in
           kseq (kmod (upd_input (\<lambda>b. b\<lparr>cbuf := (cbuf b)[unat (ce b mod INPUT_BUF) := ucast c], ce := ce b + 1\<rparr>)))
          (kseq (consputc c)
          (kbind (kget input) (\<lambda>b.
           kwhen (c = NL \<or> c = C_D \<or> ce b = cr b + INPUT_BUF)
            (kseq (kmod (upd_input (\<lambda>b. b\<lparr>cw := ce b\<rparr>)))
            (wakeup ChInput)))))))
       (kret False)))"

primrec cons_keys :: "uint32 list \<Rightarrow> bool \<Rightarrow> bool kern" where
  "cons_keys [] dump = kret dump"
| "cons_keys (c # cs) dump = kbind (cons_key c) (\<lambda>d. cons_keys cs (dump \<or> d))"

definition consoleintr :: "uint32 list \<Rightarrow> unit kern" where
  "consoleintr cs =
     kseq (lk_acquire ConsLock)
    (kbind (cons_keys cs False) (\<lambda>doprocdump.
     kseq (lk_release ConsLock)
    (kwhen doprocdump procdump)))"

section \<open>Reading and writing\<close>

text \<open>
  The destination of a read is given by a pointer \<open>dst\<close> and the operation \<open>put\<close> that stores bytes
  through it and returns the advanced pointer: user memory, or a local variable of the kernel.
\<close>

definition cons_wait :: "bool option kern" where
  "cons_wait =
     kbind (kget input) (\<lambda>b.
     if cr b \<noteq> cw b then kret (Some True)
     else
       kbind myproc (\<lambda>p. deref p (\<lambda>p.
       kbind (kget (\<lambda>s. killed (ptable s ! p))) (\<lambda>k.
       if k \<noteq> 0 then kret (Some False)
       else kseq (sleep ChInput ConsLock) (kret None)))))"

definition cons_next :: "uchar kern" where
  "cons_next =
     kbind (kget (\<lambda>s. cons_char (input s) (cr (input s)))) (\<lambda>c.
     kseq (kmod (upd_input (\<lambda>b. b\<lparr>cr := cr b + 1\<rparr>))) (kret c))"

definition consoleread ::
    "('d \<Rightarrow> uchar list \<Rightarrow> 'd kern) \<Rightarrow> 'd \<Rightarrow> nat \<Rightarrow> uint32 \<Rightarrow> (uint32 \<times> 'd) kern" where
  "consoleread put dst i n =
     kseq (iunlock (Some i))
    (kseq (lk_acquire ConsLock)
    (kbind (kloop (Suc (unat n)) (\<lambda>(dst, k).
       if \<not> 0 < sint k then kret (Inr (Some (dst, k)))
       else
         kbind (kwait cons_wait) (\<lambda>ok.
         if \<not> ok then kret (Inr None)
         else
           kbind cons_next (\<lambda>c.
           if c = ucast C_D then
             kseq (kwhen (k < n) (kmod (upd_input (\<lambda>b. b\<lparr>cr := cr b - 1\<rparr>))))
            (kret (Inr (Some (dst, k))))
           else
             kbind (put dst [c]) (\<lambda>dst.
             if c = ucast NL then kret (Inr (Some (dst, k - 1))) else kret (Inl (dst, k - 1))))))
       (dst, n)) (\<lambda>r.
     kseq (lk_release ConsLock)
    (kseq (ilock (Some i))
    (case r of None \<Rightarrow> kret (-1, dst) | Some (dst, k) \<Rightarrow> kret (n - k, dst))))))"

text \<open>The source of a write is a pointer with the operation that loads bytes and advances it.\<close>

definition consolewrite ::
    "('d \<Rightarrow> nat \<Rightarrow> (uchar list \<times> 'd) kern) \<Rightarrow> 'd \<Rightarrow> nat \<Rightarrow> uint32 \<Rightarrow> uint32 kern" where
  "consolewrite get src i n =
     kseq (iunlock (Some i))
    (kseq (lk_acquire ConsLock)
    (kseq (kloop (Suc (unat n)) (\<lambda>(src, k).
       if \<not> sint k < sint n then kret (Inr ())
       else
         kbind (get src 1) (\<lambda>(bs, src).
         kseq (kfor (\<lambda>b. consputc (ucast b)) bs) (kret (Inl (src, k + 1))))) (src, 0 :: uint32))
    (kseq (lk_release ConsLock)
    (kseq (ilock (Some i))
    (kret n)))))"

definition CONSOLE :: nat where "CONSOLE = 1"

definition consoleinit :: "unit kern" where
  "consoleinit = kmod (\<lambda>s. s\<lparr>devsw := (devsw s)[CONSOLE := True], cons_locking := 1\<rparr>)"

section \<open>The serial port\<close>

text \<open>\<^verbatim>\<open>uartinit\<close>; \<open>status\<close> is what the line status register reads.\<close>

definition uartinit :: "uchar \<Rightarrow> unit kern" where
  "uartinit status =
     (if status = 0xFF then kret ()
      else
        kseq (kmod (\<lambda>s. s\<lparr>uart := 1\<rparr>))
       (kfor (\<lambda>c. uartputc (of_char c)) (''xv6...'' @ [char_of (10 :: nat)])))"

text \<open>\<^verbatim>\<open>uartgetc\<close>: the bytes the receiver holds, one per call, when there is a port.\<close>

definition uartgetc :: "uint32 \<Rightarrow> uchar list \<Rightarrow> (uint32 \<times> uchar list) option" where
  "uartgetc u rx = (if u = 0 then None else case rx of [] \<Rightarrow> None | b # rx \<Rightarrow> Some (ucast b, rx))"

fun uart_drain :: "uint32 \<Rightarrow> uchar list \<Rightarrow> uint32 list" where
  "uart_drain u [] = []"
| "uart_drain u (b # rx) = (case uartgetc u (b # rx) of None \<Rightarrow> [] | Some (c, _) \<Rightarrow> c # uart_drain u rx)"

definition uartintr :: "uchar list \<Rightarrow> unit kern" where
  "uartintr rx = kbind (kget uart) (\<lambda>u. consoleintr (uart_drain u rx))"

section \<open>The keyboard\<close>

text \<open>
  The tables of \<^verbatim>\<open>kbd.h\<close>: the entries in order from index 0, then the designated ones; the rest are
  zero. The characters are written as their codes.
\<close>

definition table :: "uchar list \<Rightarrow> (nat \<times> uchar) list \<Rightarrow> uchar list" where
  "table xs es = fold (\<lambda>(i, v) t. t[i := v]) es (xs @ replicate (256 - length xs) 0)"

definition SHIFT :: uint32 where "SHIFT = 1"
definition CTL :: uint32 where "CTL = 2"
definition ALT :: uint32 where "ALT = 4"
definition CAPSLOCK :: uint32 where "CAPSLOCK = 8"
definition NUMLOCK :: uint32 where "NUMLOCK = 16"
definition SCROLLLOCK :: uint32 where "SCROLLLOCK = 32"
definition E0ESC :: uint32 where "E0ESC = 64"

definition shiftcode :: "uchar list" where
  "shiftcode = table
    []
    [(0x1D, 2), (0x2A, 1), (0x36, 1), (0x38, 4), (0x9D, 2), (0xB8, 4)]"

definition togglecode :: "uchar list" where
  "togglecode = table
    []
    [(0x3A, 8), (0x45, 16), (0x46, 32)]"

definition normalmap :: "uchar list" where
  "normalmap = table
    [0, 27, 49, 50, 51, 52, 53, 54, 55, 56, 57, 48, 45, 61, 8, 9,
     113, 119, 101, 114, 116, 121, 117, 105, 111, 112, 91, 93, 10, 0, 97, 115,
     100, 102, 103, 104, 106, 107, 108, 59, 39, 96, 0, 92, 122, 120, 99, 118,
     98, 110, 109, 44, 46, 47, 0, 42, 0, 32, 0, 0, 0, 0, 0, 0,
     0, 0, 0, 0, 0, 0, 0, 55, 56, 57, 45, 52, 53, 54, 43, 49,
     50, 51, 48, 46, 0, 0, 0, 0]
    [(0x9C, 10), (0xB5, 47), (0xC8, 226), (0xD0, 227), (0xC9, 230), (0xD1, 231), (0xCB, 228), (0xCD, 229), (0x97, 224), (0xCF, 225), (0xD2, 232), (0xD3, 233)]"

definition shiftmap :: "uchar list" where
  "shiftmap = table
    [0, 27, 33, 64, 35, 36, 37, 94, 38, 42, 40, 41, 95, 43, 8, 9,
     81, 87, 69, 82, 84, 89, 85, 73, 79, 80, 123, 125, 10, 0, 65, 83,
     68, 70, 71, 72, 74, 75, 76, 58, 34, 126, 0, 124, 90, 88, 67, 86,
     66, 78, 77, 60, 62, 63, 0, 42, 0, 32, 0, 0, 0, 0, 0, 0,
     0, 0, 0, 0, 0, 0, 0, 55, 56, 57, 45, 52, 53, 54, 43, 49,
     50, 51, 48, 46, 0, 0, 0, 0]
    [(0x9C, 10), (0xB5, 47), (0xC8, 226), (0xD0, 227), (0xC9, 230), (0xD1, 231), (0xCB, 228), (0xCD, 229), (0x97, 224), (0xCF, 225), (0xD2, 232), (0xD3, 233)]"

definition ctlmap :: "uchar list" where
  "ctlmap = table
    [0, 0, 0, 0, 0, 0, 0, 0, 0, 0, 0, 0, 0, 0, 0, 0,
     17, 23, 5, 18, 20, 25, 21, 9, 15, 16, 0, 0, 13, 0, 1, 19,
     4, 6, 7, 8, 10, 11, 12, 0, 0, 0, 0, 28, 26, 24, 3, 22,
     2, 14, 13, 0, 0, 239, 0, 0]
    [(0x9C, 13), (0xB5, 239), (0xC8, 226), (0xD0, 227), (0xC9, 230), (0xD1, 231), (0xCB, 228), (0xCD, 229), (0x97, 224), (0xCF, 225), (0xD2, 232), (0xD3, 233)]"

definition charcode :: "uint32 \<Rightarrow> uchar list" where
  "charcode k = (if k = 0 then normalmap else if k = 1 then shiftmap else ctlmap)"

text \<open>
  \<^verbatim>\<open>kbdgetc\<close> for a byte of the data port: the new shift state and the character, 0 for none. When the
  port has no byte, \<^verbatim>\<open>kbdgetc\<close> returns -1 and changes nothing.
\<close>

definition kbdgetc :: "uint32 \<Rightarrow> uchar \<Rightarrow> uint32 \<times> uint32" where
  "kbdgetc shift b =
     (let data = ucast b :: uint32 in
      if data = 0xE0 then (shift OR E0ESC, 0)
      else if data AND 0x80 \<noteq> 0 then
        (let data = (if shift AND E0ESC \<noteq> 0 then data else data AND 0x7F) in
         (shift AND NOT (ucast (shiftcode ! unat data) OR E0ESC), 0))
      else
        (let (data, shift) = (if shift AND E0ESC \<noteq> 0 then (data OR 0x80, shift AND NOT E0ESC) else (data, shift));
             shift = shift OR ucast (shiftcode ! unat data);
             shift = shift XOR ucast (togglecode ! unat data);
             c = ucast (charcode (shift AND (CTL OR SHIFT)) ! unat data) :: uint32;
             c = (if shift AND CAPSLOCK \<noteq> 0
                  then (if 0x61 \<le> c \<and> c \<le> 0x7A then c + (0x41 - 0x61)
                        else if 0x41 \<le> c \<and> c \<le> 0x5A then c + (0x61 - 0x41) else c)
                  else c) in
         (shift, c)))"

primrec kbd_drain :: "uint32 \<Rightarrow> uchar list \<Rightarrow> uint32 \<times> uint32 list" where
  "kbd_drain shift [] = (shift, [])"
| "kbd_drain shift (b # bs) =
     (let (shift, c) = kbdgetc shift b; (shift, cs) = kbd_drain shift bs in (shift, c # cs))"

definition kbdintr :: "uchar list \<Rightarrow> unit kern" where
  "kbdintr bs =
     kbind (kget (\<lambda>s. kbd_drain (kbd_shift s) bs)) (\<lambda>(shift, cs).
     kseq (kmod (\<lambda>s. s\<lparr>kbd_shift := shift\<rparr>)) (consoleintr cs))"

section \<open>Lock discipline\<close>

lemma held_upd_input [simp]: "held (upd_input f s) = held s"
  by (simp add: upd_input_def)

lemma lk_ok_procdump [klock]: "ConsLock \<notin> set h \<Longrightarrow> lk_bal h procdump"
  unfolding procdump_def by (rule klock | simp)+

lemma lk_ok_kill_line [klock]: "lk_bal h kill_line"
  unfolding kill_line_def by (rule klock | simp)+

lemma lk_ok_cons_key [klock]: "PtableLock \<notin> set h \<Longrightarrow> lk_bal h (cons_key c)"
  unfolding cons_key_def by (rule klock | simp)+

lemma lk_ok_cons_keys [klock]: "PtableLock \<notin> set h \<Longrightarrow> lk_bal h (cons_keys cs d)"
proof (induction cs arbitrary: d)
  case (Cons c cs)
  show ?case unfolding cons_keys.simps by (rule klock Cons | simp add: Cons.prems)+
qed (simp add: lk_ok_kret)

lemma lk_ok_consoleintr [klock]:
  "ConsLock \<notin> set h \<Longrightarrow> PtableLock \<notin> set h \<Longrightarrow> lk_bal h (consoleintr cs)"
  unfolding consoleintr_def by (rule klock | simp)+

lemma lk_ok_cons_wait [klock]:
  "h = [ConsLock] \<Longrightarrow> lk_ok h cons_wait (\<lambda>r. case r of None \<Rightarrow> h | Some a \<Rightarrow> h)"
  unfolding cons_wait_def by (rule klock | simp)+

lemma lk_ok_cons_next [klock]: "lk_bal h cons_next"
  unfolding cons_next_def by (rule klock | simp)+

lemma lk_ok_consoleread [klock]:
  "(\<And>d bs. lk_bal [ConsLock] (put d bs)) \<Longrightarrow> h = [] \<Longrightarrow> lk_bal h (consoleread put dst i n)"
  unfolding consoleread_def by (rule klock | assumption | simp)+

lemma lk_ok_consolewrite [klock]:
  "(\<And>d k. lk_bal [ConsLock] (get d k)) \<Longrightarrow> h = [] \<Longrightarrow> lk_bal h (consolewrite get src i n)"
  unfolding consolewrite_def by (rule klock | assumption | simp)+

lemma lk_ok_uartinit [klock]: "lk_bal h (uartinit st)"
  unfolding uartinit_def by (rule klock | simp)+

lemma lk_ok_uartintr [klock]:
  "ConsLock \<notin> set h \<Longrightarrow> PtableLock \<notin> set h \<Longrightarrow> lk_bal h (uartintr rx)"
  unfolding uartintr_def by (rule klock | simp)+

lemma lk_ok_kbdintr [klock]:
  "ConsLock \<notin> set h \<Longrightarrow> PtableLock \<notin> set h \<Longrightarrow> lk_bal h (kbdintr bs)"
  unfolding kbdintr_def by (rule klock | simp)+

end
