(* ===== verification/Fs.thy ===== *)
theory Fs
  imports Console
begin

text \<open>
  The upper layers of \<^verbatim>\<open>fs.c\<close>: file contents, directories and path names. A read stores through a
  destination pointer and a write loads through a source pointer; \<open>put\<close> and \<open>get\<close> say what the
  pointer points to, as in the theory \<open>Console\<close>.
\<close>

section \<open>What a pointer points to\<close>

text \<open>User or kernel memory.\<close>

definition put_mem :: "addr \<Rightarrow> uchar list \<Rightarrow> addr kern" where
  "put_mem a bs = kseq (kstore_bytes a bs) (kret (a + of_nat (length bs)))"

definition get_mem :: "addr \<Rightarrow> nat \<Rightarrow> (uchar list \<times> addr) kern" where
  "get_mem a n = kbind (kload_bytes a n) (\<lambda>bs. kret (bs, a + of_nat n))"

text \<open>A local variable: the bytes stored so far, or the bytes not loaded yet.\<close>

definition put_loc :: "uchar list \<Rightarrow> uchar list \<Rightarrow> uchar list kern" where
  "put_loc a bs = kret (a @ bs)"

definition get_loc :: "uchar list \<Rightarrow> nat \<Rightarrow> (uchar list \<times> uchar list) kern" where
  "get_loc a n = kret (take n a, drop n a)"

section \<open>File contents\<close>

text \<open>The test \<^verbatim>\<open>ip->major < 0 || ip->major >= NDEV || !devsw[ip->major].read\<close>, negated.\<close>

definition dev_ok :: "inode \<Rightarrow> kernel \<Rightarrow> bool" where
  "dev_ok ip s \<longleftrightarrow> 0 \<le> sint (imajor ip) \<and> sint (imajor ip) < int NDEV \<and> devsw s ! unat (imajor ip)"

text \<open>\<^verbatim>\<open>min(n - tot, BSIZE - off%BSIZE)\<close>: how much of one block the loops transfer.\<close>

definition chunk :: "uint32 \<Rightarrow> uint32 \<Rightarrow> uint32 \<Rightarrow> uint32" where
  "chunk n tot off = min (n - tot) (of_nat BSIZE - off mod of_nat BSIZE)"

definition read_blocks ::
    "('d \<Rightarrow> uchar list \<Rightarrow> 'd kern) \<Rightarrow> nat \<Rightarrow> uint32 \<Rightarrow> uint32 \<times> uint32 \<times> 'd \<Rightarrow> 'd kern" where
  "read_blocks put i n = kloop (Suc (unat n)) (\<lambda>(tot, off, dst).
     if \<not> tot < n then kret (Inr dst)
     else
       kbind (kget (\<lambda>s. idev (icache s ! i))) (\<lambda>dev.
       kbind (bmap i (off div of_nat BSIZE)) (\<lambda>a.
       kbind (bread dev a) (\<lambda>bp.
       kbind (get_data bp) (\<lambda>x.
       let m = chunk n tot off in
       kbind (put dst (take (unat m) (drop (unat (off mod of_nat BSIZE)) x))) (\<lambda>dst.
       kseq (brelse bp) (kret (Inl (tot + m, off + m, dst)))))))))"

definition readi ::
    "('d \<Rightarrow> uchar list \<Rightarrow> 'd kern) \<Rightarrow> nat \<Rightarrow> 'd \<Rightarrow> uint32 \<Rightarrow> uint32 \<Rightarrow> (uint32 \<times> 'd) kern" where
  "readi put i dst off n =
     kbind (kget (\<lambda>s. icache s ! i)) (\<lambda>ip.
     if itype ip = T_DEV then
       kbind (kget (dev_ok ip)) (\<lambda>ok. if \<not> ok then kret (-1, dst) else consoleread put dst i n)
     else if off > isize ip \<or> off + n < off then kret (-1, dst)
     else
       (let n = (if off + n > isize ip then isize ip - off else n) in
        kbind (read_blocks put i n (0, off, dst)) (\<lambda>dst. kret (n, dst))))"

definition write_blocks ::
    "('d \<Rightarrow> nat \<Rightarrow> (uchar list \<times> 'd) kern) \<Rightarrow> nat \<Rightarrow> uint32 \<Rightarrow> uint32 \<times> uint32 \<times> 'd \<Rightarrow> uint32 kern" where
  "write_blocks get i n = kloop (Suc (unat n)) (\<lambda>(tot, off, src).
     if \<not> tot < n then kret (Inr off)
     else
       kbind (kget (\<lambda>s. idev (icache s ! i))) (\<lambda>dev.
       kbind (bmap i (off div of_nat BSIZE)) (\<lambda>a.
       kbind (bread dev a) (\<lambda>bp.
       let m = chunk n tot off in
       kbind (get src (unat m)) (\<lambda>(bs, src).
       kbind (get_data bp) (\<lambda>x.
       kseq (set_data bp (put_bytes x (unat (off mod of_nat BSIZE)) bs))
      (kseq (log_write bp)
      (kseq (brelse bp) (kret (Inl (tot + m, off + m, src)))))))))))"

definition writei ::
    "('d \<Rightarrow> nat \<Rightarrow> (uchar list \<times> 'd) kern) \<Rightarrow> nat \<Rightarrow> 'd \<Rightarrow> uint32 \<Rightarrow> uint32 \<Rightarrow> uint32 kern" where
  "writei get i src off n =
     kbind (kget (\<lambda>s. icache s ! i)) (\<lambda>ip.
     if itype ip = T_DEV then
       kbind (kget (dev_ok ip)) (\<lambda>ok. if \<not> ok then kret (-1) else consolewrite get src i n)
     else if off > isize ip \<or> off + n < off then kret (-1)
     else if off + n > of_nat (MAXFILE * BSIZE) then kret (-1)
     else
       kbind (write_blocks get i n (0, off, src)) (\<lambda>off.
       kbind (kget (\<lambda>s. isize (icache s ! i))) (\<lambda>sz.
       kseq (kwhen (n > 0 \<and> off > sz)
         (kseq (kmod (upd_inode i (\<lambda>x. x\<lparr>isize := off\<rparr>))) (iupdate i)))
      (kret n))))"

section \<open>Directories\<close>

text \<open>
  \<^verbatim>\<open>namecmp\<close>: \<^verbatim>\<open>strncmp\<close> over \<^verbatim>\<open>DIRSIZ\<close> bytes. A string is the list of its bytes; behind its end
  there is the terminating zero.
\<close>

definition byte_at :: "uchar list \<Rightarrow> nat \<Rightarrow> uchar" where
  "byte_at xs i = (if i < length xs then xs ! i else 0)"

primrec ncmp :: "nat \<Rightarrow> nat \<Rightarrow> uchar list \<Rightarrow> uchar list \<Rightarrow> int" where
  "ncmp 0 i p q = 0"
| "ncmp (Suc n) i p q =
     (if byte_at p i \<noteq> 0 \<and> byte_at p i = byte_at q i then ncmp n (Suc i) p q
      else uint (byte_at p i) - uint (byte_at q i))"

definition namecmp :: "uchar list \<Rightarrow> uchar list \<Rightarrow> int" where
  "namecmp s t = ncmp DIRSIZ 0 s t"

definition DIRENT_SIZE :: uint32 where "DIRENT_SIZE = 16"

text \<open>\<^verbatim>\<open>struct dirent\<close>: the inode number and 14 bytes of name.\<close>

definition de_inum :: "uchar list \<Rightarrow> ushort" where "de_inum de = get16 de 0"
definition de_name :: "uchar list \<Rightarrow> uchar list" where "de_name de = take DIRSIZ (drop 2 de)"

text \<open>\<^verbatim>\<open>strncpy(de.name, name, DIRSIZ)\<close>: at most 14 bytes, the rest zero.\<close>

definition name_field :: "uchar list \<Rightarrow> uchar list" where
  "name_field name =
     (let s = take DIRSIZ (takeWhile (\<lambda>c. c \<noteq> 0) name) in s @ replicate (DIRSIZ - length s) 0)"

definition mk_dirent :: "uint32 \<Rightarrow> uchar list \<Rightarrow> uchar list" where
  "mk_dirent ino name = put16 (replicate 2 0 @ name_field name) 0 (ucast ino)"

text \<open>Reading the entry at an offset; every caller panics when it is not there in full.\<close>

definition read_dirent :: "string \<Rightarrow> nat \<Rightarrow> uint32 \<Rightarrow> uchar list kern" where
  "read_dirent msg d off =
     kbind (readi put_loc d [] off DIRENT_SIZE) (\<lambda>(r, de).
     if r \<noteq> DIRENT_SIZE then kpanic msg else kret de)"

text \<open>
  The offset goes up in steps of 16, so that it repeats after \<open>2 ^ 28\<close> steps. The result is the
  entry's inode and its offset.
\<close>

definition dirlookup :: "nat \<Rightarrow> uchar list \<Rightarrow> (nat \<times> uint32) option kern" where
  "dirlookup d name =
     kbind (kget (\<lambda>s. itype (icache s ! d))) (\<lambda>ty.
     if ty \<noteq> T_DIR then kpanic ''dirlookup not DIR''
     else kloop (2 ^ 28) (\<lambda>off.
       kbind (kget (\<lambda>s. isize (icache s ! d))) (\<lambda>sz.
       if \<not> off < sz then kret (Inr None)
       else
         kbind (read_dirent ''dirlookup read'' d off) (\<lambda>de.
         if de_inum de = 0 then kret (Inl (off + DIRENT_SIZE))
         else if namecmp name (de_name de) = 0 then
           kbind (kget (\<lambda>s. idev (icache s ! d))) (\<lambda>dev.
           kbind (iget dev (ucast (de_inum de))) (\<lambda>i. kret (Inr (Some (i, off)))))
         else kret (Inl (off + DIRENT_SIZE))))) 0)"

definition dirlink :: "nat \<Rightarrow> uchar list \<Rightarrow> uint32 \<Rightarrow> uint32 kern" where
  "dirlink d name ino =
     kbind (dirlookup d name) (\<lambda>r.
     case r of
       Some (i, _) \<Rightarrow> kseq (iput i) (kret (-1))
     | None \<Rightarrow>
         kbind (kloop (2 ^ 28) (\<lambda>off.
           kbind (kget (\<lambda>s. isize (icache s ! d))) (\<lambda>sz.
           if \<not> off < sz then kret (Inr off)
           else
             kbind (read_dirent ''dirlink read'' d off) (\<lambda>de.
             if de_inum de = 0 then kret (Inr off) else kret (Inl (off + DIRENT_SIZE))))) 0) (\<lambda>off.
         kbind (writei get_loc d (mk_dirent ino name) off DIRENT_SIZE) (\<lambda>r.
         if r \<noteq> DIRENT_SIZE then kpanic ''dirlink'' else kret 0)))"

section \<open>Path names\<close>

text \<open>A path is a string in user memory, read as the walk goes on, or a literal of the kernel.\<close>

datatype path = PMem addr | PStr "uchar list"

definition path_char :: "path \<Rightarrow> uchar kern" where
  "path_char p = (case p of PMem a \<Rightarrow> kload8 a | PStr xs \<Rightarrow> kret (byte_at xs 0))"

definition path_next :: "path \<Rightarrow> path" where
  "path_next p = (case p of PMem a \<Rightarrow> PMem (a + 1) | PStr xs \<Rightarrow> PStr (tl xs))"

definition SLASH :: uchar where "SLASH = 47"

text \<open>The three loops of \<^verbatim>\<open>skipelem\<close>. An address repeats after \<open>2 ^ 32\<close> steps.\<close>

definition skip_slashes :: "path \<Rightarrow> path kern" where
  "skip_slashes = kloop (2 ^ 32) (\<lambda>p.
     kbind (path_char p) (\<lambda>c. if c = SLASH then kret (Inl (path_next p)) else kret (Inr p)))"

definition take_elem :: "path \<Rightarrow> (uchar list \<times> path) kern" where
  "take_elem p = kloop (2 ^ 32) (\<lambda>(acc, p).
     kbind (path_char p) (\<lambda>c.
     if c \<noteq> SLASH \<and> c \<noteq> 0 then kret (Inl (acc @ [c], path_next p)) else kret (Inr (acc, p)))) ([], p)"

text \<open>
  \<^verbatim>\<open>skipelem\<close>: the name and the rest of the path, or \<open>None\<close>. The name's buffer has \<^verbatim>\<open>DIRSIZ\<close> bytes: a
  longer element is cut off, a shorter one ends with a zero.
\<close>

definition skipelem :: "path \<Rightarrow> (uchar list \<times> path) option kern" where
  "skipelem p =
     kbind (skip_slashes p) (\<lambda>p.
     kbind (path_char p) (\<lambda>c.
     if c = 0 then kret None
     else
       kbind (take_elem p) (\<lambda>(s, p).
       kbind (skip_slashes p) (\<lambda>p.
       kret (Some (take DIRSIZ s, p))))))"

text \<open>
  \<^verbatim>\<open>namex\<close>. The loop has no bound in the code; a path of \<open>2 ^ 32\<close> elements does not fit the address
  space. The result is the inode and, for the parent, the name of the last element.
\<close>

definition namex :: "path \<Rightarrow> bool \<Rightarrow> (nat \<times> uchar list) option kern" where
  "namex path nameiparent =
     kbind (path_char path) (\<lambda>c.
     kbind (if c = SLASH then iget ROOTDEV ROOTINO
            else kbind myproc (\<lambda>p. deref p (\<lambda>p.
              kbind (kget (\<lambda>s. cwd (ptable s ! p))) (\<lambda>d. deref d idup)))) (\<lambda>ip.
     kloop (2 ^ 32) (\<lambda>(ip, path, name).
       kbind (skipelem path) (\<lambda>e.
       case e of
         None \<Rightarrow>
           if nameiparent then kseq (iput ip) (kret (Inr None)) else kret (Inr (Some (ip, name)))
       | Some (name, path) \<Rightarrow>
           kseq (ilock (Some ip))
          (kbind (kget (\<lambda>s. itype (icache s ! ip))) (\<lambda>ty.
           if ty \<noteq> T_DIR then kseq (iunlockput ip) (kret (Inr None))
           else
             kbind (path_char path) (\<lambda>c.
             if nameiparent \<and> c = 0 then kseq (iunlock (Some ip)) (kret (Inr (Some (ip, name))))
             else
               kbind (dirlookup ip name) (\<lambda>r.
               case r of
                 None \<Rightarrow> kseq (iunlockput ip) (kret (Inr None))
               | Some (next, _) \<Rightarrow> kseq (iunlockput ip) (kret (Inl (next, path, name))))))))) (ip, path, [])))"

definition namei :: "path \<Rightarrow> nat option kern" where
  "namei path = kbind (namex path False) (\<lambda>r. kret (map_option fst r))"

definition nameiparent :: "path \<Rightarrow> (nat \<times> uchar list) option kern" where
  "nameiparent path = namex path True"

section \<open>Lock discipline\<close>

lemma lk_ok_put_mem [klock]: "lk_bal h (put_mem a bs)"
  unfolding put_mem_def by (rule klock | simp)+

lemma lk_ok_get_mem [klock]: "lk_bal h (get_mem a n)"
  unfolding get_mem_def by (rule klock | simp)+

lemma lk_ok_put_loc [klock]: "lk_bal h (put_loc a bs)"
  unfolding put_loc_def by (rule klock)

lemma lk_ok_get_loc [klock]: "lk_bal h (get_loc a n)"
  unfolding get_loc_def by (rule klock)

text \<open>A pointer's operations take no lock.\<close>

lemma lk_ok_read_blocks [klock]:
  "(\<And>h d bs. lk_bal h (put d bs)) \<Longrightarrow> h = [] \<Longrightarrow> lk_bal h (read_blocks put i n st)"
  unfolding read_blocks_def by (rule klock | assumption | simp)+

lemma lk_ok_readi [klock]:
  "(\<And>h d bs. lk_bal h (put d bs)) \<Longrightarrow> h = [] \<Longrightarrow> lk_bal h (readi put i dst off n)"
  unfolding readi_def by (rule klock | assumption | simp)+

lemma lk_ok_write_blocks [klock]:
  "(\<And>h d k. lk_bal h (get d k)) \<Longrightarrow> h = [] \<Longrightarrow> lk_bal h (write_blocks get i n st)"
  unfolding write_blocks_def by (rule klock | assumption | simp)+

lemma lk_ok_writei [klock]:
  "(\<And>h d k. lk_bal h (get d k)) \<Longrightarrow> h = [] \<Longrightarrow> lk_bal h (writei get i src off n)"
  unfolding writei_def by (rule klock | assumption | simp)+

lemma lk_ok_read_dirent [klock]:
  "msg \<notin> lock_panics \<Longrightarrow> h = [] \<Longrightarrow> lk_bal h (read_dirent msg d off)"
  unfolding read_dirent_def by (rule klock | simp)+

lemma lk_ok_dirlookup [klock]: "h = [] \<Longrightarrow> lk_bal h (dirlookup d name)"
  unfolding dirlookup_def by (rule klock | simp add: lock_panics_def)+

lemma lk_ok_dirlink [klock]: "h = [] \<Longrightarrow> lk_bal h (dirlink d name ino)"
  unfolding dirlink_def by (rule klock | simp add: lock_panics_def)+

lemma lk_ok_path_char [klock]: "lk_bal h (path_char p)"
  unfolding path_char_def by (cases p) (simp_all, (rule klock)+)

lemma lk_ok_skip_slashes [klock]: "lk_bal h (skip_slashes p)"
  unfolding skip_slashes_def by (rule klock | simp)+

lemma lk_ok_take_elem [klock]: "lk_bal h (take_elem p)"
  unfolding take_elem_def by (rule klock | simp)+

lemma lk_ok_skipelem [klock]: "lk_bal h (skipelem p)"
  unfolding skipelem_def by (rule klock | simp)+

lemma lk_ok_namex [klock]: "h = [] \<Longrightarrow> lk_bal h (namex p b)"
  unfolding namex_def by (rule klock | simp)+

lemma lk_ok_namei [klock]: "h = [] \<Longrightarrow> lk_bal h (namei p)"
  unfolding namei_def by (rule klock | simp)+

lemma lk_ok_nameiparent [klock]: "h = [] \<Longrightarrow> lk_bal h (nameiparent p)"
  unfolding nameiparent_def by (rule klock | simp)+

end
