(* ===== verification/Pipe.thy ===== *)
theory Pipe
  imports Fs
begin

text \<open>
  \<^verbatim>\<open>pipe.c\<close>, but for \<^verbatim>\<open>pipealloc\<close>, which needs the file table. A pipe is named by the address of its
  page and kept apart from the bytes of memory.
\<close>

definition PIPESIZE :: uint32 where "PIPESIZE = 512"

section \<open>The routines\<close>

definition pipeclose :: "addr \<Rightarrow> bool \<Rightarrow> unit kern" where
  "pipeclose p writable =
     kseq (lk_acquire (PipeLock p))
    (kseq (if writable then
             kseq (kmod (upd_pipe p (\<lambda>x. x\<lparr>writeopen := 0\<rparr>))) (wakeup (ChPipeRead p))
           else
             kseq (kmod (upd_pipe p (\<lambda>x. x\<lparr>readopen := 0\<rparr>))) (wakeup (ChPipeWrite p)))
    (kbind (kget (\<lambda>s. pipes s p)) (\<lambda>x.
     if readopen x = 0 \<and> writeopen x = 0
     then kseq (lk_release (PipeLock p)) (kfree p)
     else lk_release (PipeLock p))))"

definition myproc_killed :: "bool kern" where
  "myproc_killed = kbind myproc (\<lambda>p. deref p (\<lambda>p. kget (\<lambda>s. killed (ptable s ! p) \<noteq> 0)))"

text \<open>The inner loop of \<^verbatim>\<open>pipewrite\<close>: wait for room. \<open>False\<close>: the writer gives up.\<close>

definition pipe_room :: "addr \<Rightarrow> bool option kern" where
  "pipe_room p =
     kbind (kget (\<lambda>s. pipes s p)) (\<lambda>x.
     if nwrite x \<noteq> nread x + PIPESIZE then kret (Some True)
     else
       kbind (if readopen x = 0 then kret True else myproc_killed) (\<lambda>quit.
       if quit then kret (Some False)
       else
         kseq (wakeup (ChPipeRead p))
        (kseq (sleep (ChPipeWrite p) (PipeLock p)) (kret None))))"

definition pipe_push :: "uchar \<Rightarrow> pipe \<Rightarrow> pipe" where
  "pipe_push c x = x\<lparr>pdata := (pdata x)[unat (nwrite x mod PIPESIZE) := c], nwrite := nwrite x + 1\<rparr>"

definition pipewrite :: "addr \<Rightarrow> addr \<Rightarrow> uint32 \<Rightarrow> uint32 kern" where
  "pipewrite p a n =
     kseq (lk_acquire (PipeLock p))
    (kbind (kloop (Suc (unat n)) (\<lambda>i.
       if \<not> sint i < sint n then kret (Inr True)
       else
         kbind (kwait (pipe_room p)) (\<lambda>ok.
         if \<not> ok then kret (Inr False)
         else
           kbind (kload8 (a + i)) (\<lambda>c.
           kseq (kmod (upd_pipe p (pipe_push c))) (kret (Inl (i + 1)))))) 0) (\<lambda>ok.
     if \<not> ok then kseq (lk_release (PipeLock p)) (kret (-1))
     else
       kseq (wakeup (ChPipeRead p))
      (kseq (lk_release (PipeLock p)) (kret n))))"

definition pipe_data :: "addr \<Rightarrow> bool option kern" where
  "pipe_data p =
     kbind (kget (\<lambda>s. pipes s p)) (\<lambda>x.
     if \<not> (nread x = nwrite x \<and> writeopen x \<noteq> 0) then kret (Some True)
     else
       kbind myproc_killed (\<lambda>k.
       if k then kret (Some False)
       else kseq (sleep (ChPipeRead p) (PipeLock p)) (kret None)))"

definition pipe_head :: "pipe \<Rightarrow> uchar" where
  "pipe_head x = pdata x ! unat (nread x mod PIPESIZE)"

definition pipe_pop :: "pipe \<Rightarrow> pipe" where
  "pipe_pop x = x\<lparr>nread := nread x + 1\<rparr>"

definition piperead :: "addr \<Rightarrow> addr \<Rightarrow> uint32 \<Rightarrow> uint32 kern" where
  "piperead p a n =
     kseq (lk_acquire (PipeLock p))
    (kbind (kwait (pipe_data p)) (\<lambda>ok.
     if \<not> ok then kseq (lk_release (PipeLock p)) (kret (-1))
     else
       kbind (kloop (Suc (unat n)) (\<lambda>i.
         if \<not> sint i < sint n then kret (Inr i)
         else
           kbind (kget (\<lambda>s. pipes s p)) (\<lambda>x.
           if nread x = nwrite x then kret (Inr i)
           else
             kseq (kmod (upd_pipe p pipe_pop))
            (kseq (kstore8 (a + i) (pipe_head x)) (kret (Inl (i + 1)))))) 0) (\<lambda>i.
       kseq (wakeup (ChPipeWrite p))
      (kseq (lk_release (PipeLock p)) (kret i)))))"

section \<open>Lock discipline\<close>

lemma lk_ok_pipeclose [klock]: "h = [] \<Longrightarrow> lk_bal h (pipeclose p w)"
  unfolding pipeclose_def by (rule klock | simp)+

lemma lk_ok_myproc_killed [klock]: "lk_bal h myproc_killed"
  unfolding myproc_killed_def by (rule klock | simp)+

lemma lk_ok_pipe_room [klock]:
  "h = [PipeLock p] \<Longrightarrow> lk_ok h (pipe_room p) (\<lambda>r. case r of None \<Rightarrow> h | Some a \<Rightarrow> h)"
  unfolding pipe_room_def by (rule klock | simp)+

lemma lk_ok_pipewrite [klock]: "h = [] \<Longrightarrow> lk_bal h (pipewrite p a n)"
  unfolding pipewrite_def by (rule klock | simp)+

lemma lk_ok_pipe_data [klock]:
  "h = [PipeLock p] \<Longrightarrow> lk_ok h (pipe_data p) (\<lambda>r. case r of None \<Rightarrow> h | Some a \<Rightarrow> h)"
  unfolding pipe_data_def by (rule klock | simp)+

lemma lk_ok_piperead [klock]: "h = [] \<Longrightarrow> lk_bal h (piperead p a n)"
  unfolding piperead_def by (rule klock | simp)+

end
