(* ===== verification/File.thy ===== *)
theory File
  imports Pipe
begin

text \<open>
  \<^verbatim>\<open>file.c\<close>: the table of open files, and \<^verbatim>\<open>pipealloc\<close> of \<^verbatim>\<open>pipe.c\<close>. A \<^verbatim>\<open>struct file*\<close> is an index into
  the table.
\<close>

section \<open>The table of open files\<close>

text \<open>\<^verbatim>\<open>fileinit\<close> only names the lock.\<close>

definition filealloc :: "nat option kern" where
  "filealloc =
     kseq (lk_acquire FtableLock)
    (kbind (kget (\<lambda>s. find_idx (\<lambda>f. fref f = 0) (ftable s))) (\<lambda>r.
     case r of
       Some f \<Rightarrow>
         kseq (kmod (upd_file f (\<lambda>x. x\<lparr>fref := 1\<rparr>)))
        (kseq (lk_release FtableLock) (kret (Some f)))
     | None \<Rightarrow> kseq (lk_release FtableLock) (kret None)))"

definition filedup :: "nat \<Rightarrow> nat kern" where
  "filedup f =
     kseq (lk_acquire FtableLock)
    (kbind (kget (\<lambda>s. fref (ftable s ! f))) (\<lambda>r.
     if r < 1 then kpanic ''filedup''
     else
       kseq (kmod (upd_file f (\<lambda>x. x\<lparr>fref := fref x + 1\<rparr>)))
      (kseq (lk_release FtableLock) (kret f))))"

definition fileclose :: "nat \<Rightarrow> unit kern" where
  "fileclose f =
     kseq (lk_acquire FtableLock)
    (kbind (kget (\<lambda>s. fref (ftable s ! f))) (\<lambda>r.
     if r < 1 then kpanic ''fileclose''
     else
       kseq (kmod (upd_file f (\<lambda>x. x\<lparr>fref := fref x - 1\<rparr>)))
      (kbind (kget (\<lambda>s. ftable s ! f)) (\<lambda>ff.
       if fref ff > 0 then lk_release FtableLock
       else
         kseq (kmod (upd_file f (\<lambda>x. x\<lparr>fref := 0, ftyp := FD_NONE\<rparr>)))
        (kseq (lk_release FtableLock)
        (if ftyp ff = FD_PIPE then pipeclose (fpipe ff) (fwritable ff \<noteq> 0)
         else if ftyp ff = FD_INODE then
           kseq begin_op (kseq (deref (fip ff) iput) end_op)
         else kret ()))))))"

section \<open>Reading and writing\<close>

text \<open>The stores of \<^verbatim>\<open>stati\<close> into the caller's \<^verbatim>\<open>struct stat\<close>, in the order of the code.\<close>

definition kstore16 :: "addr \<Rightarrow> ushort \<Rightarrow> unit kern" where
  "kstore16 a v = kseq (kstore8 a (ucast v)) (kstore8 (a + 1) (ucast (drop_bit 8 v)))"

definition put_stat :: "addr \<Rightarrow> statrec \<Rightarrow> unit kern" where
  "put_stat st r =
     kseq (kstore32 (st + 4) (st_dev r))
    (kseq (kstore32 (st + 8) (st_ino r))
    (kseq (kstore16 st (st_type r))
    (kseq (kstore16 (st + 12) (st_nlink r))
    (kstore32 (st + 16) (st_size r)))))"

definition filestat :: "nat \<Rightarrow> addr \<Rightarrow> uint32 kern" where
  "filestat f st =
     kbind (kget (\<lambda>s. ftable s ! f)) (\<lambda>x.
     if ftyp x = FD_INODE then
       kseq (ilock (fip x))
      (deref (fip x) (\<lambda>i.
       kbind (stati i) (\<lambda>r.
       kseq (put_stat st r)
      (kseq (iunlock (Some i)) (kret 0)))))
     else kret (-1))"

definition fileread :: "nat \<Rightarrow> addr \<Rightarrow> uint32 \<Rightarrow> uint32 kern" where
  "fileread f a n =
     kbind (kget (\<lambda>s. ftable s ! f)) (\<lambda>x.
     if freadable x = 0 then kret (-1)
     else if ftyp x = FD_PIPE then piperead (fpipe x) a n
     else if ftyp x = FD_INODE then
       kseq (ilock (fip x))
      (deref (fip x) (\<lambda>i.
       kbind (kget (\<lambda>s. foff (ftable s ! f))) (\<lambda>off.
       kbind (readi put_mem i a off n) (\<lambda>(r, _).
       kseq (kwhen (0 < sint r) (kmod (upd_file f (\<lambda>x. x\<lparr>foff := foff x + r\<rparr>))))
      (kseq (iunlock (Some i)) (kret r))))))
     else kpanic ''fileread'')"

text \<open>
  The bound of \<^verbatim>\<open>filewrite\<close> on the bytes of one transaction, \<^verbatim>\<open>((MAXOPBLOCKS-1-1-2) / 2) * 512\<close>.
\<close>

definition MAXWRITE :: uint32 where
  "MAXWRITE = of_nat ((MAXOPBLOCKS - 1 - 1 - 2) div 2 * 512)"

definition filewrite :: "nat \<Rightarrow> addr \<Rightarrow> uint32 \<Rightarrow> uint32 kern" where
  "filewrite f a n =
     kbind (kget (\<lambda>s. ftable s ! f)) (\<lambda>x.
     if fwritable x = 0 then kret (-1)
     else if ftyp x = FD_PIPE then pipewrite (fpipe x) a n
     else if ftyp x = FD_INODE then
       kbind (kloop (Suc (unat n)) (\<lambda>i.
         if \<not> sint i < sint n then kret (Inr i)
         else
           (let n1 = (if sint (n - i) > sint MAXWRITE then MAXWRITE else n - i) in
            kseq begin_op
           (kseq (ilock (fip x))
           (deref (fip x) (\<lambda>ip.
            kbind (kget (\<lambda>s. foff (ftable s ! f))) (\<lambda>off.
            kbind (writei get_mem ip (a + i) off n1) (\<lambda>r.
            kseq (kwhen (0 < sint r) (kmod (upd_file f (\<lambda>x. x\<lparr>foff := foff x + r\<rparr>))))
           (kseq (iunlock (Some ip))
           (kseq end_op
           (if sint r < 0 then kret (Inr i)
            else if r \<noteq> n1 then kpanic ''short filewrite''
            else kret (Inl (i + r)))))))))))) 0) (\<lambda>i.
       kret (if i = n then n else -1))
     else kpanic ''filewrite'')"

section \<open>Opening a pipe\<close>

definition file_read_end :: "addr \<Rightarrow> filest \<Rightarrow> filest" where
  "file_read_end p x = x\<lparr>ftyp := FD_PIPE, freadable := 1, fwritable := 0, fpipe := p\<rparr>"

definition file_write_end :: "addr \<Rightarrow> filest \<Rightarrow> filest" where
  "file_write_end p x = x\<lparr>ftyp := FD_PIPE, freadable := 0, fwritable := 1, fpipe := p\<rparr>"

text \<open>
  \<^verbatim>\<open>pipealloc\<close>: the second file is only allocated when the first one was. At the label \<^verbatim>\<open>bad\<close> the
  page is always null, since nothing fails after its allocation.
\<close>

definition pipe_bad :: "nat option \<Rightarrow> nat option \<Rightarrow> (nat \<times> nat) option kern" where
  "pipe_bad f0 f1 =
     kseq (case f0 of None \<Rightarrow> kret () | Some f \<Rightarrow> fileclose f)
    (kseq (case f1 of None \<Rightarrow> kret () | Some f \<Rightarrow> fileclose f)
    (kret None))"

definition pipealloc :: "(nat \<times> nat) option kern" where
  "pipealloc =
     kbind filealloc (\<lambda>f0.
     case f0 of
       None \<Rightarrow> pipe_bad None None
     | Some r \<Rightarrow>
         kbind filealloc (\<lambda>f1.
         case f1 of
           None \<Rightarrow> pipe_bad f0 None
         | Some w \<Rightarrow>
             kbind kalloc (\<lambda>p.
             if p = 0 then pipe_bad f0 f1
             else
               kseq (kmod (upd_pipe p (\<lambda>x. x\<lparr>readopen := 1, writeopen := 1, nwrite := 0, nread := 0\<rparr>)))
              (kseq (kmod (upd_file r (file_read_end p)))
              (kseq (kmod (upd_file w (file_write_end p)))
              (kret (Some (r, w))))))))"

section \<open>Lock discipline\<close>

lemma lk_ok_filealloc [klock]: "FtableLock \<notin> set h \<Longrightarrow> lk_bal h filealloc"
  unfolding filealloc_def by (rule klock | simp)+

lemma lk_ok_filedup [klock]: "FtableLock \<notin> set h \<Longrightarrow> lk_bal h (filedup f)"
  unfolding filedup_def by (rule klock | simp add: lock_panics_def)+

lemma lk_ok_fileclose [klock]: "h = [] \<Longrightarrow> lk_bal h (fileclose f)"
  unfolding fileclose_def by (rule klock | simp add: lock_panics_def)+

lemma lk_ok_kstore16 [klock]: "lk_bal h (kstore16 a v)"
  unfolding kstore16_def by (rule klock)+

lemma lk_ok_put_stat [klock]: "lk_bal h (put_stat a r)"
  unfolding put_stat_def by (rule klock)+

lemma lk_ok_filestat [klock]: "h = [] \<Longrightarrow> lk_bal h (filestat f st)"
  unfolding filestat_def by (rule klock | simp)+

lemma lk_ok_fileread [klock]: "h = [] \<Longrightarrow> lk_bal h (fileread f a n)"
  unfolding fileread_def by (rule klock | simp add: lock_panics_def)+

lemma lk_ok_filewrite [klock]: "h = [] \<Longrightarrow> lk_bal h (filewrite f a n)"
  unfolding filewrite_def by (rule klock | simp add: lock_panics_def)+

lemma lk_ok_pipe_bad [klock]: "h = [] \<Longrightarrow> lk_bal h (pipe_bad f0 f1)"
  unfolding pipe_bad_def by (rule klock | simp)+

lemma lk_ok_pipealloc [klock]: "h = [] \<Longrightarrow> lk_bal h pipealloc"
  unfolding pipealloc_def by (rule klock | simp)+

end
