(* ===== verification/Kthread.thy ===== *)
theory Kthread
  imports Sched
begin

text \<open>
  The thread package of \<^verbatim>\<open>proc.c\<close> as far as it does not touch files: creating, identifying and
  joining threads, the end of a thread, and \<^verbatim>\<open>wait\<close> for a child process.
\<close>

section \<open>Creating a thread\<close>

text \<open>Offsets in \<^verbatim>\<open>struct trapframe\<close> (\<^verbatim>\<open>x86.h\<close>).\<close>

definition TF_EAX :: uint32 where "TF_EAX = 28"
definition TF_ES :: uint32 where "TF_ES = 40"
definition TF_DS :: uint32 where "TF_DS = 44"
definition TF_TRAPNO :: uint32 where "TF_TRAPNO = 48"
definition TF_EIP :: uint32 where "TF_EIP = 56"
definition TF_CS :: uint32 where "TF_CS = 60"
definition TF_EFLAGS :: uint32 where "TF_EFLAGS = 64"
definition TF_ESP :: uint32 where "TF_ESP = 68"
definition TF_SS :: uint32 where "TF_SS = 72"

text \<open>The assignment \<^verbatim>\<open>*t->tf = *curthread->tf\<close>.\<close>

definition copy_tf :: "addr \<Rightarrow> addr \<Rightarrow> unit kern" where
  "copy_tf dst src = mmod (\<lambda>m. write_bytes m dst (read_bytes m src (unat TF_SIZE)))"

text \<open>\<^verbatim>\<open>safestrcpy\<close> into a name field of \<open>n\<close> bytes.\<close>

definition copy_name :: "string \<Rightarrow> nat \<Rightarrow> string" where
  "copy_name src n = take (n - 1) src"

definition kthread_create :: "addr \<Rightarrow> addr \<Rightarrow> uint32 kern" where
  "kthread_create start_func stack =
     kbind mythread (\<lambda>cur.
     if cur = None \<or> start_func = 0 \<or> stack = 0 then kret (-1)
     else
       deref cur (\<lambda>cur.
       kbind myproc (\<lambda>p. deref p (\<lambda>p.
       kbind (allocthread p) (\<lambda>r.
       case r of
         None \<Rightarrow> kret (-1)
       | Some t \<Rightarrow>
           kseq (lk_acquire PtableLock)
          (kseq (kmod (upd_thread t (\<lambda>x. x\<lparr>tname := copy_name ''thread'' 7\<rparr>)))
          (kbind (kget (\<lambda>s. tf (thread_at s t))) (\<lambda>tfa.
           kbind (kget (\<lambda>s. tf (thread_at s cur))) (\<lambda>cfa.
           kseq (copy_tf tfa cfa)
          (kseq (mstore32 (tfa + TF_ESP) stack)
          (kseq (mstore32 (tfa + TF_EIP) start_func)
          (kseq (kmod (upd_thread t (\<lambda>x. x\<lparr>tstate := T_RUNNABLE\<rparr>)))
          (kseq (lk_release PtableLock)
          (kget (\<lambda>s. tid (thread_at s t))))))))))))))))"

definition kthread_id :: "uint32 kern" where
  "kthread_id =
     kbind mythread (\<lambda>t. case t of None \<Rightarrow> kret (-1) | Some t \<Rightarrow> kget (\<lambda>s. tid (thread_at s t)))"

section \<open>The end of a thread\<close>

definition exitThread :: "'a kern" where
  "exitThread =
     kseq (lk_acquire PtableLock)
    (kbind myproc (\<lambda>p. deref p (\<lambda>p.
     kseq (kfor (\<lambda>_. kbind mythread (\<lambda>t. deref t (\<lambda>t. wakeup1 (ChThread (fst t) (snd t)))))
             [0..<NTHREAD])
    (kbind mythread (\<lambda>t. deref t (\<lambda>t.
     kseq (kmod (upd_thread t (\<lambda>x. x\<lparr>shouldDie := 0, tstate := T_ZOMBIE\<rparr>)))
    (kseq sched (kpanic ''exitThread exit''))))))))"

text \<open>The first thread with the given id in a process that is in use, in table order.\<close>

definition find_tid :: "uint32 \<Rightarrow> kernel \<Rightarrow> tptr option" where
  "find_tid x s = find (\<lambda>t. pstate (ptable s ! fst t) \<noteq> UNUSED \<and> tid (thread_at s t) = x) slots"

definition join_step :: "uint32 \<Rightarrow> uint32 option kern" where
  "join_step thread_id =
     kbind mythread (\<lambda>c. deref c (\<lambda>c.
     kbind (kget (\<lambda>s. shouldDie (thread_at s c))) (\<lambda>d.
     if d \<noteq> 0 then kseq (lk_release PtableLock) kdies
     else
       kbind (kget (find_tid thread_id)) (\<lambda>found.
       case found of
         None \<Rightarrow> kseq (lk_release PtableLock) (kret (Some (-1)))
       | Some t \<Rightarrow>
           kbind (kget (\<lambda>s. tstate (thread_at s t))) (\<lambda>st.
           if st = T_UNUSED then kpanic ''kthread_join-thread unused is necessary''
           else if st = T_ZOMBIE then
             kseq (lk_release PtableLock)
            (kbind (kget (\<lambda>s. kstack (thread_at s t))) (\<lambda>ks.
             kseq (kfree ks)
            (kseq (kmod (upd_thread t (\<lambda>x. x\<lparr>kstack := 0, tid := 0, shouldDie := 0,
                     tstate := T_UNUSED\<rparr>)))
            (kret (Some 0)))))
           else kseq (sleep (ChThread (fst t) (snd t)) PtableLock) (kret None))))))"

definition kthread_join :: "uint32 \<Rightarrow> uint32 kern" where
  "kthread_join thread_id = kseq (lk_acquire PtableLock) (kwait (join_step thread_id))"

section \<open>Waiting for a child\<close>

definition reap_thread :: "tptr \<Rightarrow> unit kern" where
  "reap_thread t =
     kbind (kget (\<lambda>s. thread_at s t)) (\<lambda>th.
     kwhen (tstate th = T_ZOMBIE)
      (kseq (kfree (kstack th))
      (kmod (upd_thread t (\<lambda>x. x\<lparr>kstack := 0, tid := 0, tstate := T_UNUSED\<rparr>)))))"

definition wait_step :: "nat \<Rightarrow> tptr \<Rightarrow> uint32 option kern" where
  "wait_step cp ct =
     kbind (kget (\<lambda>s. find_idx (\<lambda>p. pparent p = Some cp \<and> pstate p = ZOMBIE) (ptable s))) (\<lambda>z.
     case z of
       Some p \<Rightarrow>
         kseq (kfor (\<lambda>i. reap_thread (p, i)) [0..<NTHREAD])
        (kbind (kget (\<lambda>s. ptable s ! p)) (\<lambda>pr.
         kseq (freevm (pgdir pr))
        (kseq (kmod (upd_proc p (\<lambda>x. x\<lparr>pid := 0, pparent := None, pname := [], killed := 0,
                pstate := UNUSED\<rparr>)))
        (kseq (lk_release PtableLock) (kret (Some (pid pr)))))))
     | None \<Rightarrow>
         kbind (kget (\<lambda>s. list_ex (\<lambda>p. pparent p = Some cp) (ptable s))) (\<lambda>havekids.
         kbind (kget (\<lambda>s. killed (ptable s ! cp))) (\<lambda>k.
         if \<not> havekids \<or> k \<noteq> 0 then kseq (lk_release PtableLock) (kret (Some (-1)))
         else kseq (sleep (ChThread (fst ct) (snd ct)) PtableLock) (kret None))))"

definition wait :: "uint32 kern" where
  "wait =
     kbind myproc (\<lambda>p. kbind mythread (\<lambda>t.
     kseq (lk_acquire PtableLock)
    (deref p (\<lambda>p. deref t (\<lambda>t. kwait (wait_step p t))))))"

section \<open>Lock discipline\<close>

lemma lk_ok_copy_tf [klock]: "lk_bal h (copy_tf d c)"
  unfolding copy_tf_def by (rule klock)

lemma lk_ok_kthread_create [klock]:
  "PtableLock \<notin> set h \<Longrightarrow> KmemLock \<notin> set h \<Longrightarrow> lk_bal h (kthread_create f st)"
  unfolding kthread_create_def by (rule klock | simp)+

lemma lk_ok_kthread_id [klock]: "lk_bal h kthread_id"
  unfolding kthread_id_def by (rule klock)+

lemma lk_ok_exitThread [klock]: "h = [] \<Longrightarrow> lk_ok h exitThread H"
  unfolding exitThread_def by (rule klock | simp add: lock_panics_def)+

lemma lk_ok_join_step [klock]:
  "h = [] \<Longrightarrow>
   lk_ok (PtableLock # h) (join_step x) (\<lambda>r. case r of None \<Rightarrow> PtableLock # h | Some a \<Rightarrow> h)"
  unfolding join_step_def by (simp, (rule klock | simp add: lock_panics_def)+)

lemma lk_ok_kthread_join [klock]: "h = [] \<Longrightarrow> lk_bal h (kthread_join x)"
  unfolding kthread_join_def by (rule klock | simp)+

lemma lk_ok_reap_thread [klock]: "KmemLock \<notin> set h \<Longrightarrow> lk_bal h (reap_thread t)"
  unfolding reap_thread_def by (rule klock | simp)+

lemma lk_ok_wait_step [klock]:
  "h = [] \<Longrightarrow>
   lk_ok (PtableLock # h) (wait_step p t) (\<lambda>r. case r of None \<Rightarrow> PtableLock # h | Some a \<Rightarrow> h)"
  unfolding wait_step_def by (simp, (rule klock | simp add: lock_panics_def)+)

lemma lk_ok_wait [klock]: "h = [] \<Longrightarrow> lk_bal h wait"
  unfolding wait_def by (rule klock | simp)+

section \<open>Behaviour\<close>

lemma kthread_join_eq:
  assumes "held s = []" "curthread s = Some c" "shouldDie (thread_at s c) = 0"
  shows "kthread_join x s e = kwait (join_step x) (s\<lparr>held := [PtableLock]\<rparr>) e"
  using assms by (simp add: kthread_join_def lk_acquire_apply kseq_def kbind_def)

lemma thread_at_held [simp]: "thread_at (s\<lparr>held := h\<rparr>) t = thread_at s t"
  by (simp add: thread_at_def)

lemma find_tid_held [simp]: "find_tid x (s\<lparr>held := h\<rparr>) = find_tid x s"
  by (simp add: find_tid_def)

lemma page_ok_held [simp]: "page_ok (s\<lparr>held := h\<rparr>) v = page_ok s v"
  by (simp add: page_ok_def)

lemma join_step_zombie:
  assumes "curthread s = Some c" "shouldDie (thread_at s c) = 0" "held s = []"
    and "find_tid x s = Some t" "tstate (thread_at s t) = T_ZOMBIE" "page_ok s (kstack (thread_at s t))"
  shows "join_step x (s\<lparr>held := [PtableLock]\<rparr>) e = Ok (Some 0)
    (upd_thread t (\<lambda>x. x\<lparr>kstack := 0, tid := 0, shouldDie := 0, tstate := T_UNUSED\<rparr>)
      (kfree_fn (kstack (thread_at s t)) s)) e"
  using assms by (simp add: join_step_def kdefs mythread_def lk_release_apply kfree_Ok held_same)

lemma find_tid_01:
  assumes "tid (thread_at s (0, 0)) \<noteq> x" "tid (thread_at s (0, 1)) = x"
    and "pstate (ptable s ! 0) \<noteq> UNUSED"
  shows "find_tid x s = Some (0, 1)"
proof -
  have "\<exists>ts. slots = (0, 0) # (0, 1) # ts"
    by (simp add: slots_def NPROC_def NTHREAD_def upt_conv_Cons)
  then obtain ts where slots: "slots = (0, 0) # (0, 1) # ts" by blast
  show ?thesis unfolding find_tid_def slots using assms by simp
qed

section \<open>Properties\<close>

text \<open>
  C28. Joining a thread that has exited returns 0, gives its kernel stack back to the page
  allocator and frees its slot.
\<close>

theorem kthread_join_reaps_zombie:
  assumes "held s = []" "curthread s = Some c" "shouldDie (thread_at s c) = 0"
    and "find_tid x s = Some t" "valid_thread s t" "tstate (thread_at s t) = T_ZOMBIE"
    and "page_ok s (kstack (thread_at s t))" "kmem_inv s ps" "kstack (thread_at s t) \<notin> set ps"
  shows "\<exists>s'. kthread_join x s e = Ok 0 s' e \<and> held s' = [] \<and>
    tstate (thread_at s' t) = T_UNUSED \<and> tid (thread_at s' t) = 0 \<and>
    kmem_inv s' (kstack (thread_at s t) # ps)"
proof -
  let ?k = "kfree_fn (kstack (thread_at s t)) s"
  let ?s = "upd_thread t (\<lambda>x. x\<lparr>kstack := 0, tid := 0, shouldDie := 0, tstate := T_UNUSED\<rparr>) ?k"
  have j: "kthread_join x s e = Ok 0 ?s e"
    using join_step_zombie [OF assms(2,3,1,4,6,7)] kthread_join_eq [OF assms(1-3)]
    by (simp add: kwait_Some)
  have "valid_thread ?k t" using assms(5) by (simp add: valid_thread_def kfree_fn_def)
  then have "tstate (thread_at ?s t) = T_UNUSED" "tid (thread_at ?s t) = 0"
    by (simp_all add: thread_at_upd_thread)
  moreover have "kmem_inv ?s (kstack (thread_at s t) # ps)"
    using kmem.give [OF assms(8,7,9)] by (simp add: kmem_inv_def page_ok_def)
  ultimately show ?thesis using j assms(1) by (simp add: kfree_fn_def)
qed

theorem kthread_join_reaps_zombie_witness:
  "\<exists>s'. kthread_join 7 (upd_thread (0, 1) (\<lambda>x. x\<lparr>tid := 7, tstate := T_ZOMBIE,
      kstack := 0x80200000\<rparr>) (sample [])) [] = Ok 0 s' [] \<and> kmem_inv s' [0x80200000]"
proof -
  let ?s = "upd_thread (0, 1) (\<lambda>x. x\<lparr>tid := 7, tstate := T_ZOMBIE, kstack := 0x80200000\<rparr>) (sample [])"
  have f: "find_tid 7 ?s = Some (0, 1)"
    by (rule find_tid_01) (simp_all add: thread_at_def upd_thread_def upd_nth_def sample_defs)
  have c: "held ?s = []" "curthread ?s = Some (0, 0)" by simp_all
  have d: "shouldDie (thread_at ?s (0, 0)) = 0" "tstate (thread_at ?s (0, 1)) = T_ZOMBIE"
    "kstack (thread_at ?s (0, 1)) = 0x80200000" "valid_thread ?s (0, 1)"
    by (simp_all add: thread_at_def upd_thread_def upd_nth_def valid_thread_def sample_defs)
  have "page_ok ?s 0x80200000" "kmem_inv ?s []"
    by (simp_all add: kmem_inv_def page_ok_def PGSIZE_def V2P_def KERNBASE_def PHYSTOP_def)
  then show ?thesis
    using kthread_join_reaps_zombie [OF c d(1) f d(4,2), of "[]" "[]"] d(3) by auto
qed



end
