(* ===== verification/Kmutex.thy ===== *)
theory Kmutex
  imports Sched
begin

text \<open>
  The mutexes of the kernel thread package (\<^verbatim>\<open>kthread_mutex_*\<close> in \<^verbatim>\<open>proc.c\<close>). First the system
  calls themselves; then a step relation for threads that use one mutex concurrently, whose
  steps are the stretches of the code between the operations on \<^verbatim>\<open>m->mutexLock\<close>.
\<close>

section \<open>The system calls\<close>

text \<open>What the calls do to the mutex itself.\<close>

definition mutex_init :: "uint32 \<Rightarrow> uint32 \<Rightarrow> mutex \<Rightarrow> mutex" where
  "mutex_init mi pd m = m\<lparr>mlock := 0, mid := mi, pid_holder := pd, numOfWaiting := 0,
     mstate := OPEN, mholding := None\<rparr>"

definition mutex_reset :: "mutex \<Rightarrow> mutex" where
  "mutex_reset m = m\<lparr>mholding := None, mid := 0, mlock := 0, numOfWaiting := 0,
     pid_holder := 0, mstate := UNINITIALIZED\<rparr>"

definition mutex_xchg :: "mutex \<Rightarrow> uint32 \<times> mutex" where
  "mutex_xchg m = (mlock m, m\<lparr>mlock := 1\<rparr>)"

definition mutex_own :: "tptr option \<Rightarrow> mutex \<Rightarrow> mutex" where
  "mutex_own t m = m\<lparr>mstate := CLOSE, mholding := t\<rparr>"

definition mutex_open :: "mutex \<Rightarrow> mutex" where
  "mutex_open m = m\<lparr>mlock := 0, mstate := OPEN, mholding := None\<rparr>"

definition kthread_mutex_alloc :: "uint32 kern" where
  "kthread_mutex_alloc =
     kseq (lk_acquire MtableLock)
    (kbind (kget (\<lambda>s. find_idx (\<lambda>m. mstate m = UNINITIALIZED) (mtable s))) (\<lambda>found.
     case found of
       None \<Rightarrow> kseq (lk_release MtableLock) (kret (-1))
     | Some i \<Rightarrow>
         kseq (lk_acquire (MutexLock i))
        (kseq (lk_release MtableLock)
        (kbind myproc (\<lambda>p. deref p (\<lambda>p.
         kseq (kmod (\<lambda>s. upd_mutex i (mutex_init (nextmid s) (pid (ptable s ! p)))
                 (s\<lparr>nextmid := nextmid s + 1\<rparr>)))
        (kseq (lk_release (MutexLock i))
        (kget (\<lambda>s. mid (mtable s ! i))))))))))"

definition kthread_mutex_dealloc :: "uint32 \<Rightarrow> uint32 kern" where
  "kthread_mutex_dealloc mutex_id =
     kseq (lk_acquire MtableLock)
    (kbind (kget (\<lambda>s. find_idx (\<lambda>m. mid m = mutex_id) (mtable s))) (\<lambda>found.
     case found of
       None \<Rightarrow> kseq (lk_release MtableLock) (kret (-1))
     | Some i \<Rightarrow>
         kbind (kget (\<lambda>s. mtable s ! i)) (\<lambda>m.
         if mstate m = CLOSE \<or> numOfWaiting m \<noteq> 0 then kseq (lk_release MtableLock) (kret (-1))
         else
           kseq (lk_acquire (MutexLock i))
          (kseq (kmod (upd_mutex i mutex_reset))
          (kseq (lk_release (MutexLock i))
          (kseq (lk_release MtableLock) (kret 0)))))))"

text \<open>
  \<^verbatim>\<open>m->holding->tid\<close>. When \<^verbatim>\<open>holding\<close> is null the load is from address 12, the offset of \<^verbatim>\<open>tid\<close>
  in \<^verbatim>\<open>struct thread\<close>, in the user half of the current address space.
\<close>

definition holder_tid :: "mutex \<Rightarrow> uint32 kern" where
  "holder_tid m = (case mholding m of
     None \<Rightarrow> kload32 12 | Some t \<Rightarrow> kget (\<lambda>s. tid (thread_at s t)))"

definition mytid :: "uint32 kern" where
  "mytid = kbind mythread (\<lambda>t. deref t (\<lambda>t. kget (\<lambda>s. tid (thread_at s t))))"

definition mutex_wait :: "nat \<Rightarrow> unit kern" where
  "mutex_wait i = kwait
     (kbind (kget (\<lambda>s. fst (mutex_xchg (mtable s ! i)))) (\<lambda>old.
      kseq (kmod (upd_mutex i (\<lambda>m. snd (mutex_xchg m))))
     (if old \<noteq> 0 then kseq (sleep (ChMutex i) (MutexLock i)) (kret None)
      else kret (Some ()))))"

definition kthread_mutex_lock :: "uint32 \<Rightarrow> uint32 kern" where
  "kthread_mutex_lock mutex_id =
     kseq (lk_acquire MtableLock)
    (kbind (kget (\<lambda>s. find_idx (\<lambda>m. mid m = mutex_id) (mtable s))) (\<lambda>found.
     case found of
       None \<Rightarrow> kseq (lk_release MtableLock) (kret (-1))
     | Some i \<Rightarrow>
         kbind (kget (\<lambda>s. mtable s ! i)) (\<lambda>m.
         kbind (if mstate m = UNINITIALIZED then kret True
                else kbind (holder_tid m) (\<lambda>a. kbind mytid (\<lambda>b. kret (a = b)))) (\<lambda>refuse.
         if refuse then kseq (lk_release MtableLock) (kret (-1))
         else
           kseq (lk_acquire (MutexLock i))
          (kseq (lk_release MtableLock)
          (kseq (mutex_wait i)
          (kbind mythread (\<lambda>t.
           kseq (kmod (upd_mutex i (mutex_own t)))
          (kseq (lk_release (MutexLock i)) (kret 0))))))))))"

text \<open>
  \<^verbatim>\<open>kthread_mutex_unlock\<close> makes the first thread of the caller's process that sleeps on the mutex
  runnable. It does not take \<^verbatim>\<open>ptable.lock\<close>.
\<close>

definition kthread_mutex_unlock :: "uint32 \<Rightarrow> uint32 kern" where
  "kthread_mutex_unlock mutex_id =
     kbind myproc (\<lambda>p.
     kseq (lk_acquire MtableLock)
    (kbind (kget (\<lambda>s. find_idx (\<lambda>m. mid m = mutex_id) (mtable s))) (\<lambda>found.
     case found of
       None \<Rightarrow> kseq (lk_release MtableLock) (kret (-1))
     | Some i \<Rightarrow>
         kseq (lk_acquire (MutexLock i))
        (kseq (lk_release MtableLock)
        (kbind (kget (\<lambda>s. mtable s ! i)) (\<lambda>m.
         kbind (if mstate m \<noteq> CLOSE then kret True
                else kbind (holder_tid m) (\<lambda>a. kbind mytid (\<lambda>b. kret (a \<noteq> b)))) (\<lambda>refuse.
         if refuse then kseq (lk_release (MutexLock i)) (kret (-1))
         else
           kseq (kmod (upd_mutex i mutex_open))
          (deref p (\<lambda>p.
           kbind (kget (\<lambda>s. find_idx (\<lambda>t. tstate t = T_SLEEPING \<and> tchan t = Some (ChMutex i))
                              (ttable (ptable s ! p)))) (\<lambda>w.
           kseq (case w of None \<Rightarrow> kret ()
                 | Some j \<Rightarrow> kmod (upd_thread (p, j) (\<lambda>t. t\<lparr>tstate := T_RUNNABLE\<rparr>)))
          (kseq (lk_release (MutexLock i)) (kret 0))))))))))))"

section \<open>Lock discipline\<close>

lemma lk_ok_holder_tid [klock]: "lk_bal h (holder_tid m)"
  unfolding holder_tid_def by (rule klock | simp)+

lemma lk_ok_mytid [klock]: "lk_bal h mytid"
  unfolding mytid_def by (rule klock | simp)+

lemma lk_ok_mutex_alloc [klock]: "h = [] \<Longrightarrow> lk_bal h kthread_mutex_alloc"
  unfolding kthread_mutex_alloc_def by (rule klock | simp)+

lemma lk_ok_mutex_dealloc [klock]: "h = [] \<Longrightarrow> lk_bal h (kthread_mutex_dealloc m)"
  unfolding kthread_mutex_dealloc_def by (rule klock | simp)+

lemma lk_ok_mutex_wait [klock]: "h = [MutexLock i] \<Longrightarrow> lk_bal h (mutex_wait i)"
  unfolding mutex_wait_def by (rule klock | simp)+

lemma lk_ok_mutex_lock [klock]: "h = [] \<Longrightarrow> lk_bal h (kthread_mutex_lock m)"
  unfolding kthread_mutex_lock_def by (rule klock | simp)+

lemma lk_ok_mutex_unlock [klock]: "h = [] \<Longrightarrow> lk_bal h (kthread_mutex_unlock m)"
  unfolding kthread_mutex_unlock_def by (rule klock | simp)+

section \<open>Behaviour of the system calls\<close>

lemma mutex_alloc_eq:
  assumes "held s = []" "curproc s = Some p"
  shows "kthread_mutex_alloc s e = (case find_idx (\<lambda>m. mstate m = UNINITIALIZED) (mtable s) of
      None \<Rightarrow> Ok (-1) s e
    | Some i \<Rightarrow> Ok (nextmid s) (upd_mutex i (mutex_init (nextmid s) (pid (ptable s ! p)))
        (s\<lparr>nextmid := nextmid s + 1\<rparr>)) e)"
  using assms find_idx_lt [of "\<lambda>m. mstate m = UNINITIALIZED" "mtable s"]
  by (auto simp: kthread_mutex_alloc_def kbind_def kseq_def lk_acquire_apply lk_release_apply
      myproc_def upd_mutex_def mutex_init_def split: option.split)

lemma mutex_dealloc_eq:
  assumes "held s = []"
  shows "kthread_mutex_dealloc x s e = (case find_idx (\<lambda>m. mid m = x) (mtable s) of
      None \<Rightarrow> Ok (-1) s e
    | Some i \<Rightarrow> if mstate (mtable s ! i) = CLOSE \<or> numOfWaiting (mtable s ! i) \<noteq> 0 then Ok (-1) s e
        else Ok 0 (upd_mutex i mutex_reset s) e)"
  using assms
  by (auto simp: kthread_mutex_dealloc_def kbind_def kseq_def lk_acquire_apply lk_release_apply
      upd_mutex_def split: option.split)

lemma mutex_lock_free:
  assumes "held s = []" "curthread s = Some t"
    and found: "find_idx (\<lambda>m. mid m = x) (mtable s) = Some i"
    and "mstate (mtable s ! i) = OPEN" "mlock (mtable s ! i) = 0"
    and holder: "holder_tid (mtable s ! i) (s\<lparr>held := [MtableLock]\<rparr>) e = Ok v (s\<lparr>held := [MtableLock]\<rparr>) e"
  shows "kthread_mutex_lock x s e =
    (if v = tid (thread_at s t) then Ok (-1) s e
     else Ok 0 (upd_mutex i (\<lambda>m. mutex_own (Some t) (m\<lparr>mlock := 1\<rparr>)) s) e)"
  using assms find_idx_lt [OF found]
  by (auto simp: kthread_mutex_lock_def kbind_def kseq_def lk_acquire_apply lk_release_apply
      mythread_def mytid_def mutex_wait_def kwait_def mutex_xchg_def upd_mutex_def thread_at_def o_def)

text \<open>Waking one sleeper of process \<open>p\<close>.\<close>

definition wake_one :: "nat \<Rightarrow> nat \<Rightarrow> kernel \<Rightarrow> kernel" where
  "wake_one i p s = (case find_idx (\<lambda>t. tstate t = T_SLEEPING \<and> tchan t = Some (ChMutex i))
       (ttable (ptable s ! p)) of
     None \<Rightarrow> s | Some j \<Rightarrow> upd_thread (p, j) (\<lambda>t. t\<lparr>tstate := T_RUNNABLE\<rparr>) s)"

lemma mutex_unlock_eq:
  assumes "held s = []" "curthread s = Some t" "curproc s = Some p"
    and "find_idx (\<lambda>m. mid m = x) (mtable s) = Some i"
    and "mstate (mtable s ! i) = CLOSE" "mholding (mtable s ! i) = Some u"
  shows "kthread_mutex_unlock x s e =
    (if tid (thread_at s u) = tid (thread_at s t)
     then Ok 0 (wake_one i p (upd_mutex i mutex_open s)) e else Ok (-1) s e)"
  using assms
  by (auto simp: kthread_mutex_unlock_def kbind_def kseq_def lk_acquire_apply lk_release_apply
      mythread_def myproc_def mytid_def holder_tid_def upd_mutex_def upd_thread_def upd_proc_def
      thread_at_def wake_one_def split: option.split)

text \<open>
  Mutex ids: the slots in use have different ids, all handed out before.
\<close>

definition mid_inv :: "kernel \<Rightarrow> bool" where
  "mid_inv s \<longleftrightarrow> ids_ok mid (\<lambda>m. mstate m \<noteq> UNINITIALIZED) (nextmid s) (mtable s)"

lemma mid_inv_alloc:
  "mid_inv s \<Longrightarrow> i < length (mtable s) \<Longrightarrow> nextmid s \<noteq> -1 \<Longrightarrow>
   mid_inv (upd_mutex i (mutex_init (nextmid s) pd) (s\<lparr>nextmid := nextmid s + 1\<rparr>))"
  by (simp add: mid_inv_def upd_mutex_def ids_ok_alloc mutex_init_def)

section \<open>Threads that share a mutex\<close>

text \<open>
  Where a thread is with respect to the mutex: outside; in \<^verbatim>\<open>sleep\<close> after \<^verbatim>\<open>release(lk)\<close> and before
  its state is \<^verbatim>\<open>T_SLEEPING\<close>; asleep; runnable again but not yet back in the loop; holding the
  mutex. Everything a thread does to the mutex between two operations on \<^verbatim>\<open>mutexLock\<close> is one
  step. An unlock by a thread that is not the holder changes nothing and is left out.
\<close>

datatype kpc = KOut | KGoing | KAsleep | KReady | KHeld

type_synonym kmstate = "mutex \<times> (tptr \<Rightarrow> kpc)"

inductive km_step :: "kmstate \<Rightarrow> kmstate \<Rightarrow> bool" where
  lock_free: "pc t = KOut \<or> pc t = KReady \<Longrightarrow> mutex_xchg m = (0, m') \<Longrightarrow>
    km_step (m, pc) (mutex_own (Some t) m', pc(t := KHeld))"
| lock_busy: "pc t = KOut \<or> pc t = KReady \<Longrightarrow> mutex_xchg m = (v, m') \<Longrightarrow> v \<noteq> 0 \<Longrightarrow>
    km_step (m, pc) (m', pc(t := KGoing))"
| doze: "pc t = KGoing \<Longrightarrow> km_step (m, pc) (m, pc(t := KAsleep))"
| roused: "pc t = KAsleep \<Longrightarrow> km_step (m, pc) (m, pc(t := KReady))"
| unlock_wake: "pc t = KHeld \<Longrightarrow> mstate m = CLOSE \<Longrightarrow> mholding m = Some t \<Longrightarrow>
    pc u = KAsleep \<Longrightarrow> fst u = fst t \<Longrightarrow> (\<And>j. j < snd u \<Longrightarrow> pc (fst t, j) \<noteq> KAsleep) \<Longrightarrow>
    km_step (m, pc) (mutex_open m, pc(t := KOut, u := KReady))"
| unlock_none: "pc t = KHeld \<Longrightarrow> mstate m = CLOSE \<Longrightarrow> mholding m = Some t \<Longrightarrow>
    (\<And>j. pc (fst t, j) \<noteq> KAsleep) \<Longrightarrow>
    km_step (m, pc) (mutex_open m, pc(t := KOut))"

inductive km_reach :: "kmstate \<Rightarrow> bool" where
  init: "km_reach (mutex_init mi pd m, \<lambda>_. KOut)"
| step: "km_reach x \<Longrightarrow> km_step x y \<Longrightarrow> km_reach y"

definition km_inv :: "kmstate \<Rightarrow> bool" where
  "km_inv = (\<lambda>(m, pc). (mlock m = 0 \<or> mlock m = 1) \<and>
     (mlock m = 0 \<longrightarrow> (\<forall>t. pc t \<noteq> KHeld)) \<and>
     (\<forall>t. pc t = KHeld \<longrightarrow> mholding m = Some t \<and> mstate m = CLOSE))"

lemmas mutex_op_defs = mutex_init_def mutex_reset_def mutex_xchg_def mutex_own_def mutex_open_def

lemma km_step_inv: "km_step x y \<Longrightarrow> km_inv x \<Longrightarrow> km_inv y"
proof (induction rule: km_step.induct)
  case (unlock_wake pc t m u)
  then have only: "\<And>v. pc v = KHeld \<Longrightarrow> v = t" by (auto simp: km_inv_def)
  then have "\<And>v. (pc(t := KOut, u := KReady)) v \<noteq> KHeld" by auto
  then show ?case by (simp add: km_inv_def mutex_open_def)
next
  case (unlock_none pc t m)
  then have only: "\<And>v. pc v = KHeld \<Longrightarrow> v = t" by (auto simp: km_inv_def)
  then have "\<And>v. (pc(t := KOut)) v \<noteq> KHeld" by auto
  then show ?case by (simp add: km_inv_def mutex_open_def)
qed (auto simp: km_inv_def mutex_op_defs split: if_splits)

lemma km_reach_inv: "km_reach x \<Longrightarrow> km_inv x"
proof (induction rule: km_reach.induct)
  case (init mi pd m)
  then show ?case by (simp add: km_inv_def mutex_init_def)
qed (rule km_step_inv)

text \<open>A run of the step relation: the first thread locks, the second finds the mutex taken.\<close>

lemma km_reach_contended:
  assumes "t \<noteq> u"
  shows "\<exists>m. km_reach (m, (\<lambda>_. KOut)(t := KHeld, u := KGoing)) \<and>
    mstate m = CLOSE \<and> mholding m = Some t"
proof -
  let ?m0 = "mutex_init 1 1 mutex0"
  let ?m1 = "mutex_own (Some t) (?m0\<lparr>mlock := 1\<rparr>)"
  let ?m2 = "?m1\<lparr>mlock := 1\<rparr>"
  have "km_reach (?m0, \<lambda>_. KOut)" by (rule km_reach.init)
  then have "km_reach (?m1, (\<lambda>_. KOut)(t := KHeld))"
    by (rule km_reach.step) (rule km_step.lock_free, simp_all add: mutex_op_defs)
  then have "km_reach (?m2, (\<lambda>_. KOut)(t := KHeld, u := KGoing))"
    by (rule km_reach.step) (rule km_step.lock_busy [where v = 1], use assms in \<open>simp_all add: mutex_op_defs\<close>)
  then show ?thesis by (intro exI [of _ ?m2]) (simp add: mutex_op_defs)
qed

section \<open>Properties\<close>

text \<open>
  C2. Mutual exclusion of a kernel-thread mutex: however lock and unlock calls of any number of
  threads interleave, sleep and are woken, at most one thread holds the mutex.
\<close>

theorem kmutex_mutual_exclusion:
  assumes "km_reach (m, pc)" "pc t = KHeld" "pc u = KHeld"
  shows "t = u"
proof -
  have "mholding m = Some t" "mholding m = Some u"
    using km_reach_inv [OF assms(1)] assms(2,3) unfolding km_inv_def by blast+
  then show ?thesis by simp
qed

theorem kmutex_mutual_exclusion_witness:
  "\<exists>m pc. km_reach (m, pc) \<and> pc (0, 0) = KHeld \<and> pc (0, 1) = KGoing \<and>
     {t. pc t = KHeld} = {(0, 0)}"
proof -
  let ?pc = "(\<lambda>_. KOut)((0 :: nat, 0 :: nat) := KHeld, (0, 1) := KGoing)"
  obtain m where m: "km_reach (m, ?pc)" using km_reach_contended [of "(0, 0)" "(0, 1)"] by auto
  have "t = (0, 0)" if "?pc t = KHeld" for t
    by (rule kmutex_mutual_exclusion [OF m that]) simp
  then have "{t. ?pc t = KHeld} \<subseteq> {(0, 0)}" by blast
  moreover have "(0, 0) \<in> {t. ?pc t = KHeld}" by simp
  ultimately have "{t. ?pc t = KHeld} = {(0, 0)}" by blast
  then show ?thesis using m by (intro exI [of _ m] exI [of _ ?pc]) simp
qed

text \<open>
  C3. A wake-up can be lost. \<^verbatim>\<open>kthread_mutex_unlock\<close> looks for sleepers without holding
  \<^verbatim>\<open>ptable.lock\<close>, so it can run after the waiting thread has released \<^verbatim>\<open>mutexLock\<close> in \<^verbatim>\<open>sleep\<close> and
  before its state is \<^verbatim>\<open>T_SLEEPING\<close>: a state is reachable in which the mutex is open, nobody
  holds it, and the waiting thread is asleep with no one left to wake it.
\<close>

theorem kmutex_lost_wakeup:
  "\<exists>m. km_reach (m, (\<lambda>_. KOut)((0, 1) := KAsleep)) \<and>
     mlock m = 0 \<and> mstate m = OPEN \<and> mholding m = None"
proof -
  obtain m where m: "km_reach (m, (\<lambda>_. KOut)((0, 0) := KHeld, (0, 1) := KGoing))"
      "mstate m = CLOSE" "mholding m = Some (0, 0)"
    using km_reach_contended [of "(0, 0)" "(0, 1)"] by auto
  have "km_reach (mutex_open m, ((\<lambda>_. KOut)((0, 0) := KHeld, (0, 1) := KGoing))((0, 0) := KOut))"
    by (rule km_reach.step [OF m(1)], rule km_step.unlock_none) (use m in auto)
  then have "km_reach (mutex_open m, (\<lambda>_. KOut)((0, 1) := KGoing))"
    by (simp add: fun_upd_twist fun_upd_idem)
  then have "km_reach (mutex_open m, ((\<lambda>_. KOut)((0, 1) := KGoing))((0, 1) := KAsleep))"
    by (rule km_reach.step) (rule km_step.doze, simp)
  then show ?thesis by (intro exI [of _ "mutex_open m"]) (simp add: mutex_open_def)
qed

text \<open>
  C18. Mutex ids are unique: \<^verbatim>\<open>kthread_mutex_alloc\<close> returns an id no mutex in use has, opens the
  mutex, unlocked and without holder, and keeps the invariant; it returns -1 only when all
  slots are in use.
\<close>

theorem mutex_alloc_unique:
  assumes "held s = []" "curproc s = Some p" "mid_inv s" "nextmid s \<noteq> -1"
  shows "case find_idx (\<lambda>m. mstate m = UNINITIALIZED) (mtable s) of
      None \<Rightarrow> kthread_mutex_alloc s e = Ok (-1) s e
    | Some i \<Rightarrow> \<exists>s'. kthread_mutex_alloc s e = Ok (nextmid s) s' e \<and> mid_inv s' \<and>
        mid (mtable s' ! i) = nextmid s \<and> mstate (mtable s' ! i) = OPEN \<and>
        mlock (mtable s' ! i) = 0 \<and> mholding (mtable s' ! i) = None \<and>
        nextmid s \<notin> mid ` set (mtable s)"
proof (cases "find_idx (\<lambda>m. mstate m = UNINITIALIZED) (mtable s)")
  case None
  then show ?thesis by (simp add: mutex_alloc_eq [OF assms(1,2)])
next
  case (Some i)
  have "nextmid s \<notin> mid ` set (mtable s)"
    using assms(3) by (auto simp: mid_inv_def ids_ok_def)
  then show ?thesis
    using Some find_idx_lt [OF Some] mid_inv_alloc [OF assms(3) _ assms(4), of i]
    by (simp add: mutex_alloc_eq [OF assms(1,2)]) (simp add: upd_mutex_def mutex_init_def)
qed

theorem mutex_alloc_unique_witness:
  "\<exists>s'. kthread_mutex_alloc (sample []) [] = Ok 1 s' [] \<and> mid_inv s' \<and> mid (mtable s' ! 0) = 1"
proof -
  have "held (sample []) = []" "curproc (sample []) = Some 0" "mid_inv (sample [])"
    "nextmid (sample []) \<noteq> -1"
    by (auto simp: mid_inv_def ids_ok_def sample_defs)
  from mutex_alloc_unique [OF this, of "[]"] show ?thesis by (auto simp: sample_defs)
qed

text \<open>
  C19. Locking an open mutex and unlocking it again: the lock call returns 0 with the caller as
  holder, and the caller's unlock returns 0 and leaves the mutex open and free. The id the lock
  call compares with the caller's is the one read through the null \<^verbatim>\<open>holding\<close> pointer.
\<close>

theorem mutex_lock_unlock:
  assumes "held s = []" "curthread s = Some t" "curproc s = Some p"
    and found: "find_idx (\<lambda>m. mid m = x) (mtable s) = Some i"
    and "mstate (mtable s ! i) = OPEN" "mlock (mtable s ! i) = 0" "mholding (mtable s ! i) = None"
    and "kload32 12 (s\<lparr>held := [MtableLock]\<rparr>) e = Ok v (s\<lparr>held := [MtableLock]\<rparr>) e"
    and "v \<noteq> tid (thread_at s t)"
  shows "\<exists>s1 s2. kthread_mutex_lock x s e = Ok 0 s1 e \<and> held s1 = [] \<and>
    mstate (mtable s1 ! i) = CLOSE \<and> mholding (mtable s1 ! i) = Some t \<and>
    kthread_mutex_unlock x s1 e = Ok 0 s2 e \<and> mtable s2 = mtable s"
proof -
  let ?f = "\<lambda>m. mutex_own (Some t) (m\<lparr>mlock := 1\<rparr>)"
  let ?s1 = "upd_mutex i ?f s"
  have lock: "kthread_mutex_lock x s e = Ok 0 ?s1 e"
    using mutex_lock_free [OF assms(1,2,4-6), of e v] assms(7-9) by (simp add: holder_tid_def)
  have i: "i < length (mtable s)" using found by (rule find_idx_lt)
  have idx: "find_idx (\<lambda>m. mid m = x) (mtable ?s1) = Some i"
  proof (rule find_idx_SomeI)
    show "\<not> mid (mtable ?s1 ! j) = x" if "j < i" for j
      using find_idx_SomeD [OF found] that by (simp add: upd_mutex_def)
  qed (use i find_idx_holds [OF found] in \<open>simp_all add: upd_mutex_def mutex_own_def\<close>)
  have unlock: "kthread_mutex_unlock x ?s1 e = Ok 0 (wake_one i p (upd_mutex i mutex_open ?s1)) e"
    using mutex_unlock_eq [OF _ _ _ idx, of t p t e] i assms(1-3)
    by (simp add: upd_mutex_def mutex_own_def)
  have "mutex_open (?f (mtable s ! i)) = mtable s ! i"
    using assms(5-7) by (simp add: mutex_open_def mutex_own_def)
  then have "mtable (upd_mutex i mutex_open ?s1) = mtable s"
    using i by (simp add: upd_mutex_def upd_nth_def)
  then have "mtable (wake_one i p (upd_mutex i mutex_open ?s1)) = mtable s"
    by (simp add: wake_one_def upd_thread_def upd_proc_def split: option.split)
  then show ?thesis
    using lock unlock i assms(1) by (intro exI) (auto simp: upd_mutex_def mutex_own_def)
qed

text \<open>
  C24. The null dereference is observable: when the word at address 12 of the caller's address
  space happens to equal the caller's thread id, \<^verbatim>\<open>kthread_mutex_lock\<close> refuses an open, unheld
  mutex.
\<close>

theorem mutex_lock_refused_by_user_word:
  assumes "held s = []" "curthread s = Some t"
    and "find_idx (\<lambda>m. mid m = x) (mtable s) = Some i"
    and "mstate (mtable s ! i) = OPEN" "mlock (mtable s ! i) = 0" "mholding (mtable s ! i) = None"
    and "kload32 12 (s\<lparr>held := [MtableLock]\<rparr>) e =
      Ok (tid (thread_at s t)) (s\<lparr>held := [MtableLock]\<rparr>) e"
  shows "kthread_mutex_lock x s e = Ok (-1) s e"
  using mutex_lock_free [OF assms(1-5), of e "tid (thread_at s t)"] assms(6,7)
  by (simp add: holder_tid_def)

text \<open>A state with an open mutex 1 and user page 0 mapped, holding the word \<open>v\<close> at address 12.\<close>

definition mutex_sample :: "uint32 \<Rightarrow> kernel" where
  "mutex_sample v = (sample [])\<lparr>mtable := [mutex_init 1 1 mutex0],
     mem := store32 (store32 (store32 (\<lambda>_. 0) 0x80000000 0x1001) 0x80001000 0x2001) 0x8000200C v\<rparr>"

lemma mutex_sample_load:
  "kload32 12 ((mutex_sample v)\<lparr>held := h\<rparr>) e = Ok v ((mutex_sample v)\<lparr>held := h\<rparr>) e"
proof -
  let ?m = "mem (mutex_sample v)"
  have pde: "load32 ?m 0x80000000 = 0x1001" and pte: "load32 ?m 0x80001000 = 0x2001"
    by (simp_all add: mutex_sample_def load32_store32_other aligned4_def)
  have t: "translate ((mutex_sample v)\<lparr>held := h\<rparr>) a = Some (0x80002000 OR a)"
    if "a \<in> {12, 13, 14, 15}" for a
    using that pde pte
    by (auto simp: translate_def KERNBASE_def P2V_def PDX_def PTX_def pte_defs mutex_sample_def)
  have "load32 ?m 0x8000200C = v" by (simp add: mutex_sample_def)
  then show ?thesis
    by (simp add: kload32_def kload8_def kbind_def t load32_def)
qed

theorem mutex_lock_unlock_witness:
  "\<exists>s1 s2. kthread_mutex_lock 1 (mutex_sample 0) [] = Ok 0 s1 [] \<and>
    mholding (mtable s1 ! 0) = Some (0, 0) \<and> kthread_mutex_unlock 1 s1 [] = Ok 0 s2 [] \<and>
    mtable s2 = mtable (mutex_sample 0)"
  using mutex_lock_unlock [of "mutex_sample 0" "(0, 0)" 0 1 0 "[]" 0] mutex_sample_load [where v = 0]
  by (auto simp: mutex_sample_def mutex_init_def sample_defs thread_at_def)

theorem mutex_lock_refused_by_user_word_witness:
  "kthread_mutex_lock 1 (mutex_sample 1) [] = Ok (-1) (mutex_sample 1) []"
  by (rule mutex_lock_refused_by_user_word [of _ "(0, 0)" _ 0])
    (use mutex_sample_load [where v = 1] in
      \<open>simp_all add: mutex_sample_def mutex_init_def sample_defs thread_at_def\<close>)

end
