(* ===== verification/Process.thy ===== *)
theory Process
  imports File Kthread Kmutex
begin

text \<open>
  The upper half of \<^verbatim>\<open>proc.c\<close>: the first process, \<^verbatim>\<open>fork\<close>, \<^verbatim>\<open>exit\<close>, the end of a thread and the
  routines that print states. A routine that ended with \<open>Dies\<close> has called \<^verbatim>\<open>kthread_exit\<close>; \<open>ending\<close>
  continues it there.
\<close>

section \<open>Printing states\<close>

definition state_upper :: "threadstate \<Rightarrow> string" where
  "state_upper st =
     (case st of T_UNUSED \<Rightarrow> ''T_UNUSED'' | T_EMBRYO \<Rightarrow> ''T_EMBRYO'' | T_SLEEPING \<Rightarrow> ''T_SLEEPING''
      | T_RUNNABLE \<Rightarrow> ''T_RUNNABLE'' | T_RUNNING \<Rightarrow> ''T_RUNNING'' | T_ZOMBIE \<Rightarrow> ''T_ZOMBIE'')"

definition newline :: string where "newline = [char_of (10 :: nat)]"

definition cprintState :: "tptr \<Rightarrow> unit kern" where
  "cprintState t =
     kbind (kget (\<lambda>s. thread_at s t)) (\<lambda>th. deref (tparent th) (\<lambda>p.
     kbind (kget (\<lambda>s. pname (ptable s ! p))) (\<lambda>nm.
     cprintf (''thread id %d and he killed=%d that is father is %s in state '' @ state_upper (tstate th) @ newline)
       [AInt (tid th), AInt (shouldDie th), AStr (Some nm)])))"

definition cprintMutexState :: "nat \<Rightarrow> unit kern" where
  "cprintMutexState i =
     kbind (kget (\<lambda>s. mtable s ! i)) (\<lambda>m.
     cprintf (''mutex id is %d and is state = '' @
       (case mstate m of UNINITIALIZED \<Rightarrow> ''UNINITIALIZED'' | OPEN \<Rightarrow> ''OPEN'' | CLOSE \<Rightarrow> ''CLOSE'') @ newline)
       [AInt (mid m)])"

section \<open>The first process\<close>

text \<open>Selectors of the user segments, \<^verbatim>\<open>(SEG_UCODE << 3) | DPL_USER\<close> and \<^verbatim>\<open>(SEG_UDATA << 3) | DPL_USER\<close>.\<close>

definition USER_CS :: ushort where "USER_CS = push_bit 3 3 OR 3"
definition USER_DS :: ushort where "USER_DS = push_bit 3 4 OR 3"

definition mstore16 :: "addr \<Rightarrow> ushort \<Rightarrow> unit kern" where
  "mstore16 a v = mmod (\<lambda>m. store16 m a v)"

definition userinit :: "unit kern" where
  "userinit =
     kbind allocproc (\<lambda>p. deref p (\<lambda>p.
     kbind (allocthread p) (\<lambda>t.
     kseq (kmod (\<lambda>s. s\<lparr>initproc := Some p\<rparr>))
    (kbind setupkvm (\<lambda>pd.
     kseq (kmod (upd_proc p (\<lambda>x. x\<lparr>pgdir := pd\<rparr>)))
    (if pd = 0 then kpanic ''userinit: out of memory?''
     else
       kbind (kget (\<lambda>s. sym_initcode (syms s))) (\<lambda>code.
       kseq (inituvm pd code)
      (kseq (kmod (upd_proc p (\<lambda>x. x\<lparr>psz := PGSIZE\<rparr>)))
      (deref t (\<lambda>t.
       kbind (kget (\<lambda>s. tf (thread_at s t))) (\<lambda>tfa.
       kseq (mmod (\<lambda>m. memset m tfa 0 TF_SIZE))
      (kseq (mstore16 (tfa + TF_CS) USER_CS)
      (kseq (mstore16 (tfa + TF_DS) USER_DS)
      (kseq (mstore16 (tfa + TF_ES) USER_DS)
      (kseq (mstore16 (tfa + TF_SS) USER_DS)
      (kseq (mstore32 (tfa + TF_EFLAGS) FL_IF)
      (kseq (mstore32 (tfa + TF_ESP) PGSIZE)
      (kseq (mstore32 (tfa + TF_EIP) 0)
      (kseq (kmod (upd_proc p (\<lambda>x. x\<lparr>pname := copy_name ''initcode'' 16\<rparr>)))
      (kseq (kmod (upd_thread t (\<lambda>x. x\<lparr>tname := copy_name ''initcodeThread'' 16\<rparr>)))
      (kbind (namei (PStr [SLASH])) (\<lambda>d.
       kseq (kmod (upd_proc p (\<lambda>x. x\<lparr>cwd := d\<rparr>)))
      (kseq (lk_acquire PtableLock)
      (kseq (kmod (upd_proc p (\<lambda>x. x\<lparr>pstate := USED\<rparr>)))
      (kseq (kmod (upd_thread t (\<lambda>x. x\<lparr>tstate := T_RUNNABLE\<rparr>)))
      (lk_release PtableLock))))))))))))))))))))))))))"

text \<open>\<^verbatim>\<open>forkret\<close> starts with the process table's lock held, as the scheduler left it.\<close>

definition forkret :: "unit kern" where
  "forkret =
     kseq (lk_release PtableLock)
    (kbind (kget first) (\<lambda>f.
     kwhen (f \<noteq> 0)
      (kseq (kmod (\<lambda>s. s\<lparr>first := 0\<rparr>))
      (kseq (iinit ROOTDEV)
      (initlog ROOTDEV)))))"

section \<open>Fork\<close>

definition dup_file :: "nat \<Rightarrow> nat \<Rightarrow> nat \<Rightarrow> unit kern" where
  "dup_file cp np fd =
     kbind (kget (\<lambda>s. ofile (ptable s ! cp) ! fd)) (\<lambda>f.
     case f of
       None \<Rightarrow> kret ()
     | Some f \<Rightarrow>
         kbind (filedup f) (\<lambda>g.
         kmod (upd_proc np (\<lambda>x. x\<lparr>ofile := (ofile x)[fd := Some g]\<rparr>))))"

text \<open>What \<^verbatim>\<open>fork\<close> does once it has the slots and the copy of the address space.\<close>

definition fork_finish :: "nat \<Rightarrow> tptr \<Rightarrow> nat \<Rightarrow> tptr \<Rightarrow> uint32 kern" where
  "fork_finish cp ct np nt =
     kbind (kget (\<lambda>s. psz (ptable s ! cp))) (\<lambda>sz.
     kseq (kmod (upd_proc np (\<lambda>x. x\<lparr>psz := sz, pparent := Some cp\<rparr>)))
    (kbind (kget (\<lambda>s. tf (thread_at s nt))) (\<lambda>ntf.
     kbind (kget (\<lambda>s. tf (thread_at s ct))) (\<lambda>ctf.
     kseq (copy_tf ntf ctf)
    (kseq (mstore32 (ntf + TF_EAX) 0)
    (kseq (kfor (dup_file cp np) [0..<NOFILE])
    (kbind (kget (\<lambda>s. cwd (ptable s ! cp))) (\<lambda>d. deref d (\<lambda>d.
     kbind (idup d) (\<lambda>d.
     kseq (kmod (upd_proc np (\<lambda>x. x\<lparr>cwd := Some d\<rparr>)))
    (kseq (kmod (\<lambda>s. upd_proc np (\<lambda>x. x\<lparr>pname := copy_name (pname (ptable s ! cp)) 16\<rparr>) s))
    (kseq (kmod (\<lambda>s. upd_thread nt (\<lambda>x. x\<lparr>tname := copy_name (tname (thread_at s ct)) 16\<rparr>) s))
    (kbind (kget (\<lambda>s. pid (ptable s ! np))) (\<lambda>pd.
     kseq (lk_acquire PtableLock)
    (kseq (kmod (upd_proc np (\<lambda>x. x\<lparr>pstate := USED\<rparr>)))
    (kseq (kmod (upd_thread nt (\<lambda>x. x\<lparr>tstate := T_RUNNABLE\<rparr>)))
    (kseq (lk_release PtableLock)
    (kret pd))))))))))))))))))"

definition fork :: "uint32 kern" where
  "fork =
     kbind myproc (\<lambda>cp. kbind mythread (\<lambda>ct.
     kbind allocproc (\<lambda>np.
     case np of
       None \<Rightarrow> kret (-1)
     | Some np \<Rightarrow>
         kbind (allocthread np) (\<lambda>nt.
         case nt of
           None \<Rightarrow> kret (-1)
         | Some nt \<Rightarrow>
             deref cp (\<lambda>cp.
             kbind (kget (\<lambda>s. ptable s ! cp)) (\<lambda>pr.
             kbind (copyuvm (pgdir pr) (psz pr)) (\<lambda>d.
             kseq (kmod (upd_proc np (\<lambda>x. x\<lparr>pgdir := d\<rparr>)))
            (if d = 0 then
               kbind (kget (\<lambda>s. kstack (thread_at s nt))) (\<lambda>ks.
               kseq (kfree ks)
              (kseq (kmod (upd_thread nt (\<lambda>x. x\<lparr>kstack := 0\<rparr>)))
              (kseq (kmod (upd_proc np (\<lambda>x. x\<lparr>pstate := UNUSED\<rparr>)))
              (kseq (kmod (upd_thread nt (\<lambda>x. x\<lparr>tstate := T_UNUSED\<rparr>)))
              (kret (-1))))))
             else deref ct (\<lambda>ct. fork_finish cp ct np nt)))))))))"

section \<open>Exit\<close>

definition mark_thread :: "uint32 \<Rightarrow> thread \<Rightarrow> thread" where
  "mark_thread me t =
     rouse (if tid t \<noteq> me then t\<lparr>shouldDie := 1\<rparr> else t)"

text \<open>
  One sweep over the process's threads: the zombies are freed, the others that are in use are
  counted.
\<close>

definition sweep_thread :: "nat \<Rightarrow> nat \<Rightarrow> unit kern" where
  "sweep_thread p i =
     kbind (kget (\<lambda>s. thread_at s (p, i))) (\<lambda>t.
     kwhen (tstate t = T_ZOMBIE)
      (kseq (kfree (kstack t))
      (kseq (kmod (upd_thread (p, i) (\<lambda>x. x\<lparr>kstack := 0, tid := 0, tstate := T_UNUSED\<rparr>)))
      (kmod (upd_proc p (\<lambda>x. x\<lparr>numOfthread := numOfthread x - 1\<rparr>))))))"

primrec sweep :: "nat \<Rightarrow> nat list \<Rightarrow> nat \<Rightarrow> nat kern" where
  "sweep p [] n = kret n"
| "sweep p (i # is) n =
     kbind (kget (\<lambda>s. tstate (thread_at s (p, i)))) (\<lambda>st.
     kseq (sweep_thread p i)
    (sweep p is (if st = T_ZOMBIE \<or> st = T_UNUSED then n else Suc n)))"

text \<open>
  The loop \<^verbatim>\<open>while(numthread > 1)\<close>, a busy wait without a lock. What the others do meanwhile leaves
  this processor's locks and its current thread alone.
\<close>

definition spin_others :: "unit kern" where
  "spin_others =
     kbind (kget (\<lambda>s. (held s, curproc s, curthread s))) (\<lambda>(h, p, t).
     kseq kspin (kmod (\<lambda>s. s\<lparr>held := h, curproc := p, curthread := t\<rparr>)))"

definition exit_sweep :: "nat \<Rightarrow> unit option kern" where
  "exit_sweep p =
     kbind (sweep p [0..<NTHREAD] 0) (\<lambda>n.
     if n > 1 then kseq spin_others (kret None) else kret (Some ()))"

definition close_fd :: "nat \<Rightarrow> nat \<Rightarrow> unit kern" where
  "close_fd p fd =
     kbind (kget (\<lambda>s. ofile (ptable s ! p) ! fd)) (\<lambda>f.
     case f of
       None \<Rightarrow> kret ()
     | Some f \<Rightarrow>
         kseq (fileclose f)
        (kmod (upd_proc p (\<lambda>x. x\<lparr>ofile := (ofile x)[fd := None]\<rparr>))))"

definition dealloc_held :: "nat \<Rightarrow> nat \<Rightarrow> unit kern" where
  "dealloc_held p i =
     kbind (kget (\<lambda>s. mtable s ! i)) (\<lambda>m.
     kbind (kget (\<lambda>s. pid (ptable s ! p))) (\<lambda>pd.
     kwhen (pid_holder m = pd) (kseq (kthread_mutex_dealloc (mid m)) (kret ()))))"

text \<open>\<^verbatim>\<open>for(t = q->ttable; t < &q->ttable[NTHREAD]; t++) wakeup1(t);\<close>\<close>

definition wake_threads :: "nat \<Rightarrow> unit kern" where
  "wake_threads q = kfor (\<lambda>i. wakeup1 (ChThread q i)) [0..<NTHREAD]"

definition adopt :: "nat \<Rightarrow> nat \<Rightarrow> unit kern" where
  "adopt cp q =
     kbind (kget (\<lambda>s. ptable s ! q)) (\<lambda>x.
     kwhen (pparent x = Some cp)
      (kbind (kget initproc) (\<lambda>ini.
       kseq (kmod (upd_proc q (\<lambda>x. x\<lparr>pparent := ini\<rparr>)))
      (kwhen (pstate x = ZOMBIE) (deref ini wake_threads)))))"

definition exit :: "'a kern" where
  "exit =
     kbind myproc (\<lambda>cp. kbind mythread (\<lambda>ct.
     kbind (kget initproc) (\<lambda>ini.
     if cp = ini then kpanic ''init exiting''
     else deref cp (\<lambda>cp.
       kseq (lk_acquire PtableLock)
      (deref ct (\<lambda>ct.
       kbind (kget (\<lambda>s. tid (thread_at s ct))) (\<lambda>me.
       kseq (kmod (upd_proc cp (\<lambda>x. x\<lparr>ttable := map (mark_thread me) (ttable x)\<rparr>)))
      (kseq (lk_release PtableLock)
      (kseq (kwait (exit_sweep cp))
      (kseq (kfor (dealloc_held cp) [0..<MAX_MUTEXES])
      (kseq (kfor (close_fd cp) [0..<NOFILE])
      (kseq begin_op
      (kbind (kget (\<lambda>s. cwd (ptable s ! cp))) (\<lambda>d.
       kseq (deref d iput)
      (kseq end_op
      (kseq (kmod (upd_proc cp (\<lambda>x. x\<lparr>cwd := None\<rparr>)))
      (kseq (lk_acquire PtableLock)
      (kbind (kget (\<lambda>s. pparent (ptable s ! cp))) (\<lambda>q.
       kseq (deref q wake_threads)
      (kseq (kfor (adopt cp) [0..<NPROC])
      (kseq (kmod (upd_proc cp (\<lambda>x. x\<lparr>pstate := ZOMBIE, ttable := map (\<lambda>t.
          if tstate t \<noteq> T_UNUSED then t\<lparr>tstate := T_ZOMBIE\<rparr> else t) (ttable x)\<rparr>)))
      (kseq sched (kpanic ''zombie exit'')))))))))))))))))))))))"

section \<open>The end of a thread\<close>

definition kthread_exit :: "'a kern" where
  "kthread_exit =
     kbind mythread (\<lambda>ct. kbind myproc (\<lambda>cp. deref cp (\<lambda>cp. deref ct (\<lambda>ct.
     kbind (kget (\<lambda>s. list_ex (\<lambda>t. tid (thread_at s ct) \<noteq> tid t \<and> tstate t \<noteq> T_ZOMBIE \<and> tstate t \<noteq> T_UNUSED)
        (ttable (ptable s ! cp)))) (\<lambda>others.
     if others then exitThread else exit)))))"

definition ending :: "'a kern \<Rightarrow> 'a kern" where
  "ending m = (\<lambda>s e. case m s e of Dies s' e' \<Rightarrow> kthread_exit s' e' | r \<Rightarrow> r)"

section \<open>Lock discipline\<close>

lemma lk_ok_cprintState [klock]: "ConsLock \<notin> set h \<Longrightarrow> lk_bal h (cprintState t)"
  unfolding cprintState_def by (rule klock | simp)+

lemma lk_ok_cprintMutexState [klock]: "ConsLock \<notin> set h \<Longrightarrow> lk_bal h (cprintMutexState i)"
  unfolding cprintMutexState_def by (rule klock | simp)+

lemma lk_ok_mstore16 [klock]: "lk_bal h (mstore16 a v)"
  unfolding mstore16_def by (rule klock)

lemma lk_ok_userinit [klock]: "h = [] \<Longrightarrow> lk_bal h userinit"
  unfolding userinit_def by (rule klock | simp add: lock_panics_def)+

lemma lk_ok_forkret [klock]: "h = [] \<Longrightarrow> lk_ok [PtableLock] forkret (\<lambda>_. h)"
  unfolding forkret_def by (rule klock | simp)+

lemma lk_ok_dup_file [klock]: "FtableLock \<notin> set h \<Longrightarrow> lk_bal h (dup_file cp np fd)"
  unfolding dup_file_def by (rule klock | simp)+

lemma lk_ok_fork_finish [klock]: "h = [] \<Longrightarrow> lk_bal h (fork_finish cp ct np nt)"
  unfolding fork_finish_def by (rule klock | simp)+

lemma lk_ok_fork [klock]: "h = [] \<Longrightarrow> lk_bal h fork"
  unfolding fork_def by (rule klock | simp)+

lemma lk_ok_sweep_thread [klock]: "KmemLock \<notin> set h \<Longrightarrow> lk_bal h (sweep_thread p i)"
  unfolding sweep_thread_def by (rule klock | simp)+

lemma lk_ok_sweep [klock]: "KmemLock \<notin> set h \<Longrightarrow> lk_bal h (sweep p is n)"
proof (induction "is" arbitrary: n)
  case (Cons i "is")
  show ?case unfolding sweep.simps by (rule klock Cons | simp add: Cons.prems)+
qed (simp add: lk_ok_kret)

lemma lk_ok_close_fd [klock]: "h = [] \<Longrightarrow> lk_bal h (close_fd p fd)"
  unfolding close_fd_def by (rule klock | simp)+

lemma lk_ok_dealloc_held [klock]: "h = [] \<Longrightarrow> lk_bal h (dealloc_held p i)"
  unfolding dealloc_held_def by (rule klock | simp)+

lemma lk_ok_wake_threads [klock]: "lk_bal h (wake_threads q)"
  unfolding wake_threads_def by (rule klock)+

lemma lk_ok_adopt [klock]: "lk_bal h (adopt cp q)"
  unfolding adopt_def by (rule klock | simp)+

lemma lk_ok_spin_others [klock]: "lk_bal h spin_others"
  by (auto simp: lk_ok_def spin_others_def kspin_def kbind_def kseq_def kget_def split: list.split)

lemma lk_ok_exit_sweep [klock]:
  "KmemLock \<notin> set h \<Longrightarrow> lk_ok h (exit_sweep p) (\<lambda>r. case r of None \<Rightarrow> h | Some a \<Rightarrow> h)"
  unfolding exit_sweep_def by (rule klock | simp)+

lemma lk_ok_exit [klock]: "h = [] \<Longrightarrow> lk_ok h exit H"
  unfolding exit_def by (rule klock | simp add: lock_panics_def)+

lemma lk_ok_kthread_exit [klock]: "h = [] \<Longrightarrow> lk_ok h kthread_exit H"
  unfolding kthread_exit_def by (rule klock | simp add: lock_panics_def)+

lemma lk_post_ending: "lk_post H (m s e) \<Longrightarrow> lk_post H (ending m s e)"
  using lk_okD [OF lk_ok_kthread_exit [OF refl]]
  by (cases "m s e") (simp_all add: ending_def)

lemma lk_ok_ending [klock]: "lk_ok h m H \<Longrightarrow> lk_ok h (ending m) H"
  by (simp add: lk_ok_def lk_post_ending)

end
