(* ===== verification/Exec.thy ===== *)
theory Exec
  imports Process
begin

text \<open>
  \<^verbatim>\<open>exec.c\<close> and \<^verbatim>\<open>loaduvm\<close> of \<^verbatim>\<open>vm.c\<close>. The argument strings are user addresses, read when they are
  copied to the new stack.
\<close>

section \<open>The executable file (\<^verbatim>\<open>elf.h\<close>)\<close>

definition ELF_MAGIC :: uint32 where "ELF_MAGIC = 0x464C457F"
definition ELF_PROG_LOAD :: uint32 where "ELF_PROG_LOAD = 1"
definition ELFHDR_SIZE :: uint32 where "ELFHDR_SIZE = 52"
definition PROGHDR_SIZE :: uint32 where "PROGHDR_SIZE = 32"

record elfhdr =
  e_magic :: uint32
  e_entry :: uint32
  e_phoff :: uint32
  e_phnum :: ushort

definition elf_of :: "uchar list \<Rightarrow> elfhdr" where
  "elf_of x = \<lparr>e_magic = get32 x 0, e_entry = get32 x 24, e_phoff = get32 x 28, e_phnum = get16 x 44\<rparr>"

record proghdr =
  ph_type :: uint32
  ph_off :: uint32
  ph_vaddr :: uint32
  ph_filesz :: uint32
  ph_memsz :: uint32

definition ph_of :: "uchar list \<Rightarrow> proghdr" where
  "ph_of x = \<lparr>ph_type = get32 x 0, ph_off = get32 x 4, ph_vaddr = get32 x 8, ph_filesz = get32 x 16,
     ph_memsz = get32 x 20\<rparr>"

section \<open>Loading\<close>

definition loaduvm :: "addr \<Rightarrow> addr \<Rightarrow> nat \<Rightarrow> uint32 \<Rightarrow> uint32 \<Rightarrow> uint32 kern" where
  "loaduvm pd a ip offset sz =
     (if a mod PGSIZE \<noteq> 0 then kpanic ''loaduvm: addr must be page aligned''
      else kloop (Suc (2 ^ 20)) (\<lambda>i.
        if \<not> i < sz then kret (Inr 0)
        else
          kbind (walkpgdir pd (a + i) False) (\<lambda>pte.
          if pte = 0 then kpanic ''loaduvm: address should exist''
          else
            kbind (kget (\<lambda>s. PTE_ADDR (load32 (mem s) pte))) (\<lambda>pa.
            let n = (if sz - i < PGSIZE then sz - i else PGSIZE) in
            kbind (readi put_mem ip (P2V pa) (offset + i) n) (\<lambda>(r, _).
            if r \<noteq> n then kret (Inr (-1)) else kret (Inl (i + PGSIZE)))))) 0)"

text \<open>The loop over the program headers; \<open>None\<close> is the jump to \<^verbatim>\<open>bad\<close>.\<close>

definition load_segments :: "addr \<Rightarrow> nat \<Rightarrow> elfhdr \<Rightarrow> uint32 option kern" where
  "load_segments pd ip elf = kloop (Suc (unat (e_phnum elf))) (\<lambda>(i, off, sz).
     if \<not> i < unat (e_phnum elf) then kret (Inr (Some sz))
     else
       kbind (readi put_loc ip [] off PROGHDR_SIZE) (\<lambda>(r, x).
       if r \<noteq> PROGHDR_SIZE then kret (Inr None)
       else
         (let ph = ph_of x; next = (\<lambda>sz. Inl (Suc i, off + PROGHDR_SIZE, sz)) in
          if ph_type ph \<noteq> ELF_PROG_LOAD then kret (next sz)
          else if ph_memsz ph < ph_filesz ph then kret (Inr None)
          else if ph_vaddr ph + ph_memsz ph < ph_vaddr ph then kret (Inr None)
          else
            kbind (allocuvm pd sz (ph_vaddr ph + ph_memsz ph)) (\<lambda>sz.
            if sz = 0 then kret (Inr None)
            else if ph_vaddr ph mod PGSIZE \<noteq> 0 then kret (Inr None)
            else
              kbind (loaduvm pd (ph_vaddr ph) ip (ph_off ph) (ph_filesz ph)) (\<lambda>r.
              if sint r < 0 then kret (Inr None) else kret (next sz))))))
     (0, e_phoff elf, 0)"

section \<open>The new stack\<close>

definition kstrlen :: "addr \<Rightarrow> nat kern" where
  "kstrlen a = kloop (2 ^ 32) (\<lambda>n.
     kbind (kload8 (a + of_nat n)) (\<lambda>c. if c \<noteq> 0 then kret (Inl (Suc n)) else kret (Inr n))) 0"

text \<open>
  The loop that pushes the argument strings: \<open>sps\<close> are the addresses of the copies so far, the
  entries 3, 4, ... of \<^verbatim>\<open>ustack\<close>.
\<close>

primrec push_args :: "addr \<Rightarrow> addr list \<Rightarrow> uint32 \<Rightarrow> uint32 list \<Rightarrow> (uint32 \<times> uint32 list) option kern" where
  "push_args pd [] sp sps = kret (Some (sp, sps))"
| "push_args pd (a # as) sp sps =
     (if length sps \<ge> MAXARG then kret None
      else
        kbind (kstrlen a) (\<lambda>n.
        let sp = (sp - (of_nat n + 1)) AND NOT 3 in
        kbind (kload_bytes a (n + 1)) (\<lambda>bs.
        kbind (copyout pd sp bs) (\<lambda>r.
        if sint r < 0 then kret None else push_args pd as sp (sps @ [sp])))))"

definition ustack_of :: "uint32 \<Rightarrow> uint32 list \<Rightarrow> uint32 list" where
  "ustack_of sp sps = [0xffffffff, of_nat (length sps), sp - (of_nat (length sps) + 1) * 4] @ sps @ [0]"

definition words_bytes :: "uint32 list \<Rightarrow> uchar list" where
  "words_bytes ws = put32s (replicate (4 * length ws) 0) 0 ws"

text \<open>The part of the path behind the last slash, and \<^verbatim>\<open>safestrcpy\<close> of it into the 16 bytes of the name.\<close>

definition last_elem :: "path \<Rightarrow> path kern" where
  "last_elem p = kloop (2 ^ 32) (\<lambda>(last, s).
     kbind (path_char s) (\<lambda>c.
     if c = 0 then kret (Inr last)
     else if c = SLASH then kret (Inl (path_next s, path_next s))
     else kret (Inl (last, path_next s)))) (p, p)"

primrec path_name :: "nat \<Rightarrow> path \<Rightarrow> string kern" where
  "path_name 0 p = kret []"
| "path_name (Suc n) p =
     kbind (path_char p) (\<lambda>c.
     if c = 0 then kret []
     else kbind (path_name n (path_next p)) (\<lambda>cs. kret (char_of (unat c) # cs)))"

section \<open>Stopping the other threads\<close>

primrec exec_sweep_from :: "nat \<Rightarrow> nat list \<Rightarrow> nat \<Rightarrow> nat kern" where
  "exec_sweep_from p [] n = kret n"
| "exec_sweep_from p (i # is) n =
     kseq (kmod (upd_thread (p, i) rouse))
    (kbind (kget (\<lambda>s. tstate (thread_at s (p, i)))) (\<lambda>st.
     kseq (sweep_thread p i)
    (exec_sweep_from p is (if st = T_ZOMBIE \<or> st = T_UNUSED then n else Suc n))))"

definition exec_sweep :: "nat \<Rightarrow> unit option kern" where
  "exec_sweep p =
     kbind (exec_sweep_from p [0..<NTHREAD] 0) (\<lambda>n.
     if n > 1 then kseq spin_others (kret None) else kret (Some ()))"

definition stop_threads :: "nat \<Rightarrow> tptr \<Rightarrow> unit kern" where
  "stop_threads cp ct =
     kseq (lk_acquire PtableLock)
    (kbind (kget (\<lambda>s. tid (thread_at s ct))) (\<lambda>me.
     kseq (kmod (upd_proc cp (\<lambda>x. x\<lparr>ttable := map (mark_thread me) (ttable x)\<rparr>)))
    (kseq (lk_release PtableLock)
    (kwait (exec_sweep cp)))))"

section \<open>Exec\<close>

text \<open>The code at the label \<^verbatim>\<open>bad\<close>.\<close>

definition exec_cleanup :: "addr \<Rightarrow> nat option \<Rightarrow> unit kern" where
  "exec_cleanup pd ip =
     kseq (kwhen (pd \<noteq> 0) (freevm pd))
    (case ip of None \<Rightarrow> kret () | Some i \<Rightarrow> kseq (iunlockput i) end_op)"

definition exec_bad :: "addr \<Rightarrow> nat option \<Rightarrow> uint32 kern" where
  "exec_bad pd ip =
     kseq (exec_cleanup pd ip)
    (kseq (lk_release PtableLock) (kret (-1)))"

text \<open>From the second \<^verbatim>\<open>acquire\<close> on: the stack, the name and the switch to the new image.\<close>

definition exec_commit :: "path \<Rightarrow> nat \<Rightarrow> tptr \<Rightarrow> addr \<Rightarrow> uint32 \<Rightarrow> uint32 \<Rightarrow> uint32 \<Rightarrow> uint32 kern" where
  "exec_commit path cp ct pd entry sz sp =
     kbind (last_elem path) (\<lambda>last.
     kbind (path_name 15 last) (\<lambda>nm.
     kseq (kmod (upd_proc cp (\<lambda>x. x\<lparr>pname := nm\<rparr>)))
    (kbind (kget (\<lambda>s. pgdir (ptable s ! cp))) (\<lambda>old.
     kseq (kmod (upd_proc cp (\<lambda>x. x\<lparr>pgdir := pd, psz := sz\<rparr>)))
    (kbind (kget (\<lambda>s. tf (thread_at s ct))) (\<lambda>tfa.
     kseq (mstore32 (tfa + TF_EIP) entry)
    (kseq (mstore32 (tfa + TF_ESP) sp)
    (kseq (switchuvm (Some ct) (Some cp))
    (kseq (lk_release PtableLock)
    (kseq (freevm old) (kret 0)))))))))))"

definition exec_image :: "path \<Rightarrow> addr list \<Rightarrow> nat \<Rightarrow> tptr \<Rightarrow> addr \<Rightarrow> uint32 \<Rightarrow> uint32 \<Rightarrow> uint32 kern" where
  "exec_image path argv cp ct pd entry sz =
     kseq (lk_acquire PtableLock)
    (let sz = PGROUNDUP sz in
     kbind (allocuvm pd sz (sz + 2 * PGSIZE)) (\<lambda>sz.
     if sz = 0 then exec_bad pd None
     else
       kseq (clearpteu pd (sz - 2 * PGSIZE))
      (kbind (push_args pd argv sz []) (\<lambda>r.
       case r of
         None \<Rightarrow> exec_bad pd None
       | Some (sp, sps) \<Rightarrow>
           (let us = ustack_of sp sps; sp = sp - of_nat (4 * length us) in
            kbind (copyout pd sp (words_bytes us)) (\<lambda>r.
            if sint r < 0 then exec_bad pd None
            else exec_commit path cp ct pd entry sz sp))))))"

definition exec_file :: "path \<Rightarrow> addr list \<Rightarrow> nat \<Rightarrow> tptr \<Rightarrow> nat \<Rightarrow> uint32 kern" where
  "exec_file path argv cp ct ip =
     kbind (readi put_loc ip [] 0 ELFHDR_SIZE) (\<lambda>(r, x).
     if r \<noteq> ELFHDR_SIZE then exec_bad 0 (Some ip)
     else
       (let elf = elf_of x in
        if e_magic elf \<noteq> ELF_MAGIC then exec_bad 0 (Some ip)
        else
          kbind setupkvm (\<lambda>pd.
          if pd = 0 then exec_bad 0 (Some ip)
          else
            kbind (load_segments pd ip elf) (\<lambda>r.
            case r of
              None \<Rightarrow> exec_bad pd (Some ip)
            | Some sz \<Rightarrow>
                kseq (iunlockput ip)
               (kseq end_op (exec_image path argv cp ct pd (e_entry elf) sz))))))"

definition exec :: "path \<Rightarrow> addr list \<Rightarrow> uint32 kern" where
  "exec path argv =
     kbind myproc (\<lambda>cp. kbind mythread (\<lambda>ct. deref ct (\<lambda>ct.
     kbind (kget (\<lambda>s. shouldDie (thread_at s ct))) (\<lambda>d.
     if d \<noteq> 0 then kthread_exit
     else deref cp (\<lambda>cp.
       kseq (stop_threads cp ct)
      (kseq begin_op
      (kbind (namei path) (\<lambda>ip.
       case ip of
         None \<Rightarrow> kseq end_op (kseq (cprintf (''exec: fail'' @ newline) []) (kret (-1)))
       | Some ip \<Rightarrow> kseq (ilock (Some ip)) (exec_file path argv cp ct ip))))))))) "

end
