(* ===== verification/Sysproc.thy ===== *)
theory Sysproc
  imports Exec
begin

text \<open>
  The arguments of a system call (the first half of \<^verbatim>\<open>syscall.c\<close>) and the calls of \<^verbatim>\<open>sysproc.c\<close>. An
  argument routine that would return -1 gives \<open>None\<close>.
\<close>

section \<open>Arguments\<close>

definition fetchint :: "addr \<Rightarrow> uint32 option kern" where
  "fetchint a =
     kbind myproc (\<lambda>p. deref p (\<lambda>p.
     kbind (kget (\<lambda>s. psz (ptable s ! p))) (\<lambda>sz.
     if a \<ge> sz \<or> a + 4 > sz then kret None
     else kbind (kload32 a) (\<lambda>v. kret (Some v)))))"

text \<open>\<^verbatim>\<open>fetchstr\<close>: the scan ends at \<^verbatim>\<open>curproc->sz\<close>. The result is the pointer and the length.\<close>

definition fetchstr :: "addr \<Rightarrow> (addr \<times> uint32) option kern" where
  "fetchstr a =
     kbind myproc (\<lambda>p. deref p (\<lambda>p.
     kbind (kget (\<lambda>s. psz (ptable s ! p))) (\<lambda>sz.
     if a \<ge> sz then kret None
     else kloop (Suc (unat (sz - a))) (\<lambda>t.
       if \<not> t < sz then kret (Inr None)
       else kbind (kload8 t) (\<lambda>c. if c = 0 then kret (Inr (Some (a, t - a))) else kret (Inl (t + 1)))) a)))"

definition argint :: "uint32 \<Rightarrow> uint32 option kern" where
  "argint n =
     kbind mythread (\<lambda>t. deref t (\<lambda>t.
     kbind (kget (\<lambda>s. load32 (mem s) (tf (thread_at s t) + TF_ESP))) (\<lambda>esp.
     fetchint (esp + 4 + 4 * n))))"

definition argptr :: "uint32 \<Rightarrow> uint32 \<Rightarrow> addr option kern" where
  "argptr n len =
     kbind myproc (\<lambda>p.
     kbind (argint n) (\<lambda>r.
     case r of
       None \<Rightarrow> kret None
     | Some i \<Rightarrow>
         deref p (\<lambda>p.
         kbind (kget (\<lambda>s. psz (ptable s ! p))) (\<lambda>sz.
         if sint len < 0 \<or> i \<ge> sz \<or> i + len > sz then kret None else kret (Some i)))))"

definition argstr :: "uint32 \<Rightarrow> (addr \<times> uint32) option kern" where
  "argstr n = kbind (argint n) (\<lambda>r. case r of None \<Rightarrow> kret None | Some a \<Rightarrow> fetchstr a)"

text \<open>\<^verbatim>\<open>if(m < 0) return -1;\<close>\<close>

definition need :: "'a option kern \<Rightarrow> ('a \<Rightarrow> uint32 kern) \<Rightarrow> uint32 kern" where
  "need m f = kbind m (\<lambda>r. case r of None \<Rightarrow> kret (-1) | Some x \<Rightarrow> f x)"

section \<open>Processes\<close>

definition sys_fork :: "uint32 kern" where "sys_fork = fork"
definition sys_exit :: "uint32 kern" where "sys_exit = kseq (exit :: unit kern) (kret 0)"
definition sys_wait :: "uint32 kern" where "sys_wait = wait"
definition sys_kill :: "uint32 kern" where "sys_kill = need (argint 0) kill"

definition sys_getpid :: "uint32 kern" where
  "sys_getpid = kbind myproc (\<lambda>p. deref p (\<lambda>p. kget (\<lambda>s. pid (ptable s ! p))))"

definition sys_sbrk :: "uint32 kern" where
  "sys_sbrk = need (argint 0) (\<lambda>n.
     kbind myproc (\<lambda>p. deref p (\<lambda>p.
     kbind (kget (\<lambda>s. psz (ptable s ! p))) (\<lambda>a.
     kbind (growproc n) (\<lambda>r. if sint r < 0 then kret (-1) else kret a)))))"

text \<open>The test \<^verbatim>\<open>ticks - ticks0 < n\<close> compares unsigned numbers.\<close>

definition sleep_step :: "uint32 \<Rightarrow> uint32 \<Rightarrow> uint32 option kern" where
  "sleep_step ticks0 n =
     kbind (kget ticks) (\<lambda>t.
     if \<not> t - ticks0 < n then kseq (lk_release TicksLock) (kret (Some 0))
     else
       kbind myproc_killed (\<lambda>k.
       if k then kseq (lk_release TicksLock) (kret (Some (-1)))
       else kseq (sleep ChTicks TicksLock) (kret None)))"

definition sys_sleep :: "uint32 kern" where
  "sys_sleep = need (argint 0) (\<lambda>n.
     kseq (lk_acquire TicksLock)
    (kbind (kget ticks) (\<lambda>ticks0. kwait (sleep_step ticks0 n))))"

definition sys_uptime :: "uint32 kern" where
  "sys_uptime =
     kseq (lk_acquire TicksLock)
    (kbind (kget ticks) (\<lambda>xticks. kseq (lk_release TicksLock) (kret xticks)))"

section \<open>Threads and mutexes\<close>

definition sys_kthread_create :: "uint32 kern" where
  "sys_kthread_create = need (argptr 0 1) (\<lambda>start_func. need (argptr 1 1) (\<lambda>stack. kthread_create start_func stack))"

definition sys_kthread_id :: "uint32 kern" where "sys_kthread_id = kthread_id"
definition sys_kthread_exit :: "uint32 kern" where "sys_kthread_exit = kseq (kthread_exit :: unit kern) (kret 0)"
definition sys_kthread_join :: "uint32 kern" where "sys_kthread_join = need (argint 0) kthread_join"
definition sys_kthread_mutex_alloc :: "uint32 kern" where "sys_kthread_mutex_alloc = kthread_mutex_alloc"

definition sys_kthread_mutex_dealloc :: "uint32 kern" where
  "sys_kthread_mutex_dealloc = need (argint 0) kthread_mutex_dealloc"

definition sys_kthread_mutex_lock :: "uint32 kern" where
  "sys_kthread_mutex_lock = need (argint 0) kthread_mutex_lock"

definition sys_kthread_mutex_unlock :: "uint32 kern" where
  "sys_kthread_mutex_unlock = need (argint 0) kthread_mutex_unlock"

section \<open>Lock discipline\<close>

lemma lk_ok_fetchint [klock]: "lk_bal h (fetchint a)"
  unfolding fetchint_def by (rule klock | simp)+

lemma lk_ok_fetchstr [klock]: "lk_bal h (fetchstr a)"
  unfolding fetchstr_def by (rule klock | simp)+

lemma lk_ok_argint [klock]: "lk_bal h (argint n)"
  unfolding argint_def by (rule klock | simp)+

lemma lk_ok_argptr [klock]: "lk_bal h (argptr n sz)"
  unfolding argptr_def by (rule klock | simp)+

lemma lk_ok_argstr [klock]: "lk_bal h (argstr n)"
  unfolding argstr_def by (rule klock | simp)+

lemma lk_ok_need [klock]: "lk_bal h m \<Longrightarrow> (\<And>x. lk_bal h (f x)) \<Longrightarrow> lk_bal h (need m f)"
  unfolding need_def by (rule klock | assumption)+

lemma lk_ok_sleep_step [klock]:
  "h = [] \<Longrightarrow>
   lk_ok (TicksLock # h) (sleep_step t n) (\<lambda>r. case r of None \<Rightarrow> TicksLock # h | Some a \<Rightarrow> h)"
  unfolding sleep_step_def by (rule klock | simp)+

lemma lk_ok_sys_sleep [klock]: "h = [] \<Longrightarrow> lk_bal h sys_sleep"
  unfolding sys_sleep_def by (rule klock | simp)+

lemma lk_ok_sys_uptime [klock]: "h = [] \<Longrightarrow> lk_bal h sys_uptime"
  unfolding sys_uptime_def by (rule klock | simp)+

lemma lk_ok_sys_sbrk [klock]: "h = [] \<Longrightarrow> lk_bal h sys_sbrk"
  unfolding sys_sbrk_def by (rule klock | simp)+

lemma lk_ok_sysproc [klock]:
  "h = [] \<Longrightarrow> lk_bal h sys_fork" "h = [] \<Longrightarrow> lk_bal h sys_exit" "h = [] \<Longrightarrow> lk_bal h sys_wait"
  "h = [] \<Longrightarrow> lk_bal h sys_kill" "lk_bal h sys_getpid"
  unfolding sys_fork_def sys_exit_def sys_wait_def sys_kill_def sys_getpid_def
  by ((rule klock | simp)+)

lemma lk_ok_sys_kthread [klock]:
  "h = [] \<Longrightarrow> lk_bal h sys_kthread_create" "lk_bal h sys_kthread_id" "h = [] \<Longrightarrow> lk_bal h sys_kthread_exit"
  "h = [] \<Longrightarrow> lk_bal h sys_kthread_join" "h = [] \<Longrightarrow> lk_bal h sys_kthread_mutex_alloc"
  "h = [] \<Longrightarrow> lk_bal h sys_kthread_mutex_dealloc" "h = [] \<Longrightarrow> lk_bal h sys_kthread_mutex_lock"
  "h = [] \<Longrightarrow> lk_bal h sys_kthread_mutex_unlock"
  unfolding sys_kthread_create_def sys_kthread_id_def sys_kthread_exit_def sys_kthread_join_def
    sys_kthread_mutex_alloc_def sys_kthread_mutex_dealloc_def sys_kthread_mutex_lock_def sys_kthread_mutex_unlock_def
  by ((rule klock | simp)+)

end
