(* ===== verification/Sysfile.thy ===== *)
theory Sysfile
  imports Sysproc
begin

text \<open>\<^verbatim>\<open>sysfile.c\<close>: the system calls on files, directories and pipes.\<close>

section \<open>File descriptors\<close>

text \<open>\<^verbatim>\<open>argfd\<close>: the descriptor and the file.\<close>

definition argfd :: "uint32 \<Rightarrow> (nat \<times> nat) option kern" where
  "argfd n =
     kbind (argint n) (\<lambda>r.
     case r of
       None \<Rightarrow> kret None
     | Some fd \<Rightarrow>
         if sint fd < 0 \<or> sint fd \<ge> int NOFILE then kret None
         else
           kbind myproc (\<lambda>p. deref p (\<lambda>p.
           kbind (kget (\<lambda>s. ofile (ptable s ! p) ! unat fd)) (\<lambda>f.
           case f of None \<Rightarrow> kret None | Some f \<Rightarrow> kret (Some (unat fd, f))))))"

definition set_fd :: "nat \<Rightarrow> nat \<Rightarrow> nat option \<Rightarrow> unit kern" where
  "set_fd p fd f = kmod (upd_proc p (\<lambda>x. x\<lparr>ofile := (ofile x)[fd := f]\<rparr>))"

definition fdalloc :: "nat \<Rightarrow> nat option kern" where
  "fdalloc f =
     kbind myproc (\<lambda>p. deref p (\<lambda>p.
     kbind (kget (\<lambda>s. find_idx (\<lambda>x. x = None) (ofile (ptable s ! p)))) (\<lambda>r.
     case r of
       None \<Rightarrow> kret None
     | Some fd \<Rightarrow> kseq (set_fd p fd (Some f)) (kret (Some fd)))))"

definition sys_dup :: "uint32 kern" where
  "sys_dup = need (argfd 0) (\<lambda>(_, f).
     need (fdalloc f) (\<lambda>fd.
     kseq (filedup f) (kret (of_nat fd))))"

definition sys_read :: "uint32 kern" where
  "sys_read = need (argfd 0) (\<lambda>(_, f). need (argint 2) (\<lambda>n. need (argptr 1 n) (\<lambda>p. fileread f p n)))"

definition sys_write :: "uint32 kern" where
  "sys_write = need (argfd 0) (\<lambda>(_, f). need (argint 2) (\<lambda>n. need (argptr 1 n) (\<lambda>p. filewrite f p n)))"

definition sys_close :: "uint32 kern" where
  "sys_close = need (argfd 0) (\<lambda>(fd, f).
     kbind myproc (\<lambda>p. deref p (\<lambda>p.
     kseq (set_fd p fd None)
    (kseq (fileclose f) (kret 0)))))"

definition STAT_SIZE :: uint32 where "STAT_SIZE = 20"

definition sys_fstat :: "uint32 kern" where
  "sys_fstat = need (argfd 0) (\<lambda>(_, f). need (argptr 1 STAT_SIZE) (\<lambda>st. filestat f st))"

section \<open>Links\<close>

text \<open>\<^verbatim>\<open>end_op(); return -1;\<close>\<close>

definition op_fail :: "uint32 kern" where
  "op_fail = kseq end_op (kret (-1))"

definition add_nlink :: "nat \<Rightarrow> ushort \<Rightarrow> unit kern" where
  "add_nlink i d = kseq (kmod (upd_inode i (\<lambda>x. x\<lparr>inlink := inlink x + d\<rparr>))) (iupdate i)"

text \<open>The code of \<^verbatim>\<open>sys_link\<close> at the label \<^verbatim>\<open>bad\<close>.\<close>

definition link_bad :: "nat \<Rightarrow> uint32 kern" where
  "link_bad ip =
     kseq (ilock (Some ip))
    (kseq (add_nlink ip (-1))
    (kseq (iunlockput ip)
    op_fail))"

definition sys_link :: "uint32 kern" where
  "sys_link = need (argstr 0) (\<lambda>(old, _). need (argstr 1) (\<lambda>(new, _).
     kseq begin_op
    (kbind (namei (PMem old)) (\<lambda>r.
     case r of
       None \<Rightarrow> op_fail
     | Some ip \<Rightarrow>
         kseq (ilock (Some ip))
        (kbind (kget (\<lambda>s. itype (icache s ! ip))) (\<lambda>ty.
         if ty = T_DIR then kseq (iunlockput ip) op_fail
         else
           kseq (add_nlink ip 1)
          (kseq (iunlock (Some ip))
          (kbind (nameiparent (PMem new)) (\<lambda>r.
           case r of
             None \<Rightarrow> link_bad ip
           | Some (dp, name) \<Rightarrow>
               kseq (ilock (Some dp))
              (kbind (kget (\<lambda>s. idev (icache s ! dp) \<noteq> idev (icache s ! ip))) (\<lambda>other.
               kbind (if other then kret True
                      else kbind (kget (\<lambda>s. inum (icache s ! ip))) (\<lambda>ino.
                        kbind (dirlink dp name ino) (\<lambda>r. kret (sint r < 0)))) (\<lambda>bad.
               if bad then kseq (iunlockput dp) (link_bad ip)
               else
                 kseq (iunlockput dp)
                (kseq (iput ip)
                (kseq end_op (kret 0)))))))))))))))"

text \<open>The offset goes up in steps of 16 from 32 on.\<close>

definition isdirempty :: "nat \<Rightarrow> bool kern" where
  "isdirempty d = kloop (2 ^ 28) (\<lambda>off.
     kbind (kget (\<lambda>s. isize (icache s ! d))) (\<lambda>sz.
     if \<not> off < sz then kret (Inr True)
     else
       kbind (read_dirent ''isdirempty: readi'' d off) (\<lambda>de.
       if de_inum de \<noteq> 0 then kret (Inr False) else kret (Inl (off + DIRENT_SIZE)))))
   (2 * DIRENT_SIZE)"

definition DOT :: "uchar list" where "DOT = [46]"
definition DOTDOT :: "uchar list" where "DOTDOT = [46, 46]"

definition unlink_bad :: "nat \<Rightarrow> uint32 kern" where
  "unlink_bad dp = kseq (iunlockput dp) op_fail"

text \<open>\<^verbatim>\<open>sys_unlink\<close> once the entry is found and its inode locked.\<close>

definition unlink_entry :: "nat \<Rightarrow> nat \<Rightarrow> uint32 \<Rightarrow> uint32 kern" where
  "unlink_entry dp ip off =
     kbind (kget (\<lambda>s. icache s ! ip)) (\<lambda>x.
     if sint (inlink x) < 1 then kpanic ''unlink: nlink < 1''
     else
       kbind (if itype x = T_DIR then isdirempty ip else kret True) (\<lambda>ok.
       if \<not> ok then kseq (iunlockput ip) (unlink_bad dp)
       else
         kbind (writei get_loc dp (replicate 16 0) off DIRENT_SIZE) (\<lambda>r.
         if r \<noteq> DIRENT_SIZE then kpanic ''unlink: writei''
         else
           kseq (kwhen (itype x = T_DIR) (add_nlink dp (-1)))
          (kseq (iunlockput dp)
          (kseq (add_nlink ip (-1))
          (kseq (iunlockput ip)
          (kseq end_op (kret 0))))))))"

definition sys_unlink :: "uint32 kern" where
  "sys_unlink = need (argstr 0) (\<lambda>(path, _).
     kseq begin_op
    (kbind (nameiparent (PMem path)) (\<lambda>r.
     case r of
       None \<Rightarrow> op_fail
     | Some (dp, name) \<Rightarrow>
         kseq (ilock (Some dp))
        (if namecmp name DOT = 0 \<or> namecmp name DOTDOT = 0 then unlink_bad dp
         else
           kbind (dirlookup dp name) (\<lambda>r.
           case r of
             None \<Rightarrow> unlink_bad dp
           | Some (ip, off) \<Rightarrow> kseq (ilock (Some ip)) (unlink_entry dp ip off))))))"

section \<open>Creating and opening\<close>

text \<open>\<^verbatim>\<open>create\<close> for a name that does not exist; \<^verbatim>\<open>ialloc\<close> never returns null.\<close>

definition create_new :: "nat \<Rightarrow> uchar list \<Rightarrow> ushort \<Rightarrow> ushort \<Rightarrow> ushort \<Rightarrow> nat kern" where
  "create_new dp name ty major minor =
     kbind (kget (\<lambda>s. idev (icache s ! dp))) (\<lambda>dev.
     kbind (ialloc dev ty) (\<lambda>ip.
     kseq (ilock (Some ip))
    (kseq (kmod (upd_inode ip (\<lambda>x. x\<lparr>imajor := major, iminor := minor, inlink := 1\<rparr>)))
    (kseq (iupdate ip)
    (kbind (kget (\<lambda>s. inum (icache s ! ip))) (\<lambda>ino.
     kbind (kget (\<lambda>s. inum (icache s ! dp))) (\<lambda>dino.
     kseq (kwhen (ty = T_DIR)
       (kseq (add_nlink dp 1)
       (kbind (dirlink ip DOT ino) (\<lambda>r.
        if sint r < 0 then kpanic ''create dots''
        else kbind (dirlink ip DOTDOT dino) (\<lambda>r. kwhen (sint r < 0) (kpanic ''create dots''))))))
    (kbind (dirlink dp name ino) (\<lambda>r.
     if sint r < 0 then kpanic ''create: dirlink''
     else kseq (iunlockput dp) (kret ip))))))))))"

definition create :: "path \<Rightarrow> ushort \<Rightarrow> ushort \<Rightarrow> ushort \<Rightarrow> nat option kern" where
  "create path ty major minor =
     kbind (nameiparent path) (\<lambda>r.
     case r of
       None \<Rightarrow> kret None
     | Some (dp, name) \<Rightarrow>
         kseq (ilock (Some dp))
        (kbind (dirlookup dp name) (\<lambda>r.
         case r of
           Some (ip, _) \<Rightarrow>
             kseq (iunlockput dp)
            (kseq (ilock (Some ip))
            (kbind (kget (\<lambda>s. itype (icache s ! ip))) (\<lambda>ity.
             if ty = T_FILE \<and> ity = T_FILE then kret (Some ip)
             else kseq (iunlockput ip) (kret None))))
         | None \<Rightarrow> kbind (create_new dp name ty major minor) (\<lambda>ip. kret (Some ip)))))"

definition O_RDONLY :: uint32 where "O_RDONLY = 0"
definition O_WRONLY :: uint32 where "O_WRONLY = 1"
definition O_RDWR :: uint32 where "O_RDWR = 2"
definition O_CREATE :: uint32 where "O_CREATE = 0x200"

definition open_file :: "uint32 \<Rightarrow> nat \<Rightarrow> filest \<Rightarrow> filest" where
  "open_file omode ip f = f\<lparr>ftyp := FD_INODE, fip := Some ip, foff := 0,
     freadable := (if omode AND O_WRONLY = 0 then 1 else 0),
     fwritable := (if omode AND O_WRONLY \<noteq> 0 \<or> omode AND O_RDWR \<noteq> 0 then 1 else 0)\<rparr>"

text \<open>The inode to open, locked, or \<open>None\<close> when the call fails.\<close>

definition open_inode :: "addr \<Rightarrow> uint32 \<Rightarrow> nat option kern" where
  "open_inode path omode =
     (if omode AND O_CREATE \<noteq> 0 then create (PMem path) T_FILE 0 0
      else
        kbind (namei (PMem path)) (\<lambda>r.
        case r of
          None \<Rightarrow> kret None
        | Some ip \<Rightarrow>
            kseq (ilock (Some ip))
           (kbind (kget (\<lambda>s. itype (icache s ! ip))) (\<lambda>ty.
            if ty = T_DIR \<and> omode \<noteq> O_RDONLY then kseq (iunlockput ip) (kret None)
            else kret (Some ip)))))"

definition sys_open :: "uint32 kern" where
  "sys_open = need (argstr 0) (\<lambda>(path, _). need (argint 1) (\<lambda>omode.
     kseq begin_op
    (kbind (open_inode path omode) (\<lambda>r.
     case r of
       None \<Rightarrow> op_fail
     | Some ip \<Rightarrow>
         kbind filealloc (\<lambda>f.
         case f of
           None \<Rightarrow> kseq (iunlockput ip) op_fail
         | Some f \<Rightarrow>
             kbind (fdalloc f) (\<lambda>fd.
             case fd of
               None \<Rightarrow> kseq (fileclose f) (kseq (iunlockput ip) op_fail)
             | Some fd \<Rightarrow>
                 kseq (iunlock (Some ip))
                (kseq end_op
                (kseq (kmod (upd_file f (open_file omode ip)))
                (kret (of_nat fd))))))))))"

text \<open>The calls that create something and close it at once.\<close>

definition made :: "nat option kern \<Rightarrow> uint32 kern" where
  "made m =
     kbind m (\<lambda>r.
     case r of
       None \<Rightarrow> op_fail
     | Some ip \<Rightarrow> kseq (iunlockput ip) (kseq end_op (kret 0)))"

definition sys_mkdir :: "uint32 kern" where
  "sys_mkdir =
     kseq begin_op
    (made (kbind (argstr 0) (\<lambda>r.
       case r of None \<Rightarrow> kret None | Some (path, _) \<Rightarrow> create (PMem path) T_DIR 0 0)))"

definition sys_mknod :: "uint32 kern" where
  "sys_mknod =
     kseq begin_op
    (made (kbind (argstr 0) (\<lambda>r.
       case r of None \<Rightarrow> kret None | Some (path, _) \<Rightarrow>
       kbind (argint 1) (\<lambda>r.
       case r of None \<Rightarrow> kret None | Some major \<Rightarrow>
       kbind (argint 2) (\<lambda>r.
       case r of None \<Rightarrow> kret None | Some minor \<Rightarrow> create (PMem path) T_DEV (ucast major) (ucast minor))))))"

definition sys_chdir :: "uint32 kern" where
  "sys_chdir =
     kbind myproc (\<lambda>p.
     kseq begin_op
    (kbind (kbind (argstr 0) (\<lambda>r. case r of None \<Rightarrow> kret None | Some (path, _) \<Rightarrow> namei (PMem path))) (\<lambda>r.
     case r of
       None \<Rightarrow> op_fail
     | Some ip \<Rightarrow>
         kseq (ilock (Some ip))
        (kbind (kget (\<lambda>s. itype (icache s ! ip))) (\<lambda>ty.
         if ty \<noteq> T_DIR then kseq (iunlockput ip) op_fail
         else
           kseq (iunlock (Some ip))
          (deref p (\<lambda>p.
           kbind (kget (\<lambda>s. cwd (ptable s ! p))) (\<lambda>d.
           kseq (deref d iput)
          (kseq end_op
          (kseq (kmod (upd_proc p (\<lambda>x. x\<lparr>cwd := Some ip\<rparr>))) (kret 0)))))))))))"

section \<open>Exec and pipe\<close>

text \<open>The loop of \<^verbatim>\<open>sys_exec\<close> over the user's \<^verbatim>\<open>argv\<close>: the pointers up to the null one.\<close>

definition fetch_argv :: "addr \<Rightarrow> addr list option kern" where
  "fetch_argv uargv = kloop (Suc MAXARG) (\<lambda>(i, argv).
     if i \<ge> MAXARG then kret (Inr None)
     else
       kbind (fetchint (uargv + 4 * of_nat i)) (\<lambda>r.
       case r of
         None \<Rightarrow> kret (Inr None)
       | Some uarg \<Rightarrow>
           if uarg = 0 then kret (Inr (Some argv))
           else
             kbind (fetchstr uarg) (\<lambda>r.
             case r of
               None \<Rightarrow> kret (Inr None)
             | Some (a, _) \<Rightarrow> kret (Inl (Suc i, argv @ [a]))))) (0, [])"

definition sys_exec :: "uint32 kern" where
  "sys_exec = need (argstr 0) (\<lambda>(path, _). need (argint 1) (\<lambda>uargv.
     need (fetch_argv uargv) (\<lambda>argv. exec (PMem path) argv)))"

definition sys_pipe :: "uint32 kern" where
  "sys_pipe = need (argptr 0 8) (\<lambda>fd. need pipealloc (\<lambda>(rf, wf).
     kbind (fdalloc rf) (\<lambda>fd0.
     kbind (case fd0 of None \<Rightarrow> kret None | Some _ \<Rightarrow> fdalloc wf) (\<lambda>fd1.
     case (fd0, fd1) of
       (Some a, Some b) \<Rightarrow>
         kseq (kstore32 fd (of_nat a))
        (kseq (kstore32 (fd + 4) (of_nat b)) (kret 0))
     | _ \<Rightarrow>
         kseq (case fd0 of None \<Rightarrow> kret ()
               | Some a \<Rightarrow> kbind myproc (\<lambda>p. deref p (\<lambda>p. set_fd p a None)))
        (kseq (fileclose rf)
        (kseq (fileclose wf) (kret (-1))))))))"

section \<open>Lock discipline\<close>

lemma lk_ok_argfd [klock]: "lk_bal h (argfd n)"
  unfolding argfd_def by (rule klock | simp add: lock_panics_def)+

lemma lk_ok_set_fd [klock]: "lk_bal h (set_fd p fd f)"
  unfolding set_fd_def by (rule klock | simp add: lock_panics_def)+

lemma lk_ok_fdalloc [klock]: "lk_bal h (fdalloc f)"
  unfolding fdalloc_def by (rule klock | simp add: lock_panics_def)+

lemma lk_ok_sys_dup [klock]: "h = [] \<Longrightarrow> lk_bal h sys_dup"
  unfolding sys_dup_def by (rule klock | simp add: lock_panics_def)+

lemma lk_ok_sys_read [klock]: "h = [] \<Longrightarrow> lk_bal h sys_read"
  unfolding sys_read_def by (rule klock | simp add: lock_panics_def)+

lemma lk_ok_sys_write [klock]: "h = [] \<Longrightarrow> lk_bal h sys_write"
  unfolding sys_write_def by (rule klock | simp add: lock_panics_def)+

lemma lk_ok_sys_close [klock]: "h = [] \<Longrightarrow> lk_bal h sys_close"
  unfolding sys_close_def by (rule klock | simp add: lock_panics_def)+

lemma lk_ok_sys_fstat [klock]: "h = [] \<Longrightarrow> lk_bal h sys_fstat"
  unfolding sys_fstat_def by (rule klock | simp add: lock_panics_def)+

lemma lk_ok_op_fail [klock]: "h = [] \<Longrightarrow> lk_bal h op_fail"
  unfolding op_fail_def by (rule klock | simp add: lock_panics_def)+

lemma lk_ok_add_nlink [klock]: "h = [] \<Longrightarrow> lk_bal h (add_nlink i d)"
  unfolding add_nlink_def by (rule klock | simp add: lock_panics_def)+

lemma lk_ok_link_bad [klock]: "h = [] \<Longrightarrow> lk_bal h (link_bad ip)"
  unfolding link_bad_def by (rule klock | simp add: lock_panics_def)+

lemma lk_ok_sys_link [klock]: "h = [] \<Longrightarrow> lk_bal h sys_link"
  unfolding sys_link_def by (rule klock | simp add: lock_panics_def)+

lemma lk_ok_isdirempty [klock]: "h = [] \<Longrightarrow> lk_bal h (isdirempty d)"
  unfolding isdirempty_def by (rule klock | simp add: lock_panics_def)+

lemma lk_ok_unlink_bad [klock]: "h = [] \<Longrightarrow> lk_bal h (unlink_bad dp)"
  unfolding unlink_bad_def by (rule klock | simp add: lock_panics_def)+

lemma lk_ok_unlink_entry [klock]: "h = [] \<Longrightarrow> lk_bal h (unlink_entry dp ip off)"
  unfolding unlink_entry_def by (rule klock | simp add: lock_panics_def)+

lemma lk_ok_sys_unlink [klock]: "h = [] \<Longrightarrow> lk_bal h sys_unlink"
  unfolding sys_unlink_def by (rule klock | simp add: lock_panics_def)+

lemma lk_ok_create_new [klock]: "h = [] \<Longrightarrow> lk_bal h (create_new dp name ty major minor)"
  unfolding create_new_def by (rule klock | simp add: lock_panics_def)+

lemma lk_ok_create [klock]: "h = [] \<Longrightarrow> lk_bal h (create path ty major minor)"
  unfolding create_def by (rule klock | simp add: lock_panics_def)+

lemma lk_ok_open_inode [klock]: "h = [] \<Longrightarrow> lk_bal h (open_inode path omode)"
  unfolding open_inode_def by (rule klock | simp add: lock_panics_def)+

lemma lk_ok_sys_open [klock]: "h = [] \<Longrightarrow> lk_bal h sys_open"
  unfolding sys_open_def by (rule klock | simp add: lock_panics_def)+

lemma lk_ok_made [klock]: "h = [] \<Longrightarrow> lk_bal [] m \<Longrightarrow> lk_bal h (made m)"
  unfolding made_def by (rule klock | simp)+

lemma lk_ok_sys_mkdir [klock]: "h = [] \<Longrightarrow> lk_bal h sys_mkdir"
  unfolding sys_mkdir_def by (rule klock | simp add: lock_panics_def)+

lemma lk_ok_sys_mknod [klock]: "h = [] \<Longrightarrow> lk_bal h sys_mknod"
  unfolding sys_mknod_def by (rule klock | simp add: lock_panics_def)+

lemma lk_ok_sys_chdir [klock]: "h = [] \<Longrightarrow> lk_bal h sys_chdir"
  unfolding sys_chdir_def by (rule klock | simp add: lock_panics_def)+

lemma lk_ok_fetch_argv [klock]: "lk_bal h (fetch_argv u)"
  unfolding fetch_argv_def by (rule klock | simp add: lock_panics_def)+

lemma lk_ok_sys_pipe [klock]: "h = [] \<Longrightarrow> lk_bal h sys_pipe"
  unfolding sys_pipe_def by (rule klock | simp add: lock_panics_def)+

end
