(* ===== verification/Syscall.thy ===== *)
theory Syscall
  imports Sysfile
begin

text \<open>
  The dispatch of system calls (the second half of \<^verbatim>\<open>syscall.c\<close>) and \<^verbatim>\<open>trap.c\<close>: everything through
  which a user process or a device enters the kernel.
\<close>

section \<open>System calls\<close>

text \<open>The table \<^verbatim>\<open>syscalls\<close>, with the numbers of \<^verbatim>\<open>syscall.h\<close>.\<close>

definition syscalls :: "(nat \<times> uint32 kern) list" where
  "syscalls =
     [(1, sys_fork), (2, sys_exit), (3, sys_wait), (4, sys_pipe), (5, sys_read), (6, sys_kill),
      (7, sys_exec), (8, sys_fstat), (9, sys_chdir), (10, sys_dup), (11, sys_getpid),
      (12, sys_sbrk), (13, sys_sleep), (14, sys_uptime), (15, sys_open), (16, sys_write),
      (17, sys_mknod), (18, sys_unlink), (19, sys_link), (20, sys_mkdir), (21, sys_close),
      (22, sys_kthread_create), (23, sys_kthread_id), (24, sys_kthread_exit),
      (25, sys_kthread_join), (26, sys_kthread_mutex_alloc), (27, sys_kthread_mutex_dealloc),
      (28, sys_kthread_mutex_lock), (29, sys_kthread_mutex_unlock)]"

definition SYS_exec :: nat where "SYS_exec = 7"

text \<open>
  \<^verbatim>\<open>num > 0 && num < NELEM(syscalls) && syscalls[num]\<close>: the table has an entry for every number from 1
  to 29.
\<close>

definition syscall_of :: "uint32 \<Rightarrow> uint32 kern option" where
  "syscall_of num = (if 0 < sint num then map_of syscalls (unat num) else None)"

definition syscall :: "unit kern" where
  "syscall =
     kbind mythread (\<lambda>t. deref t (\<lambda>t.
     kbind (kget (\<lambda>s. load32 (mem s) (tf (thread_at s t) + TF_EAX))) (\<lambda>num.
     kbind (case syscall_of num of
        Some f \<Rightarrow> f
      | None \<Rightarrow>
          kbind (kget (\<lambda>s. thread_at s t)) (\<lambda>th.
          kseq (cprintf (''%d %s: unknown sys call %d'' @ newline) [AInt (tid th), AStr (Some (tname th)), AInt num])
         (kret (-1)))) (\<lambda>r.
     kbind (kget (\<lambda>s. tf (thread_at s t))) (\<lambda>tfa.
     mstore32 (tfa + TF_EAX) r)))))"

section \<open>Traps\<close>

definition T_SYSCALL :: uint32 where "T_SYSCALL = 64"
definition T_IRQ0 :: uint32 where "T_IRQ0 = 32"
definition IRQ_TIMER :: uint32 where "IRQ_TIMER = 0"
definition IRQ_KBD :: uint32 where "IRQ_KBD = 1"
definition IRQ_COM1 :: uint32 where "IRQ_COM1 = 4"
definition IRQ_IDE :: uint32 where "IRQ_IDE = 14"
definition IRQ_SPURIOUS :: uint32 where "IRQ_SPURIOUS = 31"
definition DPL_USER :: uint32 where "DPL_USER = 3"
definition TF_ERR :: uint32 where "TF_ERR = 52"

text \<open>What the hardware supplies: the number of the processor, \<^verbatim>\<open>%cr2\<close>, and the devices' bytes.\<close>

record hardware =
  hw_cpu :: uint32
  hw_cr2 :: uint32
  hw_kbd :: "uchar list"
  hw_uart :: "uchar list"

text \<open>\<^verbatim>\<open>ideintr\<close> of \<^verbatim>\<open>memide.c\<close>.\<close>

definition ideintr :: "unit kern" where "ideintr = kret ()"

definition timer_tick :: "uint32 \<Rightarrow> unit kern" where
  "timer_tick cpu = kwhen (cpu = 0)
     (kseq (lk_acquire TicksLock)
     (kseq (kmod (\<lambda>s. s\<lparr>ticks := ticks s + 1\<rparr>))
     (kseq (wakeup ChTicks)
     (lk_release TicksLock))))"

text \<open>\<^verbatim>\<open>exit()\<close> if the process was killed, \<^verbatim>\<open>kthread_exit()\<close> if the thread must die.\<close>

definition leave_if_killed :: "unit kern" where
  "leave_if_killed = kbind myproc_killed (\<lambda>k. kwhen k exit)"

definition leave_if_doomed :: "unit kern" where
  "leave_if_doomed =
     kbind mythread (\<lambda>t. deref t (\<lambda>t.
     kbind (kget (\<lambda>s. shouldDie (thread_at s t))) (\<lambda>d. kwhen (d \<noteq> 0) kthread_exit)))"

definition trap_syscall :: "addr \<Rightarrow> unit kern" where
  "trap_syscall tfa =
     kseq leave_if_killed
    (kseq leave_if_doomed
    (kbind mythread (\<lambda>t. deref t (\<lambda>t.
     kseq (kmod (upd_thread t (\<lambda>x. x\<lparr>tf := tfa\<rparr>)))
    (kseq syscall
    (kseq leave_if_killed
    leave_if_doomed))))))"

text \<open>The same tests in the form they have after an interrupt: only in a process, only from user mode.\<close>

definition leave_from_user :: "bool \<Rightarrow> unit kern" where
  "leave_from_user user =
     kbind myproc (\<lambda>p.
     kseq (case p of None \<Rightarrow> kret ()
           | Some p \<Rightarrow> kbind (kget (\<lambda>s. killed (ptable s ! p))) (\<lambda>k. kwhen (k \<noteq> 0 \<and> user) exit))
    (kbind mythread (\<lambda>t.
     case t of None \<Rightarrow> kret ()
     | Some t \<Rightarrow> kbind (kget (\<lambda>s. shouldDie (thread_at s t))) (\<lambda>d. kwhen (d \<noteq> 0 \<and> user) kthread_exit))))"

definition trap_fault :: "hardware \<Rightarrow> uint32 \<Rightarrow> uint32 \<Rightarrow> uint32 \<Rightarrow> bool \<Rightarrow> unit kern" where
  "trap_fault hw no err eip kernelmode =
     kbind myproc (\<lambda>p.
     if p = None \<or> kernelmode then
       kseq (cprintf (''unexpected trap %d from cpu %d eip %x (cr2=0x%x)'' @ newline)
              [AInt no, AInt (hw_cpu hw), AInt eip, AInt (hw_cr2 hw)])
      (kpanic ''trap'')
     else
       deref p (\<lambda>p.
       kbind (kget (\<lambda>s. ptable s ! p)) (\<lambda>pr.
       kseq (cprintf (''pid %d %s: trap %d err %d on cpu %d eip 0x%x addr 0x%x--kill proc'' @ newline)
              [AInt (pid pr), AStr (Some (pname pr)), AInt no, AInt err, AInt (hw_cpu hw), AInt eip, AInt (hw_cr2 hw)])
      (kmod (upd_proc p (\<lambda>x. x\<lparr>killed := 1\<rparr>))))))"

definition trap_interrupt :: "hardware \<Rightarrow> addr \<Rightarrow> uint32 \<Rightarrow> unit kern" where
  "trap_interrupt hw tfa no =
     kbind (kget (\<lambda>s. load16 (mem s) (tfa + TF_CS))) (\<lambda>cs.
     kbind (kget (\<lambda>s. load32 (mem s) (tfa + TF_EIP))) (\<lambda>eip.
     kbind (kget (\<lambda>s. load32 (mem s) (tfa + TF_ERR))) (\<lambda>err.
     let user = (ucast cs AND 3 = DPL_USER) in
     kseq (if no = T_IRQ0 + IRQ_TIMER then timer_tick (hw_cpu hw)
           else if no = T_IRQ0 + IRQ_IDE then ideintr
           else if no = T_IRQ0 + IRQ_IDE + 1 then kret ()
           else if no = T_IRQ0 + IRQ_KBD then kbdintr (hw_kbd hw)
           else if no = T_IRQ0 + IRQ_COM1 then uartintr (hw_uart hw)
           else if no = T_IRQ0 + 7 \<or> no = T_IRQ0 + IRQ_SPURIOUS then
             cprintf (''cpu%d: spurious interrupt at %x:%x'' @ newline) [AInt (hw_cpu hw), AInt (ucast cs), AInt eip]
           else trap_fault hw no err eip (cs AND 3 = 0))
    (kseq (leave_from_user user)
    (kbind mythread (\<lambda>t.
     kseq (case t of None \<Rightarrow> kret ()
           | Some t \<Rightarrow> kbind (kget (\<lambda>s. tstate (thread_at s t))) (\<lambda>st.
               kwhen (st = T_RUNNING \<and> no = T_IRQ0 + IRQ_TIMER) yield))
    (leave_from_user user)))))))"

definition trap :: "hardware \<Rightarrow> addr \<Rightarrow> unit kern" where
  "trap hw tfa = ending
     (kbind (kget (\<lambda>s. load32 (mem s) (tfa + TF_TRAPNO))) (\<lambda>no.
      if no = T_SYSCALL then trap_syscall tfa else trap_interrupt hw tfa no))"

section \<open>Lock discipline\<close>

text \<open>Every entry of the table but \<^verbatim>\<open>sys_exec\<close> keeps the discipline.\<close>

lemma lk_ok_syscalls:
  assumes "(n, f) \<in> set syscalls" "n \<noteq> SYS_exec"
  shows "lk_bal [] f"
  using assms unfolding syscalls_def SYS_exec_def by (auto intro: klock)

lemma lk_ok_timer_tick [klock]: "h = [] \<Longrightarrow> lk_bal h (timer_tick c)"
  unfolding timer_tick_def by (rule klock | simp)+

lemma lk_ok_leave_if_killed [klock]: "h = [] \<Longrightarrow> lk_bal h leave_if_killed"
  unfolding leave_if_killed_def by (rule klock | simp)+

lemma lk_ok_leave_if_doomed [klock]: "h = [] \<Longrightarrow> lk_bal h leave_if_doomed"
  unfolding leave_if_doomed_def by (rule klock | simp)+

lemma lk_ok_leave_from_user [klock]: "h = [] \<Longrightarrow> lk_bal h (leave_from_user u)"
  unfolding leave_from_user_def by (rule klock | simp)+

lemma lk_ok_trap_fault [klock]: "h = [] \<Longrightarrow> lk_bal h (trap_fault hw no err eip k)"
  unfolding trap_fault_def by (rule klock | simp)+

lemma lk_ok_ideintr [klock]: "lk_bal h ideintr"
  unfolding ideintr_def by (rule klock)

lemma lk_ok_trap_interrupt [klock]: "h = [] \<Longrightarrow> lk_bal h (trap_interrupt hw tfa no)"
  unfolding trap_interrupt_def by (rule klock | simp)+

text \<open>A routine that keeps the discipline whatever it is said to hold at its end does not return.\<close>

lemma no_return:
  assumes "\<And>H. lk_ok h m H" "held s = h"
  shows "m s e \<noteq> Ok r s' e'"
proof
  assume "m s e = Ok r s' e'"
  then have "held s' = []" "held s' = [PtableLock]"
    using lk_okD [OF assms(1), of s "\<lambda>_. []" e] lk_okD [OF assms(1), of s "\<lambda>_. [PtableLock]" e] assms(2)
    by simp_all
  then show False by simp
qed

lemma leave_if_killed_same:
  assumes "held s = []" "leave_if_killed s e = Ok r s' e'"
  shows "s' = s"
proof -
  have "(exit :: unit kern) t d \<noteq> Ok r s' e'" if "held t = []" for t d
    by (rule no_return [OF lk_ok_exit that]) simp
  then show ?thesis using assms
    by (auto simp: leave_if_killed_def myproc_killed_def myproc_def keq_Ok deref_def split: option.splits if_splits)
qed

lemma leave_if_doomed_same:
  assumes "held s = []" "leave_if_doomed s e = Ok r s' e'"
  shows "s' = s"
proof -
  have "(kthread_exit :: unit kern) t d \<noteq> Ok r s' e'" if "held t = []" for t d
    by (rule no_return [OF lk_ok_kthread_exit that]) simp
  then show ?thesis using assms
    by (auto simp: leave_if_doomed_def mythread_def keq_Ok deref_def split: option.splits if_splits)
qed

text \<open>A system call whose number is not that of \<^verbatim>\<open>exec\<close>.\<close>

lemma lk_post_syscall:
  assumes "held s = []" "\<And>t. curthread s = Some t \<Longrightarrow> load32 (mem s) (tf (thread_at s t) + TF_EAX) \<noteq> of_nat SYS_exec"
  shows "lk_post (\<lambda>_. []) (syscall s e)"
proof (cases "curthread s")
  case None
  then show ?thesis by (simp add: syscall_def mythread_def)
next
  case (Some t)
  let ?num = "load32 (mem s) (tf (thread_at s t) + TF_EAX)"
  let ?f = "case syscall_of ?num of Some f \<Rightarrow> f
      | None \<Rightarrow> kbind (kget (\<lambda>s. thread_at s t)) (\<lambda>th.
          kseq (cprintf (''%d %s: unknown sys call %d'' @ newline) [AInt (tid th), AStr (Some (tname th)), AInt ?num])
         (kret (-1)))"
  have "lk_bal [] f" if "syscall_of ?num = Some f" for f
  proof -
    have "(unat ?num, f) \<in> set syscalls" using that by (auto simp: syscall_of_def map_of_SomeD split: if_splits)
    moreover have "?num = of_nat (unat ?num)" by simp
    then have "unat ?num \<noteq> SYS_exec" using assms(2) [OF Some] by metis
    ultimately show ?thesis by (rule lk_ok_syscalls)
  qed
  then have "lk_bal [] ?f" by (auto split: option.split intro!: klock)
  then have "lk_bal [] (kbind ?f (\<lambda>r. kbind (kget (\<lambda>s. tf (thread_at s t))) (\<lambda>tfa. mstore32 (tfa + TF_EAX) r)))"
    by (rule lk_ok_kbind) (rule klock)+
  from lk_okD [OF this assms(1)] Some show ?thesis
    by (simp add: syscall_def mythread_def)
qed

lemma lk_post_kbind:
  "lk_post H1 (m s e) \<Longrightarrow> (\<And>x s' e'. m s e = Ok x s' e' \<Longrightarrow> lk_post H (f x s' e')) \<Longrightarrow> lk_post H (kbind m f s e)"
  by (cases "m s e") (simp_all add: kbind_def)

lemma lk_post_kseq:
  "lk_post H1 (m s e) \<Longrightarrow> (\<And>x s' e'. m s e = Ok x s' e' \<Longrightarrow> lk_post H (n s' e')) \<Longrightarrow> lk_post H (kseq m n s e)"
  unfolding kseq_def by (rule lk_post_kbind)

lemma lk_post_trap_syscall:
  assumes "held s = []" "\<And>t. curthread s = Some t \<Longrightarrow> valid_thread s t"
    and "load32 (mem s) (tfa + TF_EAX) \<noteq> of_nat SYS_exec"
  shows "lk_post (\<lambda>_. []) (trap_syscall tfa s e)"
  unfolding trap_syscall_def
proof (rule lk_post_kseq)
  show "lk_post (\<lambda>_. []) (leave_if_killed s e)" by (rule lk_okD [OF lk_ok_leave_if_killed assms(1)]) simp
  fix x1 s1 e1 assume "leave_if_killed s e = Ok x1 s1 e1"
  then have s1: "s1 = s" using leave_if_killed_same assms(1) by blast
  show "lk_post (\<lambda>_. []) (kseq leave_if_doomed (kbind mythread (\<lambda>t. deref t (\<lambda>t.
     kseq (kmod (upd_thread t (\<lambda>x. x\<lparr>tf := tfa\<rparr>))) (kseq syscall (kseq leave_if_killed leave_if_doomed))))) s1 e1)"
  proof (rule lk_post_kseq)
    show "lk_post (\<lambda>_. []) (leave_if_doomed s1 e1)"
      using lk_okD [OF lk_ok_leave_if_doomed [OF refl]] assms(1) s1 by blast
    fix x2 s2 e2 assume "leave_if_doomed s1 e1 = Ok x2 s2 e2"
    then have s2: "s2 = s" using leave_if_doomed_same assms(1) s1 by blast
    show "lk_post (\<lambda>_. []) (kbind mythread (\<lambda>t. deref t (\<lambda>t.
       kseq (kmod (upd_thread t (\<lambda>x. x\<lparr>tf := tfa\<rparr>))) (kseq syscall (kseq leave_if_killed leave_if_doomed)))) s2 e2)"
    proof (cases "curthread s")
      case None
      then show ?thesis using s2 by (simp add: mythread_def)
    next
      case (Some t)
      let ?s = "upd_thread t (\<lambda>x. x\<lparr>tf := tfa\<rparr>) s"
      have "lk_post (\<lambda>_. []) (kseq syscall (kseq leave_if_killed leave_if_doomed) ?s e2)"
      proof (rule lk_post_kseq)
        show "lk_post (\<lambda>_. []) (syscall ?s e2)"
          using assms(1,3) assms(2) [OF Some] Some by (intro lk_post_syscall) (simp_all add: thread_at_upd_thread)
        fix x3 s3 e3 assume "syscall ?s e2 = Ok x3 s3 e3"
        with \<open>lk_post (\<lambda>_. []) (syscall ?s e2)\<close> have "held s3 = []" by simp
        moreover have "lk_bal [] (kseq leave_if_killed leave_if_doomed)" by (rule klock | simp)+
        ultimately show "lk_post (\<lambda>_. []) (kseq leave_if_killed leave_if_doomed s3 e3)" by (rule lk_okD [rotated])
      qed
      then show ?thesis using Some s2 by (simp add: mythread_def)
    qed
  qed
qed

section \<open>Properties\<close>

text \<open>
  C6. The lock discipline of the whole kernel. Whatever enters the kernel through \<^verbatim>\<open>trap\<close> (a device
  interrupt, a fault, or a system call other than \<^verbatim>\<open>exec\<close>) while the processor holds no spinlock, for
  every behaviour of the rest of the system: it never acquires a lock it holds, never releases one
  it does not hold and never calls \<^verbatim>\<open>sched\<close> with another lock than the process table's. When it
  returns, the processor holds no lock; when it waits or has ended in the scheduler, it holds exactly
  the process table's lock.
\<close>

theorem trap_lock_discipline:
  assumes "held s = []" and "\<And>t. curthread s = Some t \<Longrightarrow> valid_thread s t"
    and "load32 (mem s) (tfa + TF_TRAPNO) = T_SYSCALL \<Longrightarrow> load32 (mem s) (tfa + TF_EAX) \<noteq> of_nat SYS_exec"
  shows "case trap hw tfa s e of
      Ok _ s' _ \<Rightarrow> held s' = []
    | Panic msg \<Rightarrow> msg \<notin> {''acquire'', ''release'', ''sched ptable.lock'', ''sched locks''}
    | Dies s' _ \<Rightarrow> held s' = []
    | Gone s' \<Rightarrow> held s' = [PtableLock]
    | Blocked s' \<Rightarrow> held s' = [PtableLock]
    | Spins s' \<Rightarrow> True"
proof -
  let ?no = "load32 (mem s) (tfa + TF_TRAPNO)"
  let ?m = "if ?no = T_SYSCALL then trap_syscall tfa else trap_interrupt hw tfa ?no"
  have "lk_post (\<lambda>_. []) (?m s e)"
    using lk_post_trap_syscall [OF assms(1,2), of tfa e] assms(3)
      lk_okD [OF lk_ok_trap_interrupt [OF refl], of s hw tfa ?no e] assms(1) by simp
  then have "lk_post (\<lambda>_. []) (ending ?m s e)" by (rule lk_post_ending)
  moreover have "trap hw tfa s e = ending ?m s e" by (simp add: trap_def ending_def)
  ultimately show ?thesis by (auto simp: lock_panics_def split: res.splits)
qed

theorem trap_lock_discipline_witness:
  "case trap \<lparr>hw_cpu = 1, hw_cr2 = 0, hw_kbd = [], hw_uart = []\<rparr> 0x80300000 (sample []) [] of
      Ok _ s' _ \<Rightarrow> held s' = []
    | Panic msg \<Rightarrow> msg \<notin> {''acquire'', ''release'', ''sched ptable.lock'', ''sched locks''}
    | Dies s' _ \<Rightarrow> held s' = []
    | Gone s' \<Rightarrow> held s' = [PtableLock]
    | Blocked s' \<Rightarrow> held s' = [PtableLock]
    | Spins s' \<Rightarrow> True"
  by (rule trap_lock_discipline)
    (simp_all add: sample_valid load32_def T_SYSCALL_def)

end
