(* ===== verification/Tournament.thy ===== *)
theory Tournament
  imports Kmutex
begin

text \<open>
  \<^verbatim>\<open>tournament_tree.c\<close>, the user library's lock for many threads: a complete binary tree of kernel
  mutexes in an array, the children of \<open>p\<close> at \<open>2 * p + 1\<close> and \<open>2 * p + 2\<close>. A thread that enters at a leaf
  locks every mutex from there to the root.

  The allocation routines are programs over the kernel's mutex calls. The two routines that
  threads run concurrently are a step relation whose atomic steps are the mutex calls and the
  accesses to \<^verbatim>\<open>threadMap\<close> under the tree's own lock.
\<close>

section \<open>The array\<close>

primrec pow_loop :: "nat \<Rightarrow> uint32 \<Rightarrow> uint32" where
  "pow_loop 0 output = output"
| "pow_loop (Suc k) output = pow_loop k (output * 2)"

text \<open>
  \<^verbatim>\<open>powordepth\<close>: \<^verbatim>\<open>exp\<close> counts down to zero. A negative exponent would count through all the numbers in
  between, which is what the unsigned reading says.
\<close>

definition powordepth :: "uint32 \<Rightarrow> uint32" where
  "powordepth exp = pow_loop (unat exp) 1"

lemma pow_loop_eq: "pow_loop k x = x * 2 ^ k"
  by (induction k arbitrary: x) simp_all

lemma powordepth_eq: "powordepth e = 2 ^ unat e"
  by (simp add: powordepth_def pow_loop_eq)

text \<open>\<^verbatim>\<open>fatherPosition = (treePosition - 1) / 2\<close>.\<close>

definition father :: "nat \<Rightarrow> nat" where
  "father p = (p - 1) div 2"

lemma father_less [simp]: "p \<noteq> 0 \<Longrightarrow> father p < p"
  by (simp add: father_def)

text \<open>The positions the loop of \<^verbatim>\<open>trnmnt_tree_acquire\<close> locks from position \<open>p\<close> on, in order.\<close>

function ancestors :: "nat \<Rightarrow> nat list" where
  "ancestors p = (if p = 0 then [] else father p # ancestors (father p))"
  by pat_completeness auto
termination by (relation "measure id") simp_all

declare ancestors.simps [simp del]

text \<open>The positions \<^verbatim>\<open>trnmnt_tree_release_rec\<close> unlocks, in order: the recursion comes first.\<close>

function release_rec :: "nat \<Rightarrow> nat list" where
  "release_rec p = (if father p \<noteq> 0 then release_rec (father p) @ [father p] else [father p])"
  by pat_completeness auto
termination
proof (relation "measure id")
  fix p assume "father p \<noteq> 0"
  then have "p \<noteq> 0" by (auto simp: father_def)
  then show "(father p, p) \<in> measure id" by simp
qed simp

declare release_rec.simps [simp del]

definition leaf :: "uint32 \<Rightarrow> nat \<Rightarrow> nat" where
  "leaf d ID = unat (powordepth d - 1) + ID"

section \<open>Allocation\<close>

record trnmnt_tree =
  tLock :: uint32
  mutextree :: "uint32 list"
  threadMap :: "uint32 list"
  tdepth :: uint32

primrec alloc_all :: "nat \<Rightarrow> uint32 list kern" where
  "alloc_all 0 = kret []"
| "alloc_all (Suc n) = kbind kthread_mutex_alloc (\<lambda>m. kbind (alloc_all n) (\<lambda>ms. kret (m # ms)))"

definition dealloc_all :: "uint32 list \<Rightarrow> unit kern" where
  "dealloc_all ms = kfor (\<lambda>m. kseq (kthread_mutex_dealloc m) (kret ())) ms"

text \<open>
  \<^verbatim>\<open>trnmnt_tree_alloc\<close>. The first \<^verbatim>\<open>malloc\<close> is taken to succeed, as the code does; \<open>m1\<close> and \<open>m2\<close> say
  whether the other two do.
\<close>

definition trnmnt_tree_alloc :: "bool \<Rightarrow> bool \<Rightarrow> uint32 \<Rightarrow> trnmnt_tree option kern" where
  "trnmnt_tree_alloc m1 m2 depth =
     (if sint depth \<le> 0 \<or> sint depth > 6 then kret None
      else
        (let treeSize = unat (powordepth depth - 1) in
         kbind kthread_mutex_alloc (\<lambda>l.
         if l = -1 then kret None
         else if \<not> m1 then kret None
         else
           kbind (alloc_all treeSize) (\<lambda>ms.
           if -1 \<in> set ms then kseq (dealloc_all ms) (kseq (kthread_mutex_dealloc l) (kret None))
           else if \<not> m2 then kseq (dealloc_all ms) (kseq (kthread_mutex_dealloc l) (kret None))
           else kret (Some \<lparr>tLock = l, mutextree = ms, threadMap = replicate (unat (powordepth depth)) (-1),
                  tdepth = depth\<rparr>)))))"

text \<open>The loop of \<^verbatim>\<open>trnmnt_tree_dealloc\<close> over the mutexes: it stops at the first failure.\<close>

primrec dealloc_until :: "uint32 list \<Rightarrow> bool kern" where
  "dealloc_until [] = kret True"
| "dealloc_until (m # ms) =
     kbind (kthread_mutex_dealloc m) (\<lambda>r. if r = -1 then kret False else dealloc_until ms)"

text \<open>\<^verbatim>\<open>trnmnt_tree_dealloc\<close>; \<open>tree\<close> is the tree as the thread finds it once it has the tree's lock.\<close>

definition trnmnt_tree_dealloc :: "trnmnt_tree \<Rightarrow> uint32 kern" where
  "trnmnt_tree_dealloc tree =
     kseq (kthread_mutex_lock (tLock tree))
    (if \<exists>x \<in> set (threadMap tree). x \<noteq> -1
     then kseq (kthread_mutex_unlock (tLock tree)) (kret (-1))
     else
       kbind (dealloc_until (mutextree tree)) (\<lambda>ok.
       if \<not> ok then kseq (kthread_mutex_unlock (tLock tree)) (kret (-1))
       else
         kseq (kthread_mutex_unlock (tLock tree))
        (kseq (kthread_mutex_dealloc (tLock tree)) (kret 0))))"

section \<open>Threads that use the tree\<close>

text \<open>
  Where a thread is. \<open>AEnter ID\<close>: in \<^verbatim>\<open>trnmnt_tree_acquire\<close>, about to lock the tree's lock; \<open>ACheck\<close>: holding
  it; \<open>ALeave\<close>: about to unlock it, with the outcome of the test; \<open>AClimb ID p\<close>: the loop with
  \<^verbatim>\<open>treePosition\<close> \<open>p\<close>. \<open>Inside ID\<close>: the routine has returned 0. The stages of \<^verbatim>\<open>trnmnt_tree_release\<close>
  carry what the thread had acquired when it called; \<open>RUnlock ID own ps\<close>: the positions \<open>ps\<close> are still to
  be unlocked.
\<close>

datatype tpc =
    Outside
  | AEnter nat | ACheck nat | ALeave nat bool | AClimb nat nat
  | Inside nat
  | REnter nat "nat option" | RCheck nat "nat option" | RUnlock nat "nat option" "nat list"
  | RClear nat "nat option" | RLeave "nat option"

text \<open>
  The tree's lock, the mutexes by position, \<^verbatim>\<open>threadMap\<close> (\<open>None\<close> for -1), and the threads. A thread id
  identifies its thread.
\<close>

record trn =
  tl :: mutex
  tm :: "nat \<Rightarrow> mutex"
  tmap :: "nat \<Rightarrow> tptr option"
  tpcs :: "tptr \<Rightarrow> tpc"

definition goto :: "tptr \<Rightarrow> tpc \<Rightarrow> trn \<Rightarrow> trn" where
  "goto t c s = s\<lparr>tpcs := (tpcs s)(t := c)\<rparr>"

text \<open>Back in the caller, which has acquired the tree or not.\<close>

definition returned :: "nat option \<Rightarrow> tpc" where
  "returned own = (case own of None \<Rightarrow> Outside | Some ID \<Rightarrow> Inside ID)"

text \<open>
  \<^verbatim>\<open>kthread_mutex_lock\<close> and \<^verbatim>\<open>kthread_mutex_unlock\<close> of a mutex in use, as far as the caller can tell: a
  thread that holds the mutex already is refused, otherwise the call returns once the exchange
  found the mutex free. A mutex without holder is refused when the word read through the null
  \<^verbatim>\<open>holding\<close> equals the caller's thread id (\<open>hit\<close>). Only the holder can unlock. The result says whether
  the call succeeded.
\<close>

definition mx_lock :: "bool \<Rightarrow> tptr \<Rightarrow> mutex \<Rightarrow> (bool \<times> mutex) option" where
  "mx_lock hit t m =
     (if (case mholding m of None \<Rightarrow> hit | Some u \<Rightarrow> u = t) then Some (False, m)
      else case mutex_xchg m of (old, m') \<Rightarrow> if old \<noteq> 0 then None else Some (True, mutex_own (Some t) m'))"

definition mx_unlock :: "tptr \<Rightarrow> mutex \<Rightarrow> bool \<times> mutex" where
  "mx_unlock t m =
     (if mstate m \<noteq> CLOSE \<or> mholding m \<noteq> Some t then (False, m) else (True, mutex_open m))"

text \<open>
  \<open>w\<close>: the threads whose id is the word at address 12 of the process. Such a thread may have been past
  that test when the mutex was opened, so both outcomes are possible. The result of
  \<^verbatim>\<open>kthread_mutex_lock\<close> is ignored by the code.
\<close>

inductive trn_step :: "(tptr \<Rightarrow> bool) \<Rightarrow> uint32 \<Rightarrow> trn \<Rightarrow> trn \<Rightarrow> bool" for w d where
  call_acquire: "tpcs s t = Outside \<Longrightarrow> ID < unat (powordepth d) \<Longrightarrow> trn_step w d s (goto t (AEnter ID) s)"
| a_lock: "tpcs s t = AEnter ID \<Longrightarrow> hit \<longrightarrow> w t \<Longrightarrow> mx_lock hit t (tl s) = Some (r, m) \<Longrightarrow>
    trn_step w d s (goto t (ACheck ID) (s\<lparr>tl := m\<rparr>))"
| a_taken: "tpcs s t = ACheck ID \<Longrightarrow> tmap s ID \<noteq> None \<Longrightarrow> trn_step w d s (goto t (ALeave ID False) s)"
| a_claim: "tpcs s t = ACheck ID \<Longrightarrow> tmap s ID = None \<Longrightarrow>
    trn_step w d s (goto t (ALeave ID True) (s\<lparr>tmap := (tmap s)(ID := Some t)\<rparr>))"
| a_unlock: "tpcs s t = ALeave ID ok \<Longrightarrow> mx_unlock t (tl s) = (r, m) \<Longrightarrow>
    trn_step w d s (goto t (if ok then AClimb ID (leaf d ID) else Outside) (s\<lparr>tl := m\<rparr>))"
| a_climb: "tpcs s t = AClimb ID p \<Longrightarrow> p \<noteq> 0 \<Longrightarrow> hit \<longrightarrow> w t \<Longrightarrow> mx_lock hit t (tm s (father p)) = Some (r, m) \<Longrightarrow>
    trn_step w d s (goto t (AClimb ID (father p)) (s\<lparr>tm := (tm s)(father p := m)\<rparr>))"
| a_return: "tpcs s t = AClimb ID 0 \<Longrightarrow> trn_step w d s (goto t (Inside ID) s)"
| call_release: "tpcs s t = returned own \<Longrightarrow> ID < unat (powordepth d) \<Longrightarrow> trn_step w d s (goto t (REnter ID own) s)"
| r_lock: "tpcs s t = REnter ID own \<Longrightarrow> hit \<longrightarrow> w t \<Longrightarrow> mx_lock hit t (tl s) = Some (r, m) \<Longrightarrow>
    trn_step w d s (goto t (RCheck ID own) (s\<lparr>tl := m\<rparr>))"
| r_refused: "tpcs s t = RCheck ID own \<Longrightarrow> tmap s ID \<noteq> Some t \<Longrightarrow> trn_step w d s (goto t (RLeave own) s)"
| r_start: "tpcs s t = RCheck ID own \<Longrightarrow> tmap s ID = Some t \<Longrightarrow>
    trn_step w d s (goto t (RUnlock ID own (release_rec (leaf d ID))) s)"
| r_unlock: "tpcs s t = RUnlock ID own (p # ps) \<Longrightarrow> mx_unlock t (tm s p) = (r, m) \<Longrightarrow>
    trn_step w d s (goto t (if r then RUnlock ID own ps else RLeave own) (s\<lparr>tm := (tm s)(p := m)\<rparr>))"
| r_done: "tpcs s t = RUnlock ID own [] \<Longrightarrow> trn_step w d s (goto t (RClear ID own) s)"
| r_clear: "tpcs s t = RClear ID own \<Longrightarrow>
    trn_step w d s (goto t (RLeave None) (s\<lparr>tmap := (tmap s)(ID := None)\<rparr>))"
| r_leave: "tpcs s t = RLeave own \<Longrightarrow> mx_unlock t (tl s) = (r, m) \<Longrightarrow>
    trn_step w d s (goto t (returned own) (s\<lparr>tl := m\<rparr>))"

text \<open>A new tree: every mutex open, \<^verbatim>\<open>threadMap\<close> empty.\<close>

inductive trn_reach :: "(tptr \<Rightarrow> bool) \<Rightarrow> uint32 \<Rightarrow> trn \<Rightarrow> bool" for w d where
  start: "trn_reach w d \<lparr>tl = mutex_init i pd m0, tm = (\<lambda>p. mutex_init (j p) pd m0), tmap = (\<lambda>_. None),
     tpcs = (\<lambda>_. Outside)\<rparr>"
| step: "trn_reach w d s \<Longrightarrow> trn_step w d s s' \<Longrightarrow> trn_reach w d s'"

section \<open>Paths\<close>

lemma ancestors_0 [simp]: "ancestors 0 = []"
  by (simp add: ancestors.simps)

lemma ancestors_step: "p \<noteq> 0 \<Longrightarrow> ancestors p = father p # ancestors (father p)"
  by (subst ancestors.simps) simp

lemma ancestors_less: "q \<in> set (ancestors p) \<Longrightarrow> q < p"
proof (induction p rule: ancestors.induct)
  case (1 p)
  then show ?case by (cases "p = 0") (auto simp: ancestors_step dest: less_trans [OF _ father_less])
qed

lemma distinct_ancestors: "distinct (ancestors p)"
proof (induction p rule: ancestors.induct)
  case (1 p)
  then show ?case by (cases "p = 0") (auto simp: ancestors_step dest: ancestors_less)
qed

lemma ancestors_trans: "q \<in> set (ancestors p) \<Longrightarrow> set (ancestors q) \<subseteq> set (ancestors p)"
proof (induction p rule: ancestors.induct)
  case (1 p)
  then show ?case by (cases "p = 0") (auto simp: ancestors_step)
qed

lemma last_ancestors: "p \<noteq> 0 \<Longrightarrow> ancestors p \<noteq> [] \<and> last (ancestors p) = 0"
proof (induction p rule: ancestors.induct)
  case (1 p)
  then show ?case by (cases "father p = 0") (auto simp: ancestors_step)
qed

text \<open>The release unlocks what the acquisition locked, in the opposite order.\<close>

lemma release_rec_eq: "p \<noteq> 0 \<Longrightarrow> release_rec p = rev (ancestors p)"
proof (induction p rule: ancestors.induct)
  case (1 p)
  then show ?case
    by (cases "father p = 0") (simp_all add: ancestors_step release_rec.simps [of p])
qed

lemma ancestors_level:
  "2 ^ k \<le> Suc p \<Longrightarrow> Suc p < 2 ^ Suc k \<Longrightarrow> length (ancestors p) = k"
proof (induction k arbitrary: p)
  case 0
  then show ?case by simp
next
  case (Suc k)
  have "(2 :: nat) \<le> 2 ^ Suc k" by simp
  then have "2 \<le> Suc p" using Suc.prems(1) by (rule le_trans)
  then have p: "p \<noteq> 0" by simp
  have "Suc (father p) = Suc p div 2" using p by (simp add: father_def div_if [of "Suc p"])
  moreover have "2 ^ k \<le> Suc p div 2" "Suc p div 2 < 2 ^ Suc k" using Suc.prems by simp_all
  ultimately have "length (ancestors (father p)) = k" using Suc.IH [of "father p"] by simp
  then show ?case using p by (simp add: ancestors_step)
qed

lemma father_bound: "p < 2 * n + 1 \<Longrightarrow> father p < n \<or> p = 0 \<and> n = 0"
  by (auto simp: father_def)

section \<open>Mutexes with an owner\<close>

text \<open>What the tree relies on: a lock that is taken has its new owner, one that is given back has none.\<close>

locale owned_lock =
  fixes ok :: "'m \<Rightarrow> bool" and owner :: "'m \<Rightarrow> 't option"
    and lck :: "'t \<Rightarrow> 'm \<Rightarrow> (bool \<times> 'm) option" and unl :: "'t \<Rightarrow> 'm \<Rightarrow> bool \<times> 'm"
  assumes lock_law: "ok m \<Longrightarrow> lck t m = Some (r, m') \<Longrightarrow>
      ok m' \<and> owner m' = Some t \<and> (owner m = None \<or> owner m = Some t)"
    and unlock_law: "ok m \<Longrightarrow> unl t m = (r, m') \<Longrightarrow>
      ok m' \<and> (if owner m = Some t then r \<and> owner m' = None else \<not> r \<and> owner m' = owner m)"
begin

definition owns :: "('p \<Rightarrow> 'm) \<Rightarrow> 't \<Rightarrow> 'p set \<Rightarrow> bool" where
  "owns f t A \<longleftrightarrow> (\<forall>p \<in> A. owner (f p) = Some t)"

lemma owns_lock:
  assumes "\<forall>p. ok (f p)" "owns f t A" "lck t (f q) = Some (r, m)"
  shows "owns (f(q := m)) t (insert q A)"
proof -
  have "owner m = Some t" using assms(1,3) lock_law by blast
  then show ?thesis using assms(2) by (auto simp: owns_def)
qed

lemma owns_lock_other:
  assumes "\<forall>p. ok (f p)" "owns f u A" "lck t (f q) = Some (r, m)" "u \<noteq> t"
  shows "owns (f(q := m)) u A"
proof -
  have "owner (f q) = None \<or> owner (f q) = Some t" using assms(1,3) lock_law by blast
  then have "q \<notin> A" using assms(2,4) by (auto simp: owns_def)
  then show ?thesis using assms(2) by (auto simp: owns_def)
qed

lemma owns_unlock:
  assumes "\<forall>p. ok (f p)" "owns f t (insert q A)" "q \<notin> A" "unl t (f q) = (r, m)"
  shows "r \<and> owns (f(q := m)) t A"
proof -
  have "owner (f q) = Some t" using assms(2) by (simp add: owns_def)
  moreover have "if owner (f q) = Some t then r \<and> owner m = None else \<not> r \<and> owner m = owner (f q)"
    using assms(1,4) unlock_law by blast
  ultimately show ?thesis using assms(2,3) by (auto simp: owns_def)
qed

lemma owns_unlock_other:
  assumes "\<forall>p. ok (f p)" "owns f u A" "unl t (f q) = (r, m)" "u \<noteq> t"
  shows "owns (f(q := m)) u A"
proof -
  have "if owner (f q) = Some t then r \<and> owner m = None else \<not> r \<and> owner m = owner (f q)"
    using assms(1,3) unlock_law by blast
  then have "q \<in> A \<Longrightarrow> owner m = owner (f q)" using assms(2,4) by (auto simp: owns_def)
  then show ?thesis using assms(2) by (auto simp: owns_def)
qed

lemma ok_lock: "\<forall>p. ok (f p) \<Longrightarrow> lck t (f q) = Some (r, m) \<Longrightarrow> \<forall>p. ok ((f(q := m)) p)"
  using lock_law by (metis fun_upd_apply)

lemma ok_unlock: "\<forall>p. ok (f p) \<Longrightarrow> unl t (f q) = (r, m) \<Longrightarrow> \<forall>p. ok ((f(q := m)) p)"
  using unlock_law by (metis fun_upd_apply)

lemma owns_disjoint: "owns f t A \<Longrightarrow> owns f u B \<Longrightarrow> t \<noteq> u \<Longrightarrow> A \<inter> B = {}"
  by (auto simp: owns_def)

end

definition mx_ok :: "mutex \<Rightarrow> bool" where
  "mx_ok m \<longleftrightarrow> (case mholding m of None \<Rightarrow> mlock m = 0 \<and> mstate m = OPEN
     | Some _ \<Rightarrow> mlock m \<noteq> 0 \<and> mstate m = CLOSE)"

interpretation kmx: owned_lock mx_ok mholding "mx_lock False" mx_unlock
proof
  fix m t r m'
  show "mx_ok m' \<and> mholding m' = Some t \<and> (mholding m = None \<or> mholding m = Some t)"
    if "mx_ok m" "mx_lock False t m = Some (r, m')"
    using that by (auto simp: mx_ok_def mx_lock_def mutex_op_defs split: if_splits option.splits)
  show "mx_ok m' \<and> (if mholding m = Some t then r \<and> mholding m' = None else \<not> r \<and> mholding m' = mholding m)"
    if "mx_ok m" "mx_unlock t m = (r, m')"
    using that by (auto simp: mx_ok_def mx_unlock_def mutex_op_defs split: if_splits option.splits)
qed

section \<open>The invariant\<close>

text \<open>The positions whose mutexes a thread holds, and the ID it has in \<^verbatim>\<open>threadMap\<close>.\<close>

definition path :: "uint32 \<Rightarrow> nat option \<Rightarrow> nat set" where
  "path d own = (case own of None \<Rightarrow> {} | Some ID \<Rightarrow> set (ancestors (leaf d ID)))"

fun holds :: "uint32 \<Rightarrow> tpc \<Rightarrow> nat set" where
  "holds d (AClimb ID p) = path d (Some ID) - set (ancestors p)"
| "holds d (Inside ID) = path d (Some ID)"
| "holds d (REnter ID own) = path d own"
| "holds d (RCheck ID own) = path d own"
| "holds d (RLeave own) = path d own"
| "holds d (RUnlock ID own ps) = set ps"
| "holds d _ = {}"

fun claim :: "tpc \<Rightarrow> nat option" where
  "claim (ALeave ID ok) = (if ok then Some ID else None)"
| "claim (AClimb ID p) = Some ID"
| "claim (Inside ID) = Some ID"
| "claim (REnter ID own) = own"
| "claim (RCheck ID own) = own"
| "claim (RUnlock ID own ps) = Some ID"
| "claim (RClear ID own) = Some ID"
| "claim (RLeave own) = own"
| "claim _ = None"

fun pc_ok :: "uint32 \<Rightarrow> tpc \<Rightarrow> bool" where
  "pc_ok d (AClimb ID p) \<longleftrightarrow> p = leaf d ID \<or> p \<in> path d (Some ID)"
| "pc_ok d (RUnlock ID own ps) \<longleftrightarrow> distinct ps"
| "pc_ok d _ \<longleftrightarrow> True"

lemma returned_facts [simp]:
  "holds d (returned own) = path d own" "claim (returned own) = own" "pc_ok d (returned own)"
  by (simp_all add: returned_def path_def split: option.split)

definition trn_inv :: "uint32 \<Rightarrow> trn \<Rightarrow> bool" where
  "trn_inv d s \<longleftrightarrow> (\<forall>p. mx_ok (tm s p)) \<and>
     (\<forall>t. kmx.owns (tm s) t (holds d (tpcs s t)) \<and> pc_ok d (tpcs s t) \<and>
        (\<forall>ID. tmap s ID = Some t \<longleftrightarrow> claim (tpcs s t) = Some ID))"

lemma trn_invD:
  assumes "trn_inv d s"
  shows "\<forall>p. mx_ok (tm s p)" "kmx.owns (tm s) t (holds d (tpcs s t))" "pc_ok d (tpcs s t)"
    "tmap s ID = Some t \<longleftrightarrow> claim (tpcs s t) = Some ID"
  using assms unfolding trn_inv_def by blast+

text \<open>A step of \<open>t\<close> that leaves the mutexes and the map alone.\<close>

lemma inv_goto:
  assumes "trn_inv d s" "holds d c = holds d (tpcs s t)" "claim c = claim (tpcs s t)" "pc_ok d c"
  shows "trn_inv d (goto t c (s\<lparr>tl := m\<rparr>))"
  using assms by (simp add: trn_inv_def goto_def del: split_paired_All)

lemma inv_goto':
  assumes "trn_inv d s" "holds d c = holds d (tpcs s t)" "claim c = claim (tpcs s t)" "pc_ok d c"
  shows "trn_inv d (goto t c s)"
  using inv_goto [OF assms, of "tl s"] by simp

text \<open>A step of \<open>t\<close> that changes the mutex at \<open>q\<close>.\<close>

lemma inv_mutex:
  assumes inv: "trn_inv d s" and f: "\<forall>p. mx_ok (((tm s)(q := m)) p)"
    and t: "kmx.owns ((tm s)(q := m)) t (holds d c)"
    and u: "\<And>u. u \<noteq> t \<Longrightarrow> kmx.owns ((tm s)(q := m)) u (holds d (tpcs s u))"
    and c: "claim c = claim (tpcs s t)" "pc_ok d c"
  shows "trn_inv d (goto t c (s\<lparr>tm := (tm s)(q := m)\<rparr>))"
  using assms unfolding trn_inv_def goto_def by (simp del: split_paired_All split_paired_all)

text \<open>A step of \<open>t\<close> that changes \<^verbatim>\<open>threadMap\<close>.\<close>

lemma inv_map:
  assumes "trn_inv d s" "holds d c = holds d (tpcs s t)" "pc_ok d c"
    and "\<And>u ID. ((tmap s)(i := x)) ID = Some u \<longleftrightarrow> (if u = t then claim c = Some ID else claim (tpcs s u) = Some ID)"
  shows "trn_inv d (goto t c (s\<lparr>tmap := (tmap s)(i := x)\<rparr>))"
  using assms unfolding trn_inv_def goto_def by (simp del: split_paired_All split_paired_all)

lemma unat_pow2: "n < 32 \<Longrightarrow> unat ((2 :: uint32) ^ n) = 2 ^ n"
proof -
  assume "n < 32"
  then have "(2 :: nat) ^ n < 2 ^ 32" by (intro power_strict_increasing) simp_all
  then show ?thesis using unat_of_nat_addr [of "2 ^ n"] by simp
qed

lemma leaf_pos: "d \<noteq> 0 \<Longrightarrow> unat d < 32 \<Longrightarrow> leaf d ID \<noteq> 0"
proof -
  assume d: "d \<noteq> 0" "unat d < 32"
  have "(2 :: uint32) ^ unat d \<noteq> 1"
  proof
    assume "(2 :: uint32) ^ unat d = 1"
    then have "unat ((2 :: uint32) ^ unat d) = 1" by simp
    moreover have "unat ((2 :: uint32) ^ unat d) = 2 ^ unat d" using d(2) by (rule unat_pow2)
    ultimately show False using d(1) by (simp add: unat_eq_0)
  qed
  then have "powordepth d - 1 \<noteq> 0" by (simp add: powordepth_eq)
  then show ?thesis by (simp add: leaf_def unat_eq_0)
qed

lemma trn_step_inv:
  assumes "trn_step w d s s'" "trn_inv d s" "d \<noteq> 0" "unat d < 32" "\<And>t. \<not> w t"
  shows "trn_inv d s'"
  using assms(1,2)
proof (induction rule: trn_step.induct)
  case (a_claim s t ID)
  have "((tmap s)(ID := Some t)) j = Some u \<longleftrightarrow>
      (if u = t then claim (ALeave ID True) = Some j else claim (tpcs s u) = Some j)" for u j
    using trn_invD(4) [OF a_claim(3), of j u] trn_invD(4) [OF a_claim(3), of ID u] a_claim(1,2) by auto
  then show ?case using a_claim by (intro inv_map) simp_all
next
  case (r_clear s t ID own)
  have "((tmap s)(ID := None)) j = Some u \<longleftrightarrow>
      (if u = t then claim (RLeave None) = Some j else claim (tpcs s u) = Some j)" for u j
    using trn_invD(4) [OF r_clear(2), of j u] trn_invD(4) [OF r_clear(2), of ID t] r_clear(1) by auto
  then show ?case using r_clear by (intro inv_map) (simp_all add: path_def)
next
  case (a_climb s t ID p hit r m)
  note i = trn_invD [OF a_climb(5)]
  have m: "mx_lock False t (tm s (father p)) = Some (r, m)" using a_climb(3,4) assms(5) [of t] by simp
  have p: "p = leaf d ID \<or> p \<in> path d (Some ID)" using i(3) [of t] a_climb(1) by simp
  have f: "father p \<in> path d (Some ID)" "set (ancestors p) \<subseteq> path d (Some ID)" "father p \<notin> set (ancestors (father p))"
    using p a_climb(2) ancestors_trans [of p "leaf d ID"] ancestors_step [of p] ancestors_less [of "father p" "father p"]
    by (auto simp: path_def)
  have "holds d (AClimb ID (father p)) = insert (father p) (holds d (tpcs s t))"
    using f a_climb(1) ancestors_step [OF a_climb(2)] by auto
  then show ?case
    using a_climb i f kmx.owns_lock [OF i(1) i(2) m] kmx.owns_lock_other [OF i(1) i(2) m]
      kmx.ok_lock [OF i(1) m] by (intro inv_mutex) simp_all
next
  case (r_unlock s t ID own p ps r m)
  note i = trn_invD [OF r_unlock(3)]
  have o: "kmx.owns (tm s) t (insert p (set ps))" "p \<notin> set ps" using i(2,3) [of t] r_unlock(1) by simp_all
  have "r \<and> kmx.owns ((tm s)(p := m)) t (set ps)"
    using kmx.owns_unlock [OF i(1) o r_unlock(2)] .
  then show ?case
    using r_unlock i i(3) [of t] kmx.owns_unlock_other [OF i(1) i(2) r_unlock(2)]
      kmx.ok_unlock [OF i(1) r_unlock(2)] by (intro inv_mutex) simp_all
next
  case (r_start s t ID own)
  have "own = Some ID" using trn_invD(4) [OF r_start(3), of ID t] r_start(1,2) by simp
  then show ?case
    using r_start release_rec_eq [OF leaf_pos [OF assms(3,4)]] distinct_ancestors
    by (intro inv_goto') (simp_all add: path_def)
next
  case (a_unlock s t ID ok r m)
  then show ?case by (intro inv_goto) (auto simp: path_def)
next
  case (a_return s t ID)
  then show ?case by (intro inv_goto') (simp_all add: path_def)
qed ((rule inv_goto inv_goto'; simp)+)

lemma trn_reach_inv:
  assumes "trn_reach w d s" "d \<noteq> 0" "unat d < 32" "\<And>t. \<not> w t"
  shows "trn_inv d s"
  using assms(1)
proof (induction rule: trn_reach.induct)
  case (start i pd m0 j)
  show ?case by (simp add: trn_inv_def kmx.owns_def mx_ok_def mutex_init_def)
next
  case (step s s')
  then show ?case using trn_step_inv [OF step(2) _ assms(2,3,4)] by simp
qed

section \<open>Properties\<close>

lemma tree_size:
  assumes "0 < d" "d \<le> 6"
  shows "unat d < 32" "d \<noteq> 0" "unat (powordepth d) = 2 ^ unat d" "unat (powordepth d - 1) = 2 ^ unat d - 1"
proof -
  have "unat d \<le> 6" using assms(2) by (simp add: word_le_nat_alt)
  then show d: "unat d < 32" by simp
  show "d \<noteq> 0" using assms(1) by auto
  show u: "unat (powordepth d) = 2 ^ unat d" using unat_pow2 [OF d] by (simp add: powordepth_eq)
  then have "(1 :: uint32) \<le> powordepth d" by (simp add: word_le_nat_alt)
  then show "unat (powordepth d - 1) = 2 ^ unat d - 1" using u by (simp add: unat_sub)
qed


text \<open>
  A thread that acquires a tree of depth 1 nobody is using: \<open>hit\<close> says whether its calls of
  \<^verbatim>\<open>kthread_mutex_lock\<close> are refused.
\<close>

definition fresh_mutex :: mutex where
  "fresh_mutex = mutex_init 1 1 mutex0"

definition taken :: "tptr \<Rightarrow> mutex" where
  "taken t = mutex_own (Some t) (fresh_mutex\<lparr>mlock := 1\<rparr>)"

lemma fresh_mutex_ops:
  "mx_lock True t fresh_mutex = Some (False, fresh_mutex)" "mx_lock False t fresh_mutex = Some (True, taken t)"
  "mx_unlock t fresh_mutex = (False, fresh_mutex)" "mx_unlock t (taken t) = (True, fresh_mutex)"
  by (simp_all add: mx_lock_def mx_unlock_def fresh_mutex_def taken_def mutex_op_defs mutex0_def)

lemma small_tree: "leaf 1 ID = Suc ID" "ID < 2 \<Longrightarrow> father (Suc ID) = 0" "unat (powordepth 1) = 2"
  by (simp_all add: leaf_def powordepth_eq father_def)

lemma goto_goto [simp]: "goto t c (goto t c' s) = goto t c s"
  by (simp add: goto_def)

lemma goto_upd:
  "(goto t c s)\<lparr>tl := m\<rparr> = goto t c (s\<lparr>tl := m\<rparr>)" "(goto t c s)\<lparr>tm := f\<rparr> = goto t c (s\<lparr>tm := f\<rparr>)"
  "(goto t c s)\<lparr>tmap := g\<rparr> = goto t c (s\<lparr>tmap := g\<rparr>)"
  by (simp_all add: goto_def)

lemma goto_sel [simp]:
  "tl (goto t c s) = tl s" "tm (goto t c s) = tm s" "tmap (goto t c s) = tmap s" "tpcs (goto t c s) = (tpcs s)(t := c)"
  by (simp_all add: goto_def)

lemma trn_enter:
  assumes "trn_reach w 1 s" "tpcs s t = Outside" "tl s = fresh_mutex" "tm s 0 = fresh_mutex" "tmap s ID = None"
    and "ID < 2" "hit \<longrightarrow> w t"
  shows "trn_reach w 1 (goto t (Inside ID) (s\<lparr>tmap := (tmap s)(ID := Some t),
    tm := (tm s)(0 := if hit then fresh_mutex else taken t)\<rparr>))"
proof -
  let ?m = "if hit then fresh_mutex else taken t" and ?g = "(tmap s)(ID := Some t)"
  have l: "mx_lock hit t fresh_mutex = Some (\<not> hit, ?m)" "mx_unlock t ?m = (\<not> hit, fresh_mutex)"
    by (simp_all add: fresh_mutex_ops)
  note n = goto_upd small_tree assms(6)
  have "trn_reach w 1 (goto t (AEnter ID) s)"
    using trn_reach.step [OF assms(1) trn_step.call_acquire [OF assms(2)]] n by simp
  from trn_reach.step [OF this trn_step.a_lock [where ID = ID and t = t and hit = hit]]
  have "trn_reach w 1 (goto t (ACheck ID) (s\<lparr>tl := ?m\<rparr>))" using assms(3,7) l by (simp add: n)
  from trn_reach.step [OF this trn_step.a_claim [where ID = ID and t = t]]
  have "trn_reach w 1 (goto t (ALeave ID True) (s\<lparr>tl := ?m, tmap := ?g\<rparr>))" using assms(5) by (simp add: n)
  from trn_reach.step [OF this trn_step.a_unlock [where ID = ID and t = t and ok = True]]
  have "trn_reach w 1 (goto t (AClimb ID (Suc ID)) (s\<lparr>tl := ?m, tmap := ?g, tl := fresh_mutex\<rparr>))"
    using l by (simp add: n)
  from trn_reach.step [OF this trn_step.a_climb [where ID = ID and t = t and hit = hit and p = "Suc ID"]]
  have "trn_reach w 1 (goto t (AClimb ID 0) (s\<lparr>tl := ?m, tmap := ?g, tl := fresh_mutex, tm := (tm s)(0 := ?m)\<rparr>))"
    using assms(4,7) l by (simp add: n)
  from trn_reach.step [OF this trn_step.a_return [where ID = ID and t = t]]
  have "trn_reach w 1 (goto t (Inside ID) (s\<lparr>tl := ?m, tmap := ?g, tl := fresh_mutex, tm := (tm s)(0 := ?m)\<rparr>))"
    by simp
  moreover have "s\<lparr>tl := ?m, tmap := ?g, tl := fresh_mutex, tm := (tm s)(0 := ?m)\<rparr> =
      s\<lparr>tmap := ?g, tm := (tm s)(0 := ?m)\<rparr>"
    using assms(3) by (cases s) simp
  ultimately show ?thesis by simp
qed

definition fresh_tree :: trn where
  "fresh_tree = \<lparr>tl = fresh_mutex, tm = (\<lambda>p. fresh_mutex), tmap = (\<lambda>_. None), tpcs = (\<lambda>_. Outside)\<rparr>"

lemma fresh_tree_reach: "trn_reach w d fresh_tree"
  unfolding fresh_tree_def fresh_mutex_def by (rule trn_reach.start)

lemma trn_run:
  "\<exists>s. trn_reach w 1 s \<and> tpcs s = (\<lambda>_. Outside)((0, 0) := Inside 0)"
  using trn_enter [OF fresh_tree_reach, of "(0, 0)" 0 False w] by (auto simp: fresh_tree_def)

text \<open>
  C5. The exclusion is lost when a thread of the process has the word at address 12 for its id:
  \<^verbatim>\<open>kthread_mutex_lock\<close> refuses it every open mutex, \<^verbatim>\<open>trnmnt_tree_acquire\<close> ignores the refusals and
  returns 0, and a second thread enters as well.
\<close>

theorem trnmnt_exclusion_lost:
  "\<exists>s. trn_reach (\<lambda>t. t = (0, 1)) 1 s \<and> tpcs s (0, 0) = Inside 0 \<and> tpcs s (0, 1) = Inside 1"
proof -
  let ?w = "\<lambda>t :: tptr. t = (0, 1)"
  let ?s = "goto (0, 1) (Inside 1) (fresh_tree\<lparr>tmap := (tmap fresh_tree)(1 := Some (0, 1)),
    tm := (tm fresh_tree)(0 := fresh_mutex)\<rparr>)"
  have "trn_reach ?w 1 ?s"
    using trn_enter [OF fresh_tree_reach, of "(0, 1)" 1 True ?w] by (simp add: fresh_tree_def)
  from trn_enter [OF this, of "(0, 0)" 0 False]
  show ?thesis by (intro exI conjI) (assumption | simp add: fresh_tree_def)+
qed


text \<open>
  C40. The path through the tree: from every leaf of a tree of an accepted depth,
  \<^verbatim>\<open>trnmnt_tree_acquire\<close> locks exactly \<^verbatim>\<open>depth\<close> mutexes, all of them inside the array \<^verbatim>\<open>mutextree\<close>, the last
  one the root; \<^verbatim>\<open>trnmnt_tree_release_rec\<close> unlocks the same mutexes in the opposite order.
\<close>

theorem trnmnt_path_in_bounds:
  assumes "0 < d" "d \<le> 6" "ID < unat (powordepth d)"
  shows "length (ancestors (leaf d ID)) = unat d \<and> last (ancestors (leaf d ID)) = 0 \<and>
    list_all (\<lambda>p. p < unat (powordepth d - 1)) (ancestors (leaf d ID)) \<and>
    release_rec (leaf d ID) = rev (ancestors (leaf d ID))"
proof -
  note d = tree_size [OF assms(1,2)]
  let ?n = "2 ^ unat d :: nat" and ?l = "leaf d ID"
  have l: "?l = ?n - 1 + ID" "0 < ?n" using d(4) by (simp_all add: leaf_def)
  have p: "?l \<noteq> 0" using leaf_pos [OF d(2,1)] .
  have "length (ancestors ?l) = unat d"
    using l assms(3) d(3) by (intro ancestors_level) simp_all
  moreover have "father ?l < ?n - 1"
    using father_bound [of ?l "?n - 1"] l assms(3) d(3) p by auto
  then have "q < ?n - 1" if "q \<in> set (ancestors ?l)" for q
    using that ancestors_less [of q "father ?l"] ancestors_step [OF p] by auto
  then have "list_all (\<lambda>p. p < unat (powordepth d - 1)) (ancestors ?l)" using d(4) by (simp add: list_all_iff)
  ultimately show ?thesis using last_ancestors [OF p] release_rec_eq [OF p] by simp
qed

theorem trnmnt_path_in_bounds_witness:
  "ancestors (leaf 3 5) = [5, 2, 0] \<and> list_all (\<lambda>p. p < unat (powordepth 3 - 1)) (ancestors (leaf 3 5)) \<and>
   release_rec (leaf 3 5) = [0, 2, 5]"
proof -
  have l: "leaf 3 5 = 12" by (simp add: leaf_def powordepth_eq)
  have a: "ancestors 12 = [5, 2, 0]" by (simp add: ancestors.simps father_def)
  show ?thesis using trnmnt_path_in_bounds [of 3 5] by (simp add: l a powordepth_eq)
qed

end
