(* ===== verification/Blockalloc.thy ===== *)
theory Blockalloc
  imports Inode
begin

text \<open>
  What the block allocator and the inode layer of \<^verbatim>\<open>fs.c\<close> do to the blocks of the disk inside a
  transaction. The lemmas rest on the interface \<open>tx_store\<close> of the log, through its interpretation
  \<open>tx\<close>: \<open>tx_ready A s\<close> says that the transaction of \<open>s\<close> has room for the blocks \<open>A\<close>, and \<open>tx_modify\<close> is
  the read-change-log-release idiom of \<^verbatim>\<open>fs.c\<close>.
\<close>

section \<open>Changing blocks in a transaction\<close>

definition tx_ready :: "uint32 set \<Rightarrow> kernel \<Rightarrow> bool" where
  "tx_ready A s \<longleftrightarrow> store_inv s \<and> tx_open s \<and> A \<inter> ran (vheld (store_view s)) = {} \<and>
     (\<forall>blk \<in> A. unat blk < disksize s) \<and> card (tx_pend s \<union> A) < tx_cap s \<and>
     card (ran (vheld (store_view s)) \<union> vdirty (store_view s) \<union> A) \<le> NBUF"

lemma finite_words [simp]: "finite (A :: uint32 set)"
  by (rule finite_subset [OF subset_UNIV]) simp

lemma tx_readyD:
  assumes "tx_ready A s" "blk \<in> A"
  shows "store_inv s" "tx_open s" "unat blk < disksize s" "unat blk < vsize (store_view s)"
    "blk \<notin> ran (vheld (store_view s))" "card (tx_pend s) < tx_cap s"
    "vroom (store_view s) \<or> blk \<in> vdirty (store_view s)"
proof -
  let ?H = "ran (vheld (store_view s))" and ?D = "vdirty (store_view s)"
  show *: "store_inv s" "tx_open s" "unat blk < disksize s" "blk \<notin> ?H"
    using assms unfolding tx_ready_def by blast+
  show "unat blk < vsize (store_view s)" using *(3) by simp
  have "card (tx_pend s) \<le> card (tx_pend s \<union> A)" by (intro card_mono) simp_all
  then show "card (tx_pend s) < tx_cap s" using assms(1) unfolding tx_ready_def by linarith
  show "vroom (store_view s) \<or> blk \<in> ?D"
  proof (cases "blk \<in> ?D")
    case False
    then have "?H \<union> ?D \<subset> ?H \<union> ?D \<union> A" using *(4) assms(2) by blast
    then have "card (?H \<union> ?D) < card (?H \<union> ?D \<union> A)" by (rule psubset_card_mono [rotated]) simp
    then show ?thesis using assms(1) unfolding tx_ready_def vroom_def by linarith
  qed simp
qed

lemma tx_ready_mono: "tx_ready B s \<Longrightarrow> A \<subseteq> B \<Longrightarrow> tx_ready A s"
proof -
  assume r: "tx_ready B s" and s: "A \<subseteq> B"
  let ?V = "ran (vheld (store_view s)) \<union> vdirty (store_view s)"
  have "card (tx_pend s \<union> A) \<le> card (tx_pend s \<union> B)" "card (?V \<union> A) \<le> card (?V \<union> B)"
    using s by (auto intro!: card_mono)
  then show ?thesis using r s unfolding tx_ready_def by (auto simp del: store_view_sel ran_store_view)
qed

lemma tx_frameD:
  assumes "tx_frame s s'"
  shows "sb s' = sb s" "icache s' = icache s" "disksize s' = disksize s" "held s' = held s"
proof -
  obtain h where "store_frame (upd_log (\<lambda>l. l\<lparr>lh := h\<rparr>) s) s'" using assms unfolding tx_frame_def by blast
  note f = store_frameD [OF this]
  show "sb s' = sb s" "icache s' = icache s" "disksize s' = disksize s" "held s' = held s"
    using f by (simp_all add: upd_log_def)
qed

lemma tx_ready_after:
  assumes "tx_ready A s" "blk \<in> A" "store_inv s'" "tx_open s'" "tx_frame s s'" "tx_pend s' = insert blk (tx_pend s)"
    "tx_cap s' = tx_cap s" "vheld (store_view s') = vheld (store_view s)"
    "vdirty (store_view s') = insert blk (vdirty (store_view s))"
  shows "tx_ready A s'"
proof -
  have "insert blk (tx_pend s) \<union> A = tx_pend s \<union> A"
    "ran (vheld (store_view s)) \<union> insert blk (vdirty (store_view s)) \<union> A =
     ran (vheld (store_view s)) \<union> vdirty (store_view s) \<union> A" using assms(2) by blast+
  then show ?thesis using assms(1,3-9) tx_frameD(3) [OF assms(5)] unfolding tx_ready_def
    by (simp del: store_view_sel ran_store_view)
qed

text \<open>The three ways \<^verbatim>\<open>fs.c\<close> uses a block: read it, change a block already read, read and change.\<close>

lemma tx_read:
  assumes "tx_ready A s" "blk \<in> A"
  shows "\<exists>b s'. bread 1 blk s e = Ok b s' e \<and> store_inv s' \<and> tx_open s' \<and> tx_frame s s' \<and>
    tx_pend s' = tx_pend s \<and> tx_cap s' = tx_cap s \<and> vheld (store_view s) b = None \<and>
    bdata (bufs s' ! b) = blk_data s blk \<and>
    store_view s' = (store_view s)\<lparr>vheld := (vheld (store_view s))(b := Some blk)\<rparr>"
proof -
  note r = tx_readyD [OF assms]
  obtain b s1 where 1: "bread 1 blk s e = Ok b s1 e" "store_inv s1" "store_frame s s1" "vheld (store_view s) b = None"
    "store_view s1 = (store_view s)\<lparr>vheld := (vheld (store_view s))(b := Some blk)\<rparr>"
    using bcache.rd_law [OF r(1,4,5,7)] by blast
  have "vheld (store_view s1) b = Some blk" "vdata (store_view s1) = vdata (store_view s)"
    unfolding 1(5) by simp_all
  then have "bdata (bufs s1 ! b) = blk_data s blk" using bcache.data_law [OF 1(2)] by (metis store_view_sel(2))
  then show ?thesis using 1 tx.frame_tx [OF 1(3) r(2)] by blast
qed

lemma tx_change:
  assumes "tx_ready A s" "blk \<in> A" "bread 1 blk s e = Ok b s1 e" "length x = BSIZE"
  shows "\<exists>s'. kseq (set_data b x) (kseq (log_write b) (brelse b)) s1 e = Ok () s' e \<and> tx_ready A s' \<and>
    tx_frame s s' \<and> blk_data s' = (blk_data s)(blk := x) \<and> vheld (store_view s') = vheld (store_view s)"
proof -
  note r = tx_readyD [OF assms(1,2)]
  have 1: "store_inv s1" "tx_open s1" "tx_frame s s1" "tx_pend s1 = tx_pend s" "tx_cap s1 = tx_cap s"
    "vheld (store_view s) b = None" "store_view s1 = (store_view s)\<lparr>vheld := (vheld (store_view s))(b := Some blk)\<rparr>"
    using tx_read [OF assms(1,2), of e] assms(3) by auto
  have h: "vheld (store_view s1) b = Some blk" unfolding 1(7) by simp
  have "card (tx_pend s1) < tx_cap s1" using r(6) 1(4,5) by simp
  from tx.modify_held [OF 1(1,2) h this assms(4), of e] obtain s2 where
    2: "kseq (set_data b x) (kseq (log_write b) (brelse b)) s1 e = Ok () s2 e" "store_inv s2" "tx_open s2"
      "tx_frame s1 s2" "tx_pend s2 = insert blk (tx_pend s1)" "tx_cap s2 = tx_cap s1"
      "store_view s2 = (v_set blk x (store_view s1))\<lparr>vdirty := insert blk (vdirty (store_view s1)),
         vheld := (vheld (store_view s1))(b := None)\<rparr>" by blast
  have v: "vdata (store_view s2) = (vdata (store_view s))(blk := x)" "vheld (store_view s2) = vheld (store_view s)"
    "vdirty (store_view s2) = insert blk (vdirty (store_view s))"
    unfolding 2(7) 1(7) using 1(6) by (simp_all add: v_set_def bcache.vheld_restore del: store_view_sel)
  have f: "tx_frame s s2" using 1(3) 2(4) tx_frame_trans by blast
  have "tx_ready A s2" using tx_ready_after [OF assms(1,2) 2(2,3) f] 2(5,6) 1(4,5) v by simp
  then show ?thesis using 2(1) f v(1,2) by (metis store_view_sel(2))
qed

lemma tx_modify:
  assumes "tx_ready A s" "blk \<in> A" "\<And>x. length x = BSIZE \<Longrightarrow> length (f x) = BSIZE"
  shows "\<exists>s'. kbind (bread 1 blk) (\<lambda>b. kbind (get_data b) (\<lambda>x.
      kseq (set_data b (f x)) (kseq (log_write b) (brelse b)))) s e = Ok () s' e \<and> tx_ready A s' \<and>
    tx_frame s s' \<and> blk_data s' = (blk_data s)(blk := f (blk_data s blk)) \<and>
    vheld (store_view s') = vheld (store_view s)"
proof -
  obtain b s1 where 1: "bread 1 blk s e = Ok b s1 e" "bdata (bufs s1 ! b) = blk_data s blk"
    using tx_read [OF assms(1,2), of e] by blast
  have "length (f (blk_data s blk)) = BSIZE"
    using assms(3) blk_data_length tx_readyD(1) [OF assms(1,2)] by blast
  from tx_change [OF assms(1,2) 1(1) this] show ?thesis
    using 1 by (simp add: get_data_def del: store_view_sel)
qed

section \<open>The block allocator\<close>

lemma kseq_assoc: "kseq (kseq a b) c = kseq a (kseq b c)"
  by (rule ext)+ (simp add: kseq_def kbind_def split: res.split)

lemma kseq_Ok_unit: "a s e = Ok () s1 e1 \<Longrightarrow> kseq a b s e = b s1 e1"
  by (simp add: kseq_def kbind_def)

lemma bzero_zeroes:
  assumes "tx_ready A s" "blk \<in> A"
  shows "\<exists>s'. bzero 1 blk s e = Ok () s' e \<and> tx_ready A s' \<and> tx_frame s s' \<and>
    blk_data s' = (blk_data s)(blk := replicate BSIZE 0) \<and> vheld (store_view s') = vheld (store_view s)"
  using tx_modify [OF assms, of "\<lambda>_. replicate BSIZE 0" e]
  by (simp add: bzero_def get_data_def kbind_def del: store_view_sel)

text \<open>The bitmap: \<open>bm_set\<close> and \<open>bm_clear\<close> change one bit.\<close>

lemma bm_used_bit: "bm_used x k \<longleftrightarrow> bit (x ! (k div 8)) (k mod 8)"
  by (simp add: bm_used_def and_exp_eq_0_iff_not_bit)

lemma length_bm [simp]: "length (bm_set k x) = length x" "length (bm_clear k x) = length x"
  by (simp_all add: bm_set_def bm_clear_def)

lemma bm_index: "k < BPB \<Longrightarrow> length x = BSIZE \<Longrightarrow> k div 8 < length x"
  by (simp add: BPB_def less_mult_imp_div_less)

lemma bm_used_set:
  assumes "k < BPB" "j < BPB" "length x = BSIZE"
  shows "bm_used (bm_set k x) j \<longleftrightarrow> j = k \<or> bm_used x j"
proof (cases "j div 8 = k div 8")
  case True
  then have "j = k \<longleftrightarrow> j mod 8 = k mod 8" by (metis div_mult_mod_eq)
  moreover have "j mod 8 < 8" by simp
  ultimately show ?thesis
    using True bm_index [OF assms(1,3)] by (auto simp: bm_used_bit bm_set_def bit_simps)
next
  case False
  then show ?thesis by (auto simp: bm_used_bit bm_set_def)
qed

lemma bm_clear_set:
  assumes "k < BPB" "length x = BSIZE" "\<not> bm_used x k"
  shows "bm_clear k (bm_set k x) = x"
proof -
  let ?w = "x ! (k div 8)" and ?m = "push_bit (k mod 8) 1 :: uchar"
  have "?w AND ?m = 0" using assms(3) by (simp add: bm_used_def)
  have "\<not> bit ?w (k mod 8)" using assms(3) by (simp add: bm_used_bit)
  then have "(?w OR ?m) AND NOT ?m = ?w" by (intro bit_word_eqI) (auto simp: bit_simps)
  then show ?thesis using bm_index [OF assms(1,2)] by (simp add: bm_set_def bm_clear_def)
qed

lemma bm_scan: "unat sz \<le> BPB \<Longrightarrow> takeWhile (\<lambda>bi. 0 + of_nat bi < sz) [0..<BPB] = [0..<unat (sz :: uint32)]"
proof -
  assume sz: "unat sz \<le> BPB"
  have lt: "of_nat k < sz \<longleftrightarrow> k < unat sz" if "k < BPB" for k
    using that unat_of_nat_addr [of k] by (simp add: word_less_nat_alt fs_defs)
  have "[0..<BPB] = [0..<unat sz] @ [unat sz..<BPB]"
    using sz by (metis le_add_diff_inverse upt_add_eq_append zero_le)
  moreover have "takeWhile (\<lambda>bi. 0 + of_nat bi < sz) [unat sz..<BPB] = []"
    using lt [of "unat sz"] by (auto simp: takeWhile_eq_Nil_iff)
  ultimately show ?thesis
    using lt sz takeWhile_append2 [of "[0..<unat sz]" "\<lambda>bi. 0 + of_nat bi < sz" "[unat sz..<BPB]"] by simp
qed

lemma bm_find_first:
  assumes "unat sz \<le> BPB" "k < unat sz" "\<not> bm_used x k" "\<And>j. j < k \<Longrightarrow> bm_used x j"
  shows "bm_find x 0 sz = Some k"
  unfolding bm_find_def bm_scan [OF assms(1)] find_Some_iff
  using assms(2-4) by (intro exI [of _ k]) simp

lemma bm_find_none:
  assumes "unat sz \<le> BPB" "\<And>j. j < unat sz \<Longrightarrow> bm_used x j"
  shows "bm_find x 0 sz = None"
  unfolding bm_find_def bm_scan [OF assms(1)] find_None_iff using assms(2) by auto

lemma kloop_result: "0 < n \<Longrightarrow> f x s e = Ok (Inr a) s' e' \<Longrightarrow> kloop n f x s e = Ok a s' e'"
  by (cases n) simp_all

lemma kloop_next: "0 < n \<Longrightarrow> f x s e = Ok (Inl y) s' e' \<Longrightarrow> kloop n f x s e = kloop (n - 1) f y s' e'"
  by (cases n) simp_all

lemma kloop_Panic: "0 < n \<Longrightarrow> f x s e = Panic m \<Longrightarrow> kloop n f x s e = Panic m"
  by (cases n) (simp_all add: kbind_def)

lemma balloc_eq:
  assumes sz: "unat (sb_size (sb s)) \<le> BPB" and k: "k < unat (sb_size (sb s))" "\<not> bm_used x k"
    "\<And>j. j < k \<Longrightarrow> bm_used x j"
    and x: "x = blk_data s B" "B = BBLOCK 0 (sb s)" "of_nat k \<noteq> B" and r: "tx_ready A s" "{B, of_nat k} \<subseteq> A"
  shows "\<exists>s'. balloc 1 s e = Ok (of_nat k) s' e \<and> tx_ready A s' \<and> tx_frame s s' \<and>
    blk_data s' = (blk_data s)(B := bm_set k x, of_nat k := replicate BSIZE 0) \<and>
    vheld (store_view s') = vheld (store_view s)"
proof -
  have B: "B \<in> A" "of_nat k \<in> A" using r(2) by simp_all
  obtain b s1 where 1: "bread 1 B s e = Ok b s1 e" "bdata (bufs s1 ! b) = x"
    using tx_read [OF r(1) B(1), of e] x(1) by blast
  have "length (bm_set k x) = BSIZE" using blk_data_length tx_readyD(1) [OF r(1) B(1)] x(1) by simp
  from tx_change [OF r(1) B(1) 1(1) this] obtain s2 where
    2: "kseq (set_data b (bm_set k x)) (kseq (log_write b) (brelse b)) s1 e = Ok () s2 e" "tx_ready A s2"
      "tx_frame s s2" "blk_data s2 = (blk_data s)(B := bm_set k x)" "vheld (store_view s2) = vheld (store_view s)" by blast
  obtain s3 where 3: "bzero 1 (of_nat k) s2 e = Ok () s3 e" "tx_ready A s3" "tx_frame s2 s3"
      "blk_data s3 = (blk_data s2)(of_nat k := replicate BSIZE 0)" "vheld (store_view s3) = vheld (store_view s2)"
    using bzero_zeroes [OF 2(2) B(2), of e] by blast
  have "0 < sb_size (sb s)" using k(1) by (simp add: word_less_nat_alt)
  moreover have "kseq (kseq (set_data b (bm_set k x)) (kseq (log_write b) (brelse b)))
      (kseq (bzero 1 (of_nat k)) (kret (Inr (of_nat k)))) s1 e = Ok (Inr (of_nat k)) s3 e"
    by (subst kseq_Ok_unit, rule 2(1), subst kseq_Ok_unit, rule 3(1)) simp
  ultimately have "balloc 1 s e = Ok (of_nat k) s3 e"
    using 1 bm_find_first [OF sz k] x(2) unfolding balloc_def
    by (intro kloop_result) (simp_all add: get_data_def kseq_assoc)
  moreover have "tx_frame s s3" using 2(3) 3(3) by (rule tx_frame_trans)
  ultimately show ?thesis using 2 3 by metis
qed

lemma unheld_clean:
  assumes inv: "store_inv s" and k: "k \<notin> ran (vheld (store_view s))"
  shows "vclean (store_view s) k"
proof (cases "\<exists>i < NBUF. bdev (bufs s ! i) = 1 \<and> blockno (bufs s ! i) = k")
  case True
  then obtain i where i: "i < NBUF" "bdev (bufs s ! i) = 1" "blockno (bufs s ! i) = k" by blast
  have bi: "bc_inv (bufs s)" using inv by (simp add: store_inv_def)
  have "refcnt (bufs s ! i) = 0" using k i(1,3) by auto
  moreover have "buf_ok s (bufs s ! i)" using inv i(1) by (simp add: store_inv_def)
  ultimately show ?thesis
    using i blk_data_at [OF bi i] by (auto simp: vclean_def buf_ok_def)
next
  case False
  then show ?thesis
    using inv blk_data_uncached [of s k] by (auto simp: vclean_def store_inv_def)
qed

lemma tx_peek:
  assumes "tx_ready A s" "blk \<in> A"
  shows "\<exists>s'. kbind (bread 1 blk) (\<lambda>b. kbind (kget (\<lambda>s. f (bdata (bufs s ! b)))) (\<lambda>x. kseq (brelse b) (kret x))) s e =
      Ok (f (blk_data s blk)) s' e \<and> tx_ready A s' \<and> tx_frame s s' \<and> blk_data s' = blk_data s \<and>
      vheld (store_view s') = vheld (store_view s)"
proof -
  note r = tx_readyD [OF assms]
  obtain s' where 1: "kbind (bread 1 blk) (\<lambda>b. kbind (kget (\<lambda>s. f (bdata (bufs s ! b)))) (\<lambda>x. kseq (brelse b) (kret x))) s e =
      Ok (f (vdata (store_view s) blk)) s' e" "store_inv s'" "store_frame s s'" "store_view s' = store_view s"
    using bcache.peek [OF r(1,4,5) unheld_clean [OF r(1,5)] r(7)] by blast
  note f = tx.frame_tx [OF 1(3) r(2)]
  have "tx_ready A s'"
    using assms(1) 1(2,4) f store_frameD(5) [OF 1(3)] unfolding tx_ready_def by (simp del: store_view_sel ran_store_view)
  then show ?thesis using 1 f by (metis store_view_sel(2))
qed

text \<open>Without a free block the allocator stops the machine.\<close>

lemma balloc_out_of_blocks:
  assumes sz: "unat (sb_size (sb s)) \<le> BPB" "0 < sb_size (sb s)" and r: "tx_ready {BBLOCK 0 (sb s)} s"
    and used: "\<And>j. j < unat (sb_size (sb s)) \<Longrightarrow> bm_used (blk_data s (BBLOCK 0 (sb s))) j"
  shows "balloc 1 s e = Panic ''balloc: out of blocks''"
proof -
  let ?B = "BBLOCK 0 (sb s)"
  obtain b s1 where 1: "bread 1 ?B s e = Ok b s1 e" "bdata (bufs s1 ! b) = blk_data s ?B" "tx_frame s s1"
    using tx_read [OF r, of ?B e] by auto
  obtain s2 where 2: "kbind (bread 1 ?B) (\<lambda>b. kbind (kget (\<lambda>s. bdata (bufs s ! b))) (\<lambda>x. kseq (brelse b) (kret x))) s e =
      Ok (blk_data s ?B) s2 e" "tx_frame s s2"
    using tx_peek [OF r, of ?B "\<lambda>x. x" e] by auto
  have "brelse b s1 e = Ok () s2 e"
    using 2(1) 1(1) by (simp add: kseq_def kbind_def split: res.splits)
  moreover have "\<not> of_nat BPB < sb_size (sb s)" using sz(1) by (simp add: word_less_nat_alt fs_defs)
  ultimately show ?thesis
    using 1 sz(2) bm_find_none [OF sz(1) used] tx_frameD(1) [OF 2(2)] unfolding balloc_def
    by (subst kloop_next [where y = "of_nat BPB" and s' = s2 and e' = e], simp_all add: get_data_def)
      (rule kloop_Panic, simp_all add: kpanic_def)
qed

lemma bfree_eq:
  assumes r: "tx_ready A s" "{1, B} \<subseteq> A" and B: "B = BBLOCK b (sb s)" "decode_sb (blk_data s 1) = sb s"
    and used: "bm_used (blk_data s B) (unat b mod BPB)"
  shows "\<exists>s'. bfree 1 b s e = Ok () s' e \<and> tx_ready A s' \<and> tx_frame s s' \<and>
    blk_data s' = (blk_data s)(B := bm_clear (unat b mod BPB) (blk_data s B)) \<and>
    vheld (store_view s') = vheld (store_view s)"
proof -
  have A: "1 \<in> A" "B \<in> A" using r(2) by simp_all
  obtain s1 where 1: "readsb 1 s e = Ok (sb s) s1 e" "tx_ready A s1" "tx_frame s s1" "blk_data s1 = blk_data s"
    "vheld (store_view s1) = vheld (store_view s)"
    using tx_peek [OF r(1) A(1), of decode_sb e] unfolding B(2) readsb_def by blast
  have sb: "s1\<lparr>sb := sb s\<rparr> = s1" using tx_frameD(1) [OF 1(3)] by (cases s1) simp
  obtain c s2 where 2: "bread 1 B s1 e = Ok c s2 e" "bdata (bufs s2 ! c) = blk_data s B"
    using tx_read [OF 1(2) A(2), of e] 1(4) by auto
  have "length (bm_clear (unat b mod BPB) (blk_data s B)) = BSIZE" using blk_data_length tx_readyD(1) [OF r(1) A(1)] by simp
  from tx_change [OF 1(2) A(2) 2(1) this] obtain s3 where
    3: "kseq (set_data c (bm_clear (unat b mod BPB) (blk_data s B))) (kseq (log_write c) (brelse c)) s2 e = Ok () s3 e"
      "tx_ready A s3" "tx_frame s1 s3" "blk_data s3 = (blk_data s1)(B := bm_clear (unat b mod BPB) (blk_data s B))"
      "vheld (store_view s3) = vheld (store_view s1)" by blast
  have "bfree 1 b s e = Ok () s3 e"
    unfolding bfree_def using 1(1) sb 2 3(1) used B(1) by (simp add: get_data_def Let_def)
  moreover have "tx_frame s s3" using 1(3) 3(3) by (rule tx_frame_trans)
  ultimately show ?thesis using 1 3 by metis
qed

section \<open>Inodes on the disk\<close>

lemma dinode_fits: "length x = BSIZE \<Longrightarrow> dinode_at n + 64 \<le> length x"
proof -
  assume x: "length x = BSIZE"
  have "unat n mod 8 < 8" by simp
  then show ?thesis by (simp add: dinode_at_def fs_defs x)
qed

lemma length_put_dinode [simp]: "length (put_dinode ip o' x) = length x"
  by (simp add: put_dinode_def put16_def put32_def)

definition same_dinode :: "inode \<Rightarrow> inode \<Rightarrow> bool" where
  "same_dinode a b \<longleftrightarrow> itype a = itype b \<and> imajor a = imajor b \<and> iminor a = iminor b \<and>
     inlink a = inlink b \<and> isize a = isize b \<and> iaddrs a = iaddrs b"

lemma length_put16_32 [simp]: "length (put16 x i v) = length x" "length (put32 x i u) = length x"
  by (simp_all add: put16_def put32_def)

lemma get_put_dinode:
  assumes "o' + 64 \<le> length x" "length (iaddrs ip) = NDIRECT + 1"
  shows "same_dinode (get_dinode (put_dinode ip o' x) o' y) ip"
  using assms
  by (simp add: same_dinode_def get_dinode_def put_dinode_def get_put_other get_put32s_other NDIRECT_def)

lemma get_put_dinode_other:
  assumes "o' + 64 \<le> k \<or> k + 64 \<le> o'" "length (iaddrs ip) = NDIRECT + 1"
  shows "get_dinode (put_dinode ip o' x) k y = get_dinode x k y"
proof -
  have "get32s (put_dinode ip o' x) (k + 12) (NDIRECT + 1) = get32s x (k + 12) (NDIRECT + 1)"
    using assms by (intro nth_equalityI)
      (auto simp: put_dinode_def get_put_other get_put32s_other NDIRECT_def)
  moreover have "get32 (put_dinode ip o' x) (k + 8) = get32 x (k + 8)"
    "get16 (put_dinode ip o' x) k = get16 x k" "get16 (put_dinode ip o' x) (k + 2) = get16 x (k + 2)"
    "get16 (put_dinode ip o' x) (k + 4) = get16 x (k + 4)" "get16 (put_dinode ip o' x) (k + 6) = get16 x (k + 6)"
    using assms by (auto simp: put_dinode_def get_put_other get_put32s_other NDIRECT_def)
  ultimately show ?thesis by (simp add: get_dinode_def)
qed

lemma dinode_apart: "dinode_at n \<noteq> dinode_at m \<Longrightarrow> dinode_at n + 64 \<le> dinode_at m \<or> dinode_at m + 64 \<le> dinode_at n"
  by (auto simp: dinode_at_def DINODE_SIZE_def)

lemma iupdate_eq:
  assumes r: "tx_ready A s" "B \<in> A" and ip: "ip = icache s ! i" "idev ip = 1" "B = IBLOCK (inum ip) (sb s)"
  shows "\<exists>s'. iupdate i s e = Ok () s' e \<and> tx_ready A s' \<and> tx_frame s s' \<and>
    blk_data s' = (blk_data s)(B := put_dinode ip (dinode_at (inum ip)) (blk_data s B)) \<and>
    vheld (store_view s') = vheld (store_view s)"
proof -
  obtain b s1 where 1: "bread 1 B s e = Ok b s1 e" "bdata (bufs s1 ! b) = blk_data s B" "tx_frame s s1"
    using tx_read [OF r, of e] by auto
  have "length (put_dinode ip (dinode_at (inum ip)) (blk_data s B)) = BSIZE"
    using blk_data_length tx_readyD(1) [OF r] by simp
  from tx_change [OF r 1(1) this] show ?thesis
    unfolding iupdate_def using 1 ip tx_frameD(2) [OF 1(3)] by (simp add: get_data_def del: store_view_sel)
qed

lemma upd_inode_store [simp]:
  "store_inv (upd_inode i f s) = store_inv s" "store_view (upd_inode i f s) = store_view s"
  "tx_open (upd_inode i f s) = tx_open s" "tx_pend (upd_inode i f s) = tx_pend s" "tx_cap (upd_inode i f s) = tx_cap s"
  "disksize (upd_inode i f s) = disksize s" "blk_data (upd_inode i f s) = blk_data s" "sb (upd_inode i f s) = sb s"
  "bufs (upd_inode i f s) = bufs s" "curproc (upd_inode i f s) = curproc s"
  by (simp_all add: upd_inode_def store_inv_def store_view_def tx_open_def tx_pend_def tx_cap_def blk_data_def
      buf_ok_def fun_eq_iff cong: if_cong option.case_cong)

lemma tx_ready_upd_inode [simp]: "tx_ready A (upd_inode i f s) = tx_ready A s"
  by (simp add: tx_ready_def)

lemma nth_upd_inode: "i < length (icache s) \<Longrightarrow> icache (upd_inode i f s) ! i = f (icache s ! i)"
  by (simp add: upd_inode_def)

lemma upd_inode_twice: "upd_inode i f (upd_inode i g s) = upd_inode i (\<lambda>x. f (g x)) s"
  by (simp add: upd_inode_def o_def)

text \<open>\<^verbatim>\<open>ilock\<close> of an inode that is not in memory yet.\<close>

lemma ilock_loads:
  assumes r: "tx_ready A s" "B \<in> A" and i: "i < length (icache s)" "jp = icache s ! i" "idev jp = 1"
    "B = IBLOCK (inum jp) (sb s)" "1 \<le> iref jp" "ivalid jp = 0" "slocked (ilk jp) = 0" "curproc s = Some p"
    and d: "d = get_dinode (blk_data s B) (dinode_at (inum jp)) jp" "itype d \<noteq> 0"
  shows "\<exists>s'. ilock (Some i) s e = Ok () s' e \<and>
    icache s' ! i = d\<lparr>ilk := \<lparr>slocked = 1, slpid = pid (ptable s ! p)\<rparr>, ivalid := 1\<rparr> \<and> blk_data s' = blk_data s"
proof -
  let ?l = "\<lparr>slocked = 1, slpid = pid (ptable s ! p)\<rparr>"
  let ?s = "upd_inode i (\<lambda>x. x\<lparr>ilk := (ilk x)\<lparr>slocked := 1, slpid := pid (ptable s ! p)\<rparr>\<rparr>) s"
  let ?x = "blk_data s B"
  have h: "held s = []" using tx_readyD(1) [OF r] by (simp add: store_inv_def)
  have a: "acquiresleep (InodeLk i) s e = Ok () ?s e"
    using acquiresleep_free [of "InodeLk i" s p e] h i by simp
  have rs: "tx_ready A ?s" using r(1) by simp
  obtain b s1 where 1: "bread 1 B ?s e = Ok b s1 e" "store_inv s1" "tx_open s1" "tx_frame ?s s1"
      "vheld (store_view ?s) b = None" "bdata (bufs s1 ! b) = ?x"
      "store_view s1 = (store_view ?s)\<lparr>vheld := (vheld (store_view ?s))(b := Some B)\<rparr>"
    using tx_read [OF rs r(2), of e] by auto
  let ?u = "upd_inode i (get_dinode ?x (dinode_at (inum jp))) s1"
  have ic: "icache s1 = icache ?s" using tx_frameD(2) [OF 1(4)] .
  have "vclean (store_view ?s) B" using unheld_clean tx_readyD(1,5) [OF rs r(2)] by blast
  then have v: "vheld (store_view ?u) b = Some B" "vclean (store_view ?u) B"
    unfolding upd_inode_store 1(7) by (simp_all add: vclean_def)
  obtain s2 where 2: "brelse b ?u e = Ok () s2 e" "store_frame ?u s2"
      "store_view s2 = (store_view ?u)\<lparr>vheld := (vheld (store_view ?u))(b := None)\<rparr>"
    using bcache.rel_law [OF _ v, of e] 1(2) by auto
  have ic2: "icache s2 = icache ?u" using store_frameD(6) [OF 2(2)] .
  have n: "icache ?s ! i = jp\<lparr>ilk := ?l\<rparr>" "length (icache s2) = length (icache s)"
    "icache s2 ! i = d\<lparr>ilk := ?l\<rparr>"
    using i ic ic2 d(1) by (simp_all add: upd_inode_def get_dinode_def)
  then have t: "itype (icache (upd_inode i (\<lambda>y. y\<lparr>ivalid := 1\<rparr>) s2) ! i) \<noteq> 0" using d(2) i(1) by (simp add: upd_inode_def)
  have "ilock (Some i) s e = Ok () (upd_inode i (\<lambda>y. y\<lparr>ivalid := 1\<rparr>) s2) e"
    unfolding ilock_def using a 1(1,6) 2(1) i n(1) t by (simp add: get_data_def kwhen_def)
  moreover have "blk_data s2 = blk_data s" using arg_cong [OF 2(3), of vdata] arg_cong [OF 1(7), of vdata] by simp
  moreover have "icache (upd_inode i (\<lambda>y. y\<lparr>ivalid := 1\<rparr>) s2) ! i = d\<lparr>ilk := ?l, ivalid := 1\<rparr>"
    using n i(1) by (simp add: nth_upd_inode)
  ultimately show ?thesis by (metis upd_inode_store(7))
qed

section \<open>Properties\<close>

lemma bblock_low: "k < BPB \<Longrightarrow> BBLOCK (of_nat k) b = BBLOCK 0 b"
proof -
  assume "k < BPB"
  then have "of_nat k div of_nat BPB = (0 :: uint32)"
    using unat_of_nat_addr [of k] by (simp add: word_unat_eq_iff unat_div fs_defs)
  then show ?thesis by (simp add: BBLOCK_def)
qed

lemma unat_low: "k < BPB \<Longrightarrow> unat (of_nat k :: uint32) = k"
  using unat_of_nat_addr [of k] by (simp add: fs_defs)

text \<open>
  C34. The block allocator on a file system one bitmap block covers, in a transaction with room for
  two more blocks: \<^verbatim>\<open>balloc\<close> returns the first free block, fills it with zeros, marks exactly that block
  in the bitmap, and changes no other block. The bitmap block itself is marked in use.
\<close>

theorem balloc_first_free:
  assumes "unat (sb_size (sb s)) \<le> BPB" "k < unat (sb_size (sb s))" "B = BBLOCK 0 (sb s)"
    and "\<not> bm_used (blk_data s B) k" "\<forall>j<k. bm_used (blk_data s B) j" "bm_used (blk_data s B) (unat B)"
    and "tx_ready {B, of_nat k} s"
  shows "\<exists>s'. balloc 1 s e = Ok (of_nat k) s' e \<and> tx_ready {B, of_nat k} s' \<and>
    blk_data s' (of_nat k) = replicate BSIZE 0 \<and>
    (\<forall>j<BPB. bm_used (blk_data s' B) j = (j = k \<or> bm_used (blk_data s B) j)) \<and>
    (\<forall>c. c \<notin> {B, of_nat k} \<longrightarrow> blk_data s' c = blk_data s c)"
proof -
  have k: "k < BPB" using assms(1,2) by simp
  have ne: "of_nat k \<noteq> B" using unat_low [OF k] assms(4,6) by auto
  have len: "length (blk_data s B) = BSIZE" using blk_data_length tx_readyD(1) [OF assms(7)] by blast
  obtain s' where "balloc 1 s e = Ok (of_nat k) s' e" "tx_ready {B, of_nat k} s'"
    "blk_data s' = (blk_data s)(B := bm_set k (blk_data s B), of_nat k := replicate BSIZE 0)"
    using balloc_eq [OF assms(1,2,4) _ refl assms(3) ne assms(7)] assms(5) by blast
  then show ?thesis using ne bm_used_set [OF k _ len] by (intro exI [of _ s']) simp
qed

text \<open>
  C35. Allocating a block and freeing it again restores the bitmap: the only block that differs
  afterwards is the one that was allocated, which is zero. The superblock is in block 1 of the disk.
\<close>

theorem balloc_bfree_roundtrip:
  assumes "unat (sb_size (sb s)) \<le> BPB" "k < unat (sb_size (sb s))" "B = BBLOCK 0 (sb s)" "B \<noteq> 1"
    and "\<not> bm_used (blk_data s B) k" "\<forall>j<k. bm_used (blk_data s B) j"
    and "bm_used (blk_data s B) (unat B)" "bm_used (blk_data s B) 1"
    and "decode_sb (blk_data s 1) = sb s" "tx_ready {1, B, of_nat k} s"
  shows "\<exists>b s1 s2. balloc 1 s e = Ok b s1 e \<and> bfree 1 b s1 e = Ok () s2 e \<and>
    blk_data s2 = (blk_data s)(b := replicate BSIZE 0)"
proof -
  let ?x = "blk_data s B"
  have k: "k < BPB" using assms(1,2) by simp
  have ne: "of_nat k \<noteq> B" "of_nat k \<noteq> (1 :: uint32)" using unat_low [OF k] assms(5,7,8) by auto
  have len: "length ?x = BSIZE" using blk_data_length tx_readyD(1) [OF assms(10)] by blast
  obtain s1 where 1: "balloc 1 s e = Ok (of_nat k) s1 e" "tx_ready {1, B, of_nat k} s1" "tx_frame s s1"
    "blk_data s1 = (blk_data s)(B := bm_set k ?x, of_nat k := replicate BSIZE 0)"
    using balloc_eq [OF assms(1,2,5) _ refl assms(3) ne(1) assms(10)] assms(6) by auto
  have d: "blk_data s1 1 = blk_data s 1" "blk_data s1 B = bm_set k ?x" using 1(4) ne assms(4) by auto
  have B: "B = BBLOCK (of_nat k) (sb s1)" using assms(3) bblock_low [OF k] tx_frameD(1) [OF 1(3)] by simp
  have u: "unat (of_nat k :: uint32) mod BPB = k" using unat_low [OF k] k by simp
  have "bm_used (blk_data s1 B) (unat (of_nat k :: uint32) mod BPB)" using bm_used_set [OF k k len] d u by simp
  then obtain s2 where 2: "bfree 1 (of_nat k) s1 e = Ok () s2 e" "blk_data s2 = (blk_data s1)(B := bm_clear k (bm_set k ?x))"
    using bfree_eq [OF 1(2) _ B, of e] d assms(9) tx_frameD(1) [OF 1(3)] u by auto
  have "blk_data s2 = (blk_data s)(of_nat k := replicate BSIZE 0)"
    using 2(2) 1(4) bm_clear_set [OF k len assms(5)] ne by auto
  then show ?thesis using 1(1) 2(1) by blast
qed

text \<open>
  C33. An inode written to the disk with \<^verbatim>\<open>iupdate\<close> is what \<^verbatim>\<open>ilock\<close> reads back into any slot of the
  inode cache that stands for the same inode and is not loaded yet; the other inodes of the block
  and all other blocks are as before.
\<close>

theorem iupdate_ilock_roundtrip:
  assumes "ip = icache s ! i" "idev ip = 1" "length (iaddrs ip) = NDIRECT + 1" "itype ip \<noteq> 0"
    and "B = IBLOCK (inum ip) (sb s)" "tx_ready {B} s" "curproc s = Some p"
    and "j < length (icache s)" "idev jp = 1" "inum jp = inum ip" "1 \<le> iref jp" "ivalid jp = 0" "slocked (ilk jp) = 0"
  shows "\<exists>s1 s2. iupdate i s e = Ok () s1 e \<and> ilock (Some j) (upd_inode j (\<lambda>_. jp) s1) e = Ok () s2 e \<and>
    same_dinode (icache s2 ! j) ip \<and> ivalid (icache s2 ! j) = 1 \<and>
    (\<forall>n y. dinode_at n \<noteq> dinode_at (inum ip) \<longrightarrow>
       get_dinode (blk_data s1 B) (dinode_at n) y = get_dinode (blk_data s B) (dinode_at n) y) \<and>
    (\<forall>c. c \<noteq> B \<longrightarrow> blk_data s1 c = blk_data s c)"
proof -
  let ?o = "dinode_at (inum ip)"
  obtain s1 where 1: "iupdate i s e = Ok () s1 e" "tx_ready {B} s1" "tx_frame s s1"
    "blk_data s1 = (blk_data s)(B := put_dinode ip ?o (blk_data s B))"
    using iupdate_eq [OF assms(6) _ assms(1,2,5), of e] by auto
  have len: "length (blk_data s B) = BSIZE" using blk_data_length tx_readyD(1) [OF assms(6)] by blast
  let ?t = "upd_inode j (\<lambda>_. jp) s1" and ?d = "get_dinode (blk_data s1 B) ?o jp"
  have sd: "same_dinode ?d ip" using get_put_dinode [OF dinode_fits [OF len] assms(3)] 1(4) by simp
  obtain h where "store_frame (upd_log (\<lambda>l. l\<lparr>lh := h\<rparr>) s) s1" using 1(3) unfolding tx_frame_def by blast
  then have cp: "curproc ?t = Some p" using store_frameD(3) assms(7) by (simp add: upd_log_def)
  have j: "j < length (icache ?t)" "jp = icache ?t ! j" "B = IBLOCK (inum jp) (sb ?t)"
    using assms(5,8,10) tx_frameD(1,2) [OF 1(3)] by (simp_all add: nth_upd_inode) (simp add: upd_inode_def)
  have t: "itype ?d \<noteq> 0" using sd assms(4) by (simp add: same_dinode_def)
  obtain s2 where "ilock (Some j) ?t e = Ok () s2 e"
    "icache s2 ! j = ?d\<lparr>ilk := \<lparr>slocked = 1, slpid = pid (ptable ?t ! p)\<rparr>, ivalid := 1\<rparr>"
    using ilock_loads [of "{B}" ?t B j jp p ?d e] 1(2) j assms(9-13) cp t by auto
  moreover have "same_dinode (?d\<lparr>ilk := l, ivalid := 1\<rparr>) ip" for l using sd by (simp add: same_dinode_def)
  moreover have "get_dinode (blk_data s1 B) (dinode_at n) y = get_dinode (blk_data s B) (dinode_at n) y"
    if "dinode_at n \<noteq> ?o" for n y
    using 1(4) get_put_dinode_other [OF _ assms(3)] dinode_apart [of n "inum ip"] that by auto
  ultimately show ?thesis using 1(1,4) by (intro exI [of _ s1] exI [of _ s2]) simp
qed

section \<open>A sample file system\<close>

text \<open>
  1000 blocks, the superblock in block 1, inodes from block 32 on, the bitmap in block 58. Blocks 0
  to 63 are in use. A transaction is open that has changed block 100.
\<close>

definition sample_sb :: superblock where
  "sample_sb = \<lparr>sb_size = 1000, sb_nblocks = 941, sb_ninodes = 200, sb_nlog = 30, sb_logstart = 2,
     sb_inodestart = 32, sb_bmapstart = 58\<rparr>"

definition sample_bits :: "uchar list" where
  "sample_bits = replicate 8 255 @ replicate (BSIZE - 8) 0"

definition sample_super :: "uchar list" where
  "sample_super = put32s (replicate BSIZE 0) 0 [1000, 941, 200, 30, 2, 32, 58]"

definition sample_inode :: inode where
  "sample_inode = inode0\<lparr>idev := 1, inum := 5, iref := 1, ivalid := 1, itype := T_FILE, inlink := 1, isize := 700,
     iaddrs := [70, 71] @ replicate 11 0\<rparr>"

definition sample_tx :: "buf list \<Rightarrow> kernel" where
  "sample_tx bs = (sample_disk bs)\<lparr>klog := sample_log\<lparr>outstanding := 1\<rparr>, sb := sample_sb,
     memdisk := (\<lambda>_. replicate BSIZE 0)(1 := sample_super, 58 := sample_bits),
     icache := sample_inode # replicate 49 inode0\<rparr>"

lemma sample_tx_sel [simp]:
  "bufs (sample_tx bs) = bs" "sb (sample_tx bs) = sample_sb" "disksize (sample_tx bs) = 1000" "held (sample_tx bs) = []"
  "memdisk (sample_tx bs) = (\<lambda>_. replicate BSIZE 0)(1 := sample_super, 58 := sample_bits)"
  "curproc (sample_tx bs) = Some 0" "ptable (sample_tx bs) = [sample_proc, proc0]"
  "klog (sample_tx bs) = sample_log\<lparr>outstanding := 1\<rparr>" "icache (sample_tx bs) = sample_inode # replicate 49 inode0"
  by (simp_all add: sample_tx_def)

lemma sample_bits_used: "k < BPB \<Longrightarrow> bm_used sample_bits k \<longleftrightarrow> k < 64"
proof -
  assume k: "k < BPB"
  have m: "k mod 8 < 8" by simp
  have "(255 :: uchar) = - 1" by simp
  then have b: "bit (255 :: uchar) (k mod 8)" using m by (simp only: bit_minus_1_iff) simp
  have d: "k div 8 < 8 \<longleftrightarrow> k < 64" by (simp add: div_less_iff_less_mult)
  have "k div 8 < BSIZE" using k by (simp add: BPB_def less_mult_imp_div_less)
  then have "sample_bits ! (k div 8) = (if k < 64 then 255 else 0)"
    using d by (simp add: sample_bits_def nth_append)
  then show ?thesis using b by (simp add: bm_used_bit)
qed

lemma decode_sample_super: "decode_sb sample_super = sample_sb"
proof -
  let ?v = "[1000, 941, 200, 30, 2, 32, 58] :: uint32 list"
  have "get32 sample_super (0 + 4 * k) = ?v ! k" if "k < 7" for k
    unfolding sample_super_def by (rule get32_put32s) (use that in \<open>simp_all add: BSIZE_def\<close>)
  from this [of 0] this [of 1] this [of 2] this [of 3] this [of 4] this [of 5] this [of 6]
  show ?thesis by (simp add: decode_sb_def sample_sb_def)
qed

lemma sample_tx_ready:
  assumes "bc_inv bs" "\<And>i. i < NBUF \<Longrightarrow> bdev (bs ! i) = 0 \<and> bflags (bs ! i) = 0 \<and> refcnt (bs ! i) = 0 \<and>
    length (bdata (bs ! i)) = BSIZE \<and> block (bs ! i) = \<lparr>slocked = 0, slpid = 0\<rparr>"
  shows "tx_ready {1, 32, 58, 64} (sample_tx bs)" "blk_data (sample_tx bs) blk = memdisk (sample_tx bs) (unat blk)"
proof -
  have "length sample_super = BSIZE" "length sample_bits = BSIZE" by (simp_all add: sample_super_def sample_bits_def BSIZE_def)
  then have inv: "store_inv (sample_tx bs)" using assms by (simp add: store_inv_def buf_ok_def)
  have v: "vheld (store_view (sample_tx bs)) = Map.empty" "vdirty (store_view (sample_tx bs)) = {}"
    using assms(2) by (auto simp: fun_eq_iff)
  have "logged (sample_log\<lparr>outstanding := 1\<rparr>) = [100]" by (simp add: logged_def sample_log_def)
  then show "tx_ready {1, 32, 58, 64} (sample_tx bs)"
    unfolding tx_ready_def v using inv
    by (simp add: tx_open_def tx_pend_def tx_cap_def) (simp add: sample_log_def LOGSIZE_def NBUF_def MAXOPBLOCKS_def)
  show "blk_data (sample_tx bs) blk = memdisk (sample_tx bs) (unat blk)"
    by (rule blk_data_uncached) (use assms in auto)
qed

lemma sample_tx_facts:
  obtains bs where "tx_ready {1, 32, 58, 64} (sample_tx bs)" "blk_data (sample_tx bs) 58 = sample_bits"
    "blk_data (sample_tx bs) 1 = sample_super"
proof -
  obtain bs where bs: "bc_inv bs" "\<And>i. i < NBUF \<Longrightarrow> bdev (bs ! i) = 0 \<and>
    bflags (bs ! i) = 0 \<and> refcnt (bs ! i) = 0 \<and> length (bdata (bs ! i)) = BSIZE \<and>
    block (bs ! i) = \<lparr>slocked = 0, slpid = 0\<rparr>" by (rule sample_fresh) blast
  note r = sample_tx_ready [OF bs]
  show thesis by (rule that [OF r(1)]) (simp_all add: r(2))
qed

lemma sample_layout: "unat (sb_size sample_sb) = 1000" "BBLOCK 0 sample_sb = 58" "IBLOCK 5 sample_sb = 32"
  by (simp_all add: sample_sb_def BBLOCK_def IBLOCK_def fs_defs)

lemma sample_bitmap:
  assumes "blk_data (sample_tx bs) 58 = sample_bits"
  shows "unat (sb_size (sb (sample_tx bs))) \<le> BPB" "64 < unat (sb_size (sb (sample_tx bs)))"
    "58 = BBLOCK 0 (sb (sample_tx bs))" "\<not> bm_used (blk_data (sample_tx bs) 58) 64"
    "\<forall>j<64. bm_used (blk_data (sample_tx bs) 58) j" "bm_used (blk_data (sample_tx bs) 58) (unat (58 :: uint32))"
    "bm_used (blk_data (sample_tx bs) 58) 1" "\<not> bm_used (blk_data (sample_tx bs) 58) 65"
proof -
  have "unat (58 :: uint32) = 58" "BPB = 4096" by (simp_all add: fs_defs)
  then show "unat (sb_size (sb (sample_tx bs))) \<le> BPB" "64 < unat (sb_size (sb (sample_tx bs)))"
    "58 = BBLOCK 0 (sb (sample_tx bs))" "\<not> bm_used (blk_data (sample_tx bs) 58) 64"
    "\<forall>j<64. bm_used (blk_data (sample_tx bs) 58) j" "bm_used (blk_data (sample_tx bs) 58) (unat (58 :: uint32))"
    "bm_used (blk_data (sample_tx bs) 58) 1" "\<not> bm_used (blk_data (sample_tx bs) 58) 65"
    using assms sample_bits_used by (simp_all add: sample_layout)
qed

theorem balloc_first_free_witness:
  "\<exists>s s'. balloc 1 s [] = Ok 64 s' [] \<and> blk_data s' 64 = replicate BSIZE 0 \<and> bm_used (blk_data s' 58) 64 \<and>
    \<not> bm_used (blk_data s' 58) 65"
proof -
  obtain bs where r: "tx_ready {1, 32, 58, 64} (sample_tx bs)" "blk_data (sample_tx bs) 58 = sample_bits"
    by (rule sample_tx_facts)
  note b = sample_bitmap [OF r(2)]
  have "tx_ready {58, of_nat 64} (sample_tx bs)" by (rule tx_ready_mono [OF r(1)]) simp
  from balloc_first_free [OF b(1-6) this, of "[]"] obtain s' where
    s: "balloc 1 (sample_tx bs) [] = Ok (of_nat 64) s' []" "blk_data s' (of_nat 64) = replicate BSIZE 0"
      "\<forall>j<BPB. bm_used (blk_data s' 58) j = (j = 64 \<or> bm_used (blk_data (sample_tx bs) 58) j)" by blast
  have "64 < BPB" "65 < BPB" by (simp_all add: fs_defs)
  then show ?thesis using s b(8) by (intro exI [of _ "sample_tx bs"] exI [of _ s']) simp
qed

theorem balloc_bfree_roundtrip_witness:
  "\<exists>s b s1 s2. balloc 1 s [] = Ok b s1 [] \<and> bfree 1 b s1 [] = Ok () s2 [] \<and>
    blk_data s2 = (blk_data s)(b := replicate BSIZE 0)"
proof -
  obtain bs where r: "tx_ready {1, 32, 58, 64} (sample_tx bs)" "blk_data (sample_tx bs) 58 = sample_bits"
    "blk_data (sample_tx bs) 1 = sample_super" by (rule sample_tx_facts)
  note b = sample_bitmap [OF r(2)]
  have t: "tx_ready {1, 58, of_nat 64} (sample_tx bs)" by (rule tx_ready_mono [OF r(1)]) simp
  have d: "decode_sb (blk_data (sample_tx bs) 1) = sb (sample_tx bs)" "(58 :: uint32) \<noteq> 1"
    using r(3) decode_sample_super by simp_all
  from balloc_bfree_roundtrip [OF b(1-3) d(2) b(4-7) d(1) t, of "[]"] show ?thesis by blast
qed

theorem iupdate_ilock_roundtrip_witness:
  "\<exists>s s1 s2. icache s ! 0 = sample_inode \<and> iupdate 0 s [] = Ok () s1 [] \<and>
    ilock (Some 1) (upd_inode 1 (\<lambda>_. inode0\<lparr>idev := 1, inum := 5, iref := 1\<rparr>) s1) [] = Ok () s2 [] \<and>
    isize (icache s2 ! 1) = 700 \<and> same_dinode (icache s2 ! 1) sample_inode"
proof -
  obtain bs where r: "tx_ready {1, 32, 58, 64} (sample_tx bs)" by (rule sample_tx_facts)
  have a: "tx_ready {32} (sample_tx bs)" by (rule tx_ready_mono [OF r(1)]) simp
  have i: "idev sample_inode = 1" "length (iaddrs sample_inode) = NDIRECT + 1" "itype sample_inode \<noteq> 0"
    "32 = IBLOCK (inum sample_inode) (sb (sample_tx bs))" "isize sample_inode = 700"
    by (simp_all add: sample_inode_def NDIRECT_def T_FILE_def sample_layout)
  have j: "idev (inode0\<lparr>idev := 1, inum := 5, iref := 1\<rparr>) = 1" "inum (inode0\<lparr>idev := 1, inum := 5, iref := 1\<rparr>) = inum sample_inode"
    "1 \<le> iref (inode0\<lparr>idev := 1, inum := 5, iref := 1\<rparr>)" "ivalid (inode0\<lparr>idev := 1, inum := 5, iref := 1\<rparr>) = 0"
    "slocked (ilk (inode0\<lparr>idev := 1, inum := 5, iref := 1\<rparr>)) = 0"
    by (simp_all add: inode0_def sample_inode_def)
  have s: "sample_inode = icache (sample_tx bs) ! 0" "curproc (sample_tx bs) = Some 0" "1 < length (icache (sample_tx bs))"
    by simp_all
  from iupdate_ilock_roundtrip [OF s(1) i(1-4) a s(2,3) j, of "[]"] obtain s1 s2 where
    u: "iupdate 0 (sample_tx bs) [] = Ok () s1 []" "same_dinode (icache s2 ! 1) sample_inode"
      "ilock (Some 1) (upd_inode 1 (\<lambda>_. inode0\<lparr>idev := 1, inum := 5, iref := 1\<rparr>) s1) [] = Ok () s2 []" by blast
  moreover have "isize (icache s2 ! 1) = 700" using u(2) i(5) unfolding same_dinode_def by simp
  ultimately show ?thesis using s(1) [symmetric] by blast
qed

end
