(* ===== verification/Kinv.thy ===== *)
theory Kinv
  imports Kstate
begin

text \<open>
  Routines that keep an invariant of the state, on every path and for every interference that keeps
  it: the rules for the combinators, in the collections \<open>ktab\<close> and \<open>ktab_bind\<close>.
\<close>

section \<open>Routines that keep an invariant\<close>

text \<open>
  \<open>kinv I m Q\<close>: started in a state with \<open>I\<close>, \<open>m\<close> ends in one however it ends, and a value it returns
  satisfies \<open>Q\<close>. The interference steps keep \<open>I\<close> by assumption.
\<close>

definition env_keeps :: "('s \<Rightarrow> bool) \<Rightarrow> 's env \<Rightarrow> bool" where
  "env_keeps I e \<longleftrightarrow> (\<forall>f \<in> set e. \<forall>s. I s \<longrightarrow> I (f s))"

fun res_keeps :: "('s \<Rightarrow> bool) \<Rightarrow> ('a \<Rightarrow> bool) \<Rightarrow> ('s, 'a) res \<Rightarrow> bool" where
  "res_keeps I Q (Ok r s e) \<longleftrightarrow> I s \<and> env_keeps I e \<and> Q r"
| "res_keeps I Q (Panic msg) \<longleftrightarrow> True"
| "res_keeps I Q (Dies s e) \<longleftrightarrow> I s \<and> env_keeps I e"
| "res_keeps I Q (Gone s) \<longleftrightarrow> I s"
| "res_keeps I Q (Blocked s) \<longleftrightarrow> I s"
| "res_keeps I Q (Spins s) \<longleftrightarrow> I s"

definition kinv :: "('s \<Rightarrow> bool) \<Rightarrow> ('s, 'a) kprog \<Rightarrow> ('a \<Rightarrow> bool) \<Rightarrow> bool" where
  "kinv I m Q \<longleftrightarrow> (\<forall>s e. I s \<longrightarrow> env_keeps I e \<longrightarrow> res_keeps I Q (m s e))"

abbreviation any :: "'a \<Rightarrow> bool" where
  "any \<equiv> \<lambda>_. True"

named_theorems ktab
named_theorems ktab_bind

lemma kinvI: "(\<And>s e. I s \<Longrightarrow> env_keeps I e \<Longrightarrow> res_keeps I Q (m s e)) \<Longrightarrow> kinv I m Q"
  by (simp add: kinv_def)

lemma kinvD: "kinv I m Q \<Longrightarrow> I s \<Longrightarrow> env_keeps I e \<Longrightarrow> res_keeps I Q (m s e)"
  by (simp add: kinv_def)

lemma res_keeps_mono: "res_keeps I P r \<Longrightarrow> (\<And>x. P x \<Longrightarrow> Q x) \<Longrightarrow> res_keeps I Q r"
  by (cases r) auto

lemma kinv_mono: "kinv I m P \<Longrightarrow> (\<And>x. P x \<Longrightarrow> Q x) \<Longrightarrow> kinv I m Q"
  using res_keeps_mono unfolding kinv_def by blast

lemma kinv_any: "kinv I m P \<Longrightarrow> kinv I m any"
  by (rule kinv_mono) simp_all

lemma kinv_kret [ktab]: "Q x \<Longrightarrow> kinv I (kret x) Q"
  by (simp add: kinv_def)

lemma kinv_kget [ktab]: "(\<And>s. I s \<Longrightarrow> Q (f s)) \<Longrightarrow> kinv I (kget f) Q"
  by (simp add: kinv_def)

lemma kinv_kpanic [ktab]: "kinv I (kpanic msg) Q"
  by (simp add: kinv_def)

lemma kinv_kmod [ktab]: "(\<And>s. I s \<Longrightarrow> I (f s)) \<Longrightarrow> Q () \<Longrightarrow> kinv I (kmod f) Q"
  by (simp add: kinv_def)

lemma kinv_kbind:
  assumes "kinv I m P" and "\<And>x. P x \<Longrightarrow> kinv I (f x) Q"
  shows "kinv I (kbind m f) Q"
proof (rule kinvI)
  fix s e assume a: "I s" "env_keeps I e"
  with assms(1) have m: "res_keeps I P (m s e)" by (rule kinvD)
  show "res_keeps I Q (kbind m f s e)"
  proof (cases "m s e")
    case (Ok x s' e')
    with m kinvD [OF assms(2) [of x]] show ?thesis by simp
  qed (use m in \<open>simp_all add: kbind_def\<close>)
qed

text \<open>Reading the state: what is read is a function of some state with the invariant.\<close>

lemma kinv_kbind_kget [ktab_bind]: "(\<And>s. I s \<Longrightarrow> kinv I (g (f s)) Q) \<Longrightarrow> kinv I (kbind (kget f) g) Q"
  by (simp add: kinv_def kbind_def)

lemma kinv_kbind_any [ktab]: "kinv I m any \<Longrightarrow> (\<And>x. kinv I (f x) Q) \<Longrightarrow> kinv I (kbind m f) Q"
  by (rule kinv_kbind)

lemma kinv_kseq [ktab]: "kinv I m any \<Longrightarrow> kinv I n Q \<Longrightarrow> kinv I (kseq m n) Q"
  unfolding kseq_def by (rule kinv_kbind)

lemma kinv_kwhen [ktab]: "(b \<Longrightarrow> kinv I m any) \<Longrightarrow> Q () \<Longrightarrow> kinv I (kwhen b m) Q"
  by (auto simp: kwhen_def intro: kinv_mono ktab)

lemma kinv_if [ktab]: "(b \<Longrightarrow> kinv I m Q) \<Longrightarrow> (\<not> b \<Longrightarrow> kinv I n Q) \<Longrightarrow> kinv I (if b then m else n) Q"
  by simp

lemma kinv_option [ktab]:
  "(x = None \<Longrightarrow> kinv I m Q) \<Longrightarrow> (\<And>y. x = Some y \<Longrightarrow> kinv I (f y) Q) \<Longrightarrow>
   kinv I (case x of None \<Rightarrow> m | Some y \<Rightarrow> f y) Q"
  by (cases x) simp_all

lemma kinv_sum [ktab]:
  "(\<And>y. x = Inl y \<Longrightarrow> kinv I (f y) Q) \<Longrightarrow> (\<And>y. x = Inr y \<Longrightarrow> kinv I (g y) Q) \<Longrightarrow>
   kinv I (case x of Inl y \<Rightarrow> f y | Inr y \<Rightarrow> g y) Q"
  by (cases x) simp_all

lemma kinv_prod [ktab]:
  "(\<And>a b. x = (a, b) \<Longrightarrow> kinv I (f a b) Q) \<Longrightarrow> kinv I (case x of (a, b) \<Rightarrow> f a b) Q"
  by (cases x) simp

lemma kinv_Let [ktab]: "kinv I (f x) Q \<Longrightarrow> kinv I (let y = x in f y) Q"
  by simp

lemma kinv_kfor [ktab]: "(\<And>x. x \<in> set xs \<Longrightarrow> kinv I (f x) any) \<Longrightarrow> Q () \<Longrightarrow> kinv I (kfor f xs) Q"
  by (induction xs) (auto intro: ktab)

text \<open>A loop: the variables of the next iteration are arbitrary, the result satisfies \<open>Q\<close>.\<close>

definition ends :: "('a \<Rightarrow> bool) \<Rightarrow> 'x + 'a \<Rightarrow> bool" where
  "ends Q r = (case r of Inl _ \<Rightarrow> True | Inr a \<Rightarrow> Q a)"

definition found :: "('a \<Rightarrow> bool) \<Rightarrow> 'a option \<Rightarrow> bool" where
  "found Q r = (case r of None \<Rightarrow> True | Some a \<Rightarrow> Q a)"

lemma ends_simps [simp]: "ends Q (Inl x)" "ends Q (Inr a) = Q a" "ends any = any"
  by (auto simp: ends_def fun_eq_iff split: sum.split)

lemma found_simps [simp]: "found Q None" "found Q (Some a) = Q a" "found any = any"
  by (auto simp: found_def fun_eq_iff split: option.split)

lemma found_map [simp]: "found Q (map_option f r) = found (\<lambda>x. Q (f x)) r"
  by (cases r) simp_all

lemma kinv_kloop_var:
  "(\<And>x. V x \<Longrightarrow> kinv I (f x) (\<lambda>r. case r of Inl y \<Rightarrow> V y | Inr a \<Rightarrow> Q a)) \<Longrightarrow> V x \<Longrightarrow> kinv I (kloop n f x) Q"
proof (induction n arbitrary: x)
  case 0
  show ?case by (simp add: kinv_def)
next
  case (Suc n)
  show ?case unfolding kloop.simps
    by (rule kinv_kbind [OF Suc.prems(1) [OF Suc.prems(2)]]) (auto intro: Suc ktab split: sum.splits)
qed

lemma kinv_kloop [ktab]: "(\<And>x. kinv I (f x) (ends Q)) \<Longrightarrow> kinv I (kloop n f x) Q"
  by (rule kinv_kloop_var [where V = any]) (simp_all add: ends_def [abs_def])

lemma kinv_kwait [ktab]:
  assumes "kinv I f (found Q)"
  shows "kinv I (kwait f) Q"
proof (rule kinvI)
  fix s e assume a: "I s" "env_keeps I e"
  let ?f = "\<lambda>_ :: unit. kbind f (\<lambda>r. case r of None \<Rightarrow> kret (Inl ()) | Some a \<Rightarrow> kret (Inr a))"
  have "kinv I (kloop (Suc (length e)) ?f ()) Q"
    by (rule kinv_kloop, rule kinv_kbind [OF assms]) (auto intro: ktab split: option.splits)
  from kinvD [OF this a] show "res_keeps I Q (kwait f s e)" by (simp only: kwait_def)
qed

lemma kinv_kspin [ktab]: "kinv I kspin any"
  by (auto simp: kinv_def kspin_def env_keeps_def split: list.split)

lemma kinv_deref [ktab]: "(\<And>x. p = Some x \<Longrightarrow> kinv I (f x) Q) \<Longrightarrow> kinv I (deref p f) Q"
  by (cases p) (auto intro: ktab)

end
