(* ===== verification/Tables.thy ===== *)
theory Tables
  imports Kinv Syscall Blockalloc
begin

text \<open>
  The type invariant of the kernel's global state: every table has the size its declaration gives
  it, and every index the state stores (the pointers of the code) is inside the table it points
  into. Every routine keeps it on every path, whatever the rest of the system does in between as
  long as that keeps it too.
\<close>

section \<open>The invariant\<close>

definition proc_ok :: "proc \<Rightarrow> bool" where
  "proc_ok p \<longleftrightarrow> length (ttable p) = NTHREAD \<and> length (ofile p) = NOFILE \<and>
     list_all (found (\<lambda>f. f < NFILE)) (ofile p) \<and> found (\<lambda>i. i < NINODE) (cwd p) \<and> found (\<lambda>q. q < NPROC) (pparent p)"

definition buf_wf :: "buf \<Rightarrow> bool" where
  "buf_wf b \<longleftrightarrow> length (bdata b) = BSIZE \<and> bprev b \<le> NBUF \<and> bnext b \<le> NBUF"

definition slot_ok :: "tptr \<Rightarrow> bool" where
  "slot_ok t \<longleftrightarrow> fst t < NPROC \<and> snd t < NTHREAD"

definition tables_ok :: "kernel \<Rightarrow> bool" where
  "tables_ok s \<longleftrightarrow>
     length (ptable s) = NPROC \<and> list_all proc_ok (ptable s) \<and>
     found (\<lambda>p. p < NPROC) (curproc s) \<and> found slot_ok (curthread s) \<and> found (\<lambda>p. p < NPROC) (initproc s) \<and>
     length (mtable s) = MAX_MUTEXES \<and> list_all (\<lambda>m. found slot_ok (mholding m)) (mtable s) \<and>
     length (bufs s) = Suc NBUF \<and> list_all buf_wf (bufs s) \<and> (\<forall>n. length (memdisk s n) = BSIZE) \<and>
     length (lh_block (lh (klog s))) = LOGSIZE \<and>
     length (icache s) = NINODE \<and> list_all (\<lambda>x. length (iaddrs x) = NDIRECT + 1) (icache s) \<and>
     length (ftable s) = NFILE \<and> list_all (\<lambda>f. found (\<lambda>i. i < NINODE) (fip f)) (ftable s) \<and>
     (\<forall>a. length (pdata (pipes s a)) = unat PIPESIZE) \<and>
     length (cbuf (input s)) = unat INPUT_BUF \<and> cga_ok (screen s) \<and> length (devsw s) = NDEV"

abbreviation ty :: "'a kern \<Rightarrow> ('a \<Rightarrow> bool) \<Rightarrow> bool" where
  "ty \<equiv> kinv tables_ok"

lemma tables_ok_same [simp]:
  "tables_ok (s\<lparr>mem := m\<rparr>) = tables_ok s" "tables_ok (s\<lparr>held := h\<rparr>) = tables_ok s"
  "tables_ok (s\<lparr>use_lock := u\<rparr>) = tables_ok s" "tables_ok (s\<lparr>freelist := a\<rparr>) = tables_ok s"
  "tables_ok (s\<lparr>kpgdir := a\<rparr>) = tables_ok s" "tables_ok (s\<lparr>cr3 := a\<rparr>) = tables_ok s"
  "tables_ok (s\<lparr>tss_esp0 := a\<rparr>) = tables_ok s" "tables_ok (s\<lparr>nextpid := u\<rparr>) = tables_ok s"
  "tables_ok (s\<lparr>nexttid := u\<rparr>) = tables_ok s" "tables_ok (s\<lparr>first := u\<rparr>) = tables_ok s"
  "tables_ok (s\<lparr>nextmid := u\<rparr>) = tables_ok s" "tables_ok (s\<lparr>ticks := u\<rparr>) = tables_ok s"
  "tables_ok (s\<lparr>dwrites := w\<rparr>) = tables_ok s"
  "tables_ok (s\<lparr>sb := b\<rparr>) = tables_ok s" "tables_ok (s\<lparr>cons_locking := u\<rparr>) = tables_ok s"
  "tables_ok (s\<lparr>uart := u\<rparr>) = tables_ok s" "tables_ok (s\<lparr>cons_out := c\<rparr>) = tables_ok s"
  "tables_ok (s\<lparr>kbd_shift := u\<rparr>) = tables_ok s"
  by (simp_all add: tables_ok_def)

lemma list_all_upd_nth: "list_all P xs \<Longrightarrow> (\<And>x. P x \<Longrightarrow> P (f x)) \<Longrightarrow> list_all P (upd_nth i f xs)"
  by (cases "i < length xs") (auto simp: upd_nth_def list_all_length nth_list_update)

lemma tables_ok_upd_proc: "tables_ok s \<Longrightarrow> (\<And>p. proc_ok p \<Longrightarrow> proc_ok (f p)) \<Longrightarrow> tables_ok (upd_proc q f s)"
  by (simp add: tables_ok_def upd_proc_def list_all_upd_nth)

lemma tables_ok_upd_thread: "tables_ok s \<Longrightarrow> tables_ok (upd_thread t f s)"
  unfolding upd_thread_def by (rule tables_ok_upd_proc) (simp_all add: proc_ok_def)

lemma tables_ok_upd_mutex:
  "tables_ok s \<Longrightarrow> (\<And>m. found slot_ok (mholding m) \<Longrightarrow> found slot_ok (mholding (f m))) \<Longrightarrow> tables_ok (upd_mutex i f s)"
  by (simp add: tables_ok_def upd_mutex_def list_all_upd_nth)

lemma tables_ok_upd_buf: "tables_ok s \<Longrightarrow> (\<And>b. buf_wf b \<Longrightarrow> buf_wf (f b)) \<Longrightarrow> tables_ok (upd_buf i f s)"
  by (simp add: tables_ok_def upd_buf_def list_all_upd_nth)

lemma tables_ok_memdisk: "tables_ok s \<Longrightarrow> length x = BSIZE \<Longrightarrow> tables_ok (s\<lparr>memdisk := (memdisk s)(n := x)\<rparr>)"
  by (simp add: tables_ok_def)

lemma tables_ok_upd_inode:
  "tables_ok s \<Longrightarrow> (\<And>x. length (iaddrs x) = NDIRECT + 1 \<Longrightarrow> length (iaddrs (f x)) = NDIRECT + 1) \<Longrightarrow>
   tables_ok (upd_inode i f s)"
  by (simp add: tables_ok_def upd_inode_def list_all_upd_nth)

lemma tables_ok_upd_file:
  "tables_ok s \<Longrightarrow> (\<And>x. found (\<lambda>i. i < NINODE) (fip x) \<Longrightarrow> found (\<lambda>i. i < NINODE) (fip (f x))) \<Longrightarrow>
   tables_ok (upd_file i f s)"
  by (simp add: tables_ok_def upd_file_def list_all_upd_nth)

lemma tables_ok_upd_pipe:
  "tables_ok s \<Longrightarrow> (\<And>x. length (pdata x) = unat PIPESIZE \<Longrightarrow> length (pdata (f x)) = unat PIPESIZE) \<Longrightarrow> tables_ok (upd_pipe a f s)"
  by (simp add: tables_ok_def upd_pipe_def)

lemma tables_ok_map_procs:
  "tables_ok s \<Longrightarrow> (\<And>p. proc_ok p \<Longrightarrow> proc_ok (f p)) \<Longrightarrow> tables_ok (s\<lparr>ptable := map f (ptable s)\<rparr>)"
  by (simp add: tables_ok_def list_all_iff)

lemma wake_proc_fields [simp]:
  "length (ttable (wake_proc ch p)) = length (ttable p)" "ofile (wake_proc ch p) = ofile p" "cwd (wake_proc ch p) = cwd p"
  "pparent (wake_proc ch p) = pparent p"
  by (simp_all add: wake_proc_def)

lemma tables_ok_upd_sl: "tables_ok s \<Longrightarrow> tables_ok (upd_sl l f s)"
  by (cases l) (auto simp: buf_wf_def intro!: tables_ok_upd_buf tables_ok_upd_inode)

lemma tables_ok_bufs:
  "tables_ok s \<Longrightarrow> length x = length (bufs s) \<Longrightarrow> list_all buf_wf x \<Longrightarrow> tables_ok (s\<lparr>bufs := x\<rparr>)"
  by (simp add: tables_ok_def)

lemma tables_ok_upd_log:
  "tables_ok s \<Longrightarrow> (\<And>l. length (lh_block (lh l)) = LOGSIZE \<Longrightarrow> length (lh_block (lh (f l))) = LOGSIZE) \<Longrightarrow>
   tables_ok (upd_log f s)"
  by (simp add: tables_ok_def upd_log_def)

lemma tables_ok_upd_lh:
  "tables_ok s \<Longrightarrow> (\<And>h. length (lh_block h) = LOGSIZE \<Longrightarrow> length (lh_block (f h)) = LOGSIZE) \<Longrightarrow>
   tables_ok (upd_lh f s)"
  unfolding upd_lh_def by (rule tables_ok_upd_log) simp_all

lemma cgaputc_ok: "cgaputc c g = Some g' \<Longrightarrow> cga_ok g \<Longrightarrow> cga_ok g'"
  using cga_put_bounds [of g c] cga_scroll_bounds [of "cga_put c g"]
  by (auto simp: cgaputc_def Let_def cga_ok_def split: if_splits)

lemma tables_ok_screen:
  "tables_ok s \<Longrightarrow> cgaputc c (screen t) = Some g \<Longrightarrow> tables_ok t \<Longrightarrow> tables_ok (s\<lparr>screen := g\<rparr>)"
  using cgaputc_ok by (simp add: tables_ok_def)

lemma length_relink [simp]: "length (push_front b bs) = length bs" "length (unlink_buf b bs) = length bs"
  by (simp_all add: push_front_def unlink_buf_def set_next_def set_prev_def Let_def)

text \<open>The links of the buffer list stay inside the array.\<close>

lemma wf_set_link:
  "list_all buf_wf bs \<Longrightarrow> v \<le> NBUF \<Longrightarrow> list_all buf_wf (set_next b v bs)"
  "list_all buf_wf bs \<Longrightarrow> v \<le> NBUF \<Longrightarrow> list_all buf_wf (set_prev b v bs)"
  by (auto simp: set_next_def set_prev_def buf_wf_def intro: list_all_upd_nth)

lemma length_set_link [simp]: "length (set_next b v bs) = length bs" "length (set_prev b v bs) = length bs"
  by (simp_all add: set_next_def set_prev_def)

lemma wf_nth: "list_all buf_wf bs \<Longrightarrow> length bs = Suc NBUF \<Longrightarrow> b \<le> NBUF \<Longrightarrow> buf_wf (bs ! b)"
  by (simp add: list_all_length)

lemma wf_links: "list_all buf_wf bs \<Longrightarrow> length bs = Suc NBUF \<Longrightarrow> b \<le> NBUF \<Longrightarrow> bnext (bs ! b) \<le> NBUF \<and> bprev (bs ! b) \<le> NBUF"
  using wf_nth [of bs b] by (simp add: buf_wf_def)

lemma wf_relink:
  "list_all buf_wf bs \<Longrightarrow> length bs = Suc NBUF \<Longrightarrow> b \<le> NBUF \<Longrightarrow> list_all buf_wf (push_front b bs)"
  "list_all buf_wf bs \<Longrightarrow> length bs = Suc NBUF \<Longrightarrow> b \<le> NBUF \<Longrightarrow> list_all buf_wf (unlink_buf b bs)"
  by (simp_all add: push_front_def unlink_buf_def Let_def wf_set_link wf_links)

lemma bscan_bound:
  assumes "list_all buf_wf bs" "length bs = Suc NBUF" "\<And>c. c \<le> NBUF \<Longrightarrow> nx (bs ! c) \<le> NBUF" "b \<le> NBUF"
  shows "bscan k nx P bs b = Some c \<Longrightarrow> c \<le> NBUF"
  using assms(4)
proof (induction k arbitrary: b)
  case (Suc k)
  then show ?case using assms(3) by (auto split: if_splits)
qed simp

lemma tables_bufs: "tables_ok s \<Longrightarrow> length (bufs s) = Suc NBUF" "tables_ok s \<Longrightarrow> list_all buf_wf (bufs s)"
  by (simp_all add: tables_ok_def)

lemma found_buf:
  "find_cached dev blk (bufs s) = Some b \<Longrightarrow> tables_ok s \<Longrightarrow> b \<le> NBUF"
  "find_unused (bufs s) = Some c \<Longrightarrow> tables_ok s \<Longrightarrow> c \<le> NBUF"
  using bscan_bound [of "bufs s" bnext] bscan_bound [of "bufs s" bprev] tables_bufs [of s] wf_links [of "bufs s"]
  unfolding find_cached_def find_unused_def by blast+

lemma tables_bdata: "tables_ok s \<Longrightarrow> b \<le> NBUF \<Longrightarrow> length (bdata (bufs s ! b)) = BSIZE"
  using wf_nth tables_bufs by (simp add: buf_wf_def)

lemma tables_disk: "tables_ok s \<Longrightarrow> length (memdisk s n) = BSIZE"
  by (simp add: tables_ok_def)

lemma dinode_room: "dinode_at n + DINODE_SIZE \<le> BSIZE"
  using dinode_fits [of "replicate BSIZE 0" n] by (simp add: DINODE_SIZE_def)

lemma chunk_fits: "k \<le> unat (chunk n tot off) \<Longrightarrow> unat (off mod of_nat BSIZE) + k \<le> BSIZE"
proof -
  assume k: "k \<le> unat (chunk n tot off)"
  have m: "off mod of_nat BSIZE < of_nat BSIZE" by (rule word_mod_less_divisor) (simp add: BSIZE_def)
  have "unat (chunk n tot off) \<le> unat (of_nat BSIZE - off mod of_nat BSIZE)"
    by (simp add: chunk_def word_le_nat_alt min_def)
  also have "\<dots> = BSIZE - unat (off mod of_nat BSIZE)"
    using unat_sub [OF less_imp_le [OF m]] by (simp add: BSIZE_def)
  finally show ?thesis using k m by (simp add: word_less_nat_alt BSIZE_def)
qed

text \<open>A check of an array index that the code leaves out: the routine goes on only when it holds.\<close>

lemma ty_kbounds_bind [ktab_bind]: "(b \<Longrightarrow> ty m Q) \<Longrightarrow> ty (kseq (kbounds b) m) Q"
  by (cases b) (auto simp: kinv_def kbounds_def kseq_def kbind_def)

lemma tables_ok_input: "tables_ok s \<Longrightarrow> length (cbuf x) = length (cbuf (input s)) \<Longrightarrow> tables_ok (s\<lparr>input := x\<rparr>)"
  by (simp add: tables_ok_def)

lemma tables_ok_upd_input: "tables_ok s \<Longrightarrow> (\<And>b. length (cbuf (f b)) = length (cbuf b)) \<Longrightarrow> tables_ok (upd_input f s)"
  unfolding upd_input_def by (rule tables_ok_input) simp_all

lemma tables_ok_devsw: "tables_ok s \<Longrightarrow> length x = length (devsw s) \<Longrightarrow> tables_ok (s\<lparr>devsw := x\<rparr>)"
  by (simp add: tables_ok_def)

lemma tables_ok_initproc: "tables_ok s \<Longrightarrow> p < NPROC \<Longrightarrow> tables_ok (s\<lparr>initproc := Some p\<rparr>)"
  by (simp add: tables_ok_def)

lemma initproc_ok: "tables_ok s \<Longrightarrow> found (\<lambda>p. p < NPROC) (initproc s)"
  by (simp add: tables_ok_def)

lemma list_all_update: "list_all P xs \<Longrightarrow> P v \<Longrightarrow> list_all P (xs[i := v])"
  by (auto simp: list_all_iff dest: subsetD [OF set_update_subset_insert])

lemmas ktab_upd = tables_ok_memdisk tables_ok_initproc tables_ok_upd_input tables_ok_input tables_ok_devsw tables_ok_screen tables_ok_upd_log tables_ok_upd_lh tables_ok_upd_sl tables_ok_bufs tables_ok_map_procs tables_ok_upd_proc tables_ok_upd_thread tables_ok_upd_mutex tables_ok_upd_buf
  tables_ok_upd_inode tables_ok_upd_file tables_ok_upd_pipe

text \<open>Indices that come out of the tables.\<close>

lemma ktab_idx:
  "find_idx P (ptable s) = Some i \<Longrightarrow> tables_ok s \<Longrightarrow> i < NPROC"
  "find_idx P2 (icache s) = Some i \<Longrightarrow> tables_ok s \<Longrightarrow> i < NINODE"
  "find_idx P3 (ftable s) = Some i \<Longrightarrow> tables_ok s \<Longrightarrow> i < NFILE"
  by (auto simp: tables_ok_def dest: find_idx_lt)

lemma ktab_proc: "tables_ok s \<Longrightarrow> p < NPROC \<Longrightarrow> proc_ok (ptable s ! p)"
  by (simp add: tables_ok_def list_all_length)

lemma ktab_ofile: "ofile (ptable s ! p) ! fd = Some f \<Longrightarrow> tables_ok s \<Longrightarrow> p < NPROC \<Longrightarrow> fd < NOFILE \<Longrightarrow> f < NFILE"
  using ktab_proc [of s p] by (auto simp: proc_ok_def list_all_length dest!: spec [of _ fd])

lemma ktab_cwd: "cwd (ptable s ! p) = Some d \<Longrightarrow> tables_ok s \<Longrightarrow> p < NPROC \<Longrightarrow> d < NINODE"
  using ktab_proc [of s p] by (simp add: proc_ok_def)

lemma ktab_fd:
  assumes "ofile (ptable s ! p) ! unat w = Some f" "tables_ok s" "p < NPROC" "\<not> (sint w < 0 \<or> int NOFILE \<le> sint (w :: uint32))"
  shows "unat w < NOFILE \<and> f < NFILE"
proof -
  have "int (unat w) = sint w" using abs_sint [of w] assms(4) by simp
  then have "unat w < NOFILE" using assms(4) by linarith
  then show ?thesis using ktab_ofile [OF assms(1-3)] by blast
qed

lemmas ktab_ptr = found_buf ktab_fd ktab_idx ktab_ofile ktab_cwd

end
