(* ===== verification/Typing.thy ===== *)
theory Typing
  imports Tables
begin

text \<open>
  Every routine of the kernel keeps the type invariant \<open>tables_ok\<close>, component by component. A routine
  that returns an index returns one inside its table; a routine that stores an index it was passed
  has that as its premise.
\<close>

lemmas tab_simps = proc_ok_def buf_wf_def wf_set_link wf_relink tables_bufs tables_bdata tables_disk
  dinode_room chunk_fits encode_head_def initproc_ok list_all_update pipe_push_def pipe_pop_def
  file_read_end_def file_write_end_def open_file_def mutex_op_defs get_dinode_def

section \<open>The state and its locks\<close>

lemma ty_myproc [ktab_bind]: "(\<And>r. found (\<lambda>p. p < NPROC) r \<Longrightarrow> ty (f r) Q) \<Longrightarrow> ty (kbind myproc f) Q"
  unfolding myproc_def by (rule kinv_kbind_kget) (simp add: tables_ok_def)

lemma ty_mythread [ktab_bind]: "(\<And>r. found slot_ok r \<Longrightarrow> ty (f r) Q) \<Longrightarrow> ty (kbind mythread f) Q"
  unfolding mythread_def by (rule kinv_kbind_kget) (simp add: tables_ok_def)

lemma ty_lk_acquire [ktab]: "ty (lk_acquire l) any"
  unfolding lk_acquire_def by (rule ktab_bind | rule ktab | rule ktab_upd | assumption | erule (1) ktab_ptr | simp add: tab_simps)+

lemma ty_lk_release [ktab]: "ty (lk_release l) any"
  unfolding lk_release_def by (rule ktab_bind | rule ktab | rule ktab_upd | assumption | erule (1) ktab_ptr | simp add: tab_simps)+

lemma ty_mstore32 [ktab]: "ty (mstore32 a v) any"
  unfolding mstore32_def by (rule ktab_bind | rule ktab | rule ktab_upd | assumption | erule (1) ktab_ptr | simp add: tab_simps)+

lemma ty_mmod [ktab]: "ty (mmod f) any"
  unfolding mmod_def by (rule ktab_bind | rule ktab | rule ktab_upd | assumption | erule (1) ktab_ptr | simp add: tab_simps)+

section \<open>Pages\<close>

lemma ty_kmem_lock [ktab]: "ty kmem_lock any" "ty kmem_unlock any"
  unfolding kmem_lock_def kmem_unlock_def by (rule ktab_bind | rule ktab | rule ktab_upd | assumption | erule (1) ktab_ptr | simp add: tab_simps)+

lemma ty_kfree [ktab]: "ty (kfree v) any"
  unfolding kfree_def by (rule ktab_bind | rule ktab | rule ktab_upd | assumption | erule (1) ktab_ptr | simp add: tab_simps)+

lemma ty_kalloc [ktab]: "ty kalloc any"
  unfolding kalloc_def by (rule ktab_bind | rule ktab | rule ktab_upd | assumption | erule (1) ktab_ptr | simp add: tab_simps)+

section \<open>Address spaces\<close>

lemma ty_kload8 [ktab]: "ty (kload8 va) any"
  unfolding kload8_def by (rule ktab_bind | rule ktab | rule ktab_upd | assumption | erule (1) ktab_ptr | simp add: tab_simps)+

lemma ty_kstore8 [ktab]: "ty (kstore8 va v) any"
  unfolding kstore8_def by (rule ktab_bind | rule ktab | rule ktab_upd | assumption | erule (1) ktab_ptr | simp add: tab_simps)+

lemma ty_kload32 [ktab]: "ty (kload32 va) any"
  unfolding kload32_def by (rule ktab_bind | rule ktab | rule ktab_upd | assumption | erule (1) ktab_ptr | simp add: tab_simps)+

lemma ty_kstore32 [ktab]: "ty (kstore32 va v) any"
  unfolding kstore32_def by (rule ktab_bind | rule ktab | rule ktab_upd | assumption | erule (1) ktab_ptr | simp add: tab_simps)+

lemma ty_kload_bytes: "ty (kload_bytes va k) (\<lambda>bs. length bs = k)"
proof (induction k arbitrary: va)
  case (Suc k)
  show ?case unfolding kload_bytes.simps by (rule kinv_kbind_any ktab kinv_kbind [OF Suc.IH] | simp)+
qed (unfold kload_bytes.simps, rule ktab, simp)

lemmas ty_kload_bytes_rules [ktab] = ty_kload_bytes ty_kload_bytes [THEN kinv_any]
lemmas ty_kload_bytes_bind [ktab_bind] = kinv_kbind [OF ty_kload_bytes]

lemma ty_kstore_bytes [ktab]: "ty (kstore_bytes va bs) any"
proof (induction bs arbitrary: va)
  case (Cons b bs)
  show ?case unfolding kstore_bytes.simps by (rule ktab Cons.IH | simp)+
qed (simp add: kinv_kret)

lemma ty_walkpgdir [ktab]: "ty (walkpgdir pd va alloc) any"
  unfolding walkpgdir_def by (rule ktab_bind | rule ktab | rule ktab_upd | assumption | erule (1) ktab_ptr | simp add: tab_simps)+

lemma ty_mappages [ktab]: "ty (mappages pd va sz pa perm) any"
  unfolding mappages_def by (rule ktab_bind | rule ktab | rule ktab_upd | assumption | erule (1) ktab_ptr | simp add: tab_simps)+

lemma ty_deallocuvm [ktab]: "ty (deallocuvm pd oldsz newsz) any"
  unfolding deallocuvm_def by (rule ktab_bind | rule ktab | rule ktab_upd | assumption | erule (1) ktab_ptr | simp add: tab_simps)+

lemma ty_freevm [ktab]: "ty (freevm pd) any"
  unfolding freevm_def by (rule ktab_bind | rule ktab | rule ktab_upd | assumption | erule (1) ktab_ptr | simp add: tab_simps)+

lemma ty_map_all [ktab]: "ty (map_all pd ks) any"
proof (induction ks)
  case (Cons k ks)
  show ?case unfolding map_all.simps by (rule ktab Cons.IH | simp)+
qed (unfold map_all.simps, rule ktab, simp)

lemma ty_setupkvm [ktab]: "ty setupkvm any"
  unfolding setupkvm_def by (rule ktab_bind | rule ktab | rule ktab_upd | assumption | erule (1) ktab_ptr | simp add: tab_simps)+

lemma ty_switchuvm [ktab]: "ty (switchuvm t p) any"
  unfolding switchuvm_def by (rule ktab_bind | rule ktab | rule ktab_upd | assumption | erule (1) ktab_ptr | simp add: tab_simps)+

lemma ty_inituvm [ktab]: "ty (inituvm pd init) any"
  unfolding inituvm_def by (rule ktab_bind | rule ktab | rule ktab_upd | assumption | erule (1) ktab_ptr | simp add: tab_simps)+

lemma ty_allocuvm [ktab]: "ty (allocuvm pd oldsz newsz) any"
  unfolding allocuvm_def by (rule ktab_bind | rule ktab | rule ktab_upd | assumption | erule (1) ktab_ptr | simp add: tab_simps)+

lemma ty_clearpteu [ktab]: "ty (clearpteu pd uva) any"
  unfolding clearpteu_def by (rule ktab_bind | rule ktab | rule ktab_upd | assumption | erule (1) ktab_ptr | simp add: tab_simps)+

lemma ty_copyuvm [ktab]: "ty (copyuvm pd sz) any"
  unfolding copyuvm_def by (rule ktab_bind | rule ktab | rule ktab_upd | assumption | erule (1) ktab_ptr | simp add: tab_simps)+

lemma ty_uva2ka [ktab]: "ty (uva2ka pd uva) any"
  unfolding uva2ka_def by (rule ktab_bind | rule ktab | rule ktab_upd | assumption | erule (1) ktab_ptr | simp add: tab_simps)+

lemma ty_copyout [ktab]: "ty (copyout pd va bs) any"
  unfolding copyout_def by (rule ktab_bind | rule ktab | rule ktab_upd | assumption | erule (1) ktab_ptr | simp add: tab_simps)+

section \<open>Threads and the scheduler\<close>

lemma ty_dispatch: "slot_ok t \<Longrightarrow> ty (dispatch t) any"
  unfolding dispatch_def
proof (rule kinv_kseq [OF kinv_kmod])
  show "tables_ok (s\<lparr>curproc := Some (fst t), curthread := Some t\<rparr>)" if "slot_ok t" "tables_ok s" for s
    using that by (simp add: tables_ok_def slot_ok_def)
qed (rule ktab ktab_upd | simp add: proc_ok_def)+

lemma ty_resume [ktab]: "slot_ok t \<Longrightarrow> ty (resume t) any"
proof (rule kinvI)
  fix s e assume t: "slot_ok t" and "tables_ok s" "env_keeps tables_ok e"
  then show "res_keeps tables_ok any (resume t s e)"
  proof (induction t s e rule: resume.induct)
    case (1 t s)
    then show ?case using kinvD [OF ty_dispatch [of t], of "s\<lparr>held := [PtableLock]\<rparr>" "[]"] by simp
  next
    case (2 t s f e)
    have "tables_ok (f s)" "env_keeps tables_ok e" using 2 by (simp_all add: env_keeps_def)
    then show ?case using 2 kinvD [OF ty_dispatch [of t], of "(f s)\<lparr>held := [PtableLock]\<rparr>" e] by simp
  qed
qed

lemma ty_sched [ktab]: "ty sched any"
  unfolding sched_def by (rule ktab_bind | rule ktab | rule ktab_upd | assumption | erule (1) ktab_ptr | simp add: tab_simps)+

lemma ty_kdies [ktab]: "ty kdies Q"
  by (simp add: kinv_def kdies_def)

lemma ty_yield [ktab]: "ty yield any"
  unfolding yield_def by (rule ktab_bind | rule ktab | rule ktab_upd | assumption | erule (1) ktab_ptr | simp add: tab_simps)+

lemma ty_sleep_end [ktab]: "ty (sleep_end t lk) any"
  unfolding sleep_end_def by (rule ktab_bind | rule ktab | rule ktab_upd | assumption | erule (1) ktab_ptr | simp add: tab_simps)+

lemma ty_sleep [ktab]: "ty (sleep ch lk) any"
  unfolding sleep_def by (rule ktab_bind | rule ktab | rule ktab_upd | assumption | erule (1) ktab_ptr | simp add: tab_simps)+

lemma ty_wakeup1 [ktab]: "ty (wakeup1 ch) any"
  unfolding wakeup1_def by (rule ktab_bind | rule ktab | rule ktab_upd | assumption | erule (1) ktab_ptr | simp add: tab_simps)+

lemma ty_wakeup [ktab]: "ty (wakeup ch) any"
  unfolding wakeup_def by (rule ktab_bind | rule ktab | rule ktab_upd | assumption | erule (1) ktab_ptr | simp add: tab_simps)+

lemma ty_kill [ktab]: "ty (kill pd) any"
  unfolding kill_def by (rule ktab_bind | rule ktab | rule ktab_upd | assumption | erule (1) ktab_ptr | simp add: tab_simps)+

lemma ty_allocproc: "ty allocproc (found (\<lambda>p. p < NPROC))"
  unfolding allocproc_def by (rule ktab_bind | rule ktab | rule ktab_upd | assumption | erule (1) ktab_ptr | simp add: tab_simps)+

lemmas ty_allocproc_rules [ktab] = ty_allocproc ty_allocproc [THEN kinv_any]
lemmas ty_allocproc_bind [ktab_bind] = kinv_kbind [OF ty_allocproc]

lemma ty_allocthread [ktab]: "ty (allocthread p) any"
  unfolding allocthread_def by (rule ktab_bind | rule ktab | rule ktab_upd | assumption | erule (1) ktab_ptr | simp add: tab_simps)+

lemma ty_growproc [ktab]: "ty (growproc n) any"
  unfolding growproc_def by (rule ktab_bind | rule ktab | rule ktab_upd | assumption | erule (1) ktab_ptr | simp add: tab_simps)+

section \<open>Mutexes\<close>

lemma ty_holder_tid [ktab]: "ty (holder_tid m) any"
  unfolding holder_tid_def by (rule ktab_bind | rule ktab | rule ktab_upd | assumption | erule (1) ktab_ptr | simp add: tab_simps)+

lemma ty_mytid [ktab]: "ty mytid any"
  unfolding mytid_def by (rule ktab_bind | rule ktab | rule ktab_upd | assumption | erule (1) ktab_ptr | simp add: tab_simps)+

lemma ty_kthread_mutex_alloc [ktab]: "ty kthread_mutex_alloc any"
  unfolding kthread_mutex_alloc_def by (rule ktab_bind | rule ktab | rule ktab_upd | assumption | erule (1) ktab_ptr | simp add: tab_simps)+

lemma ty_kthread_mutex_dealloc [ktab]: "ty (kthread_mutex_dealloc m) any"
  unfolding kthread_mutex_dealloc_def by (rule ktab_bind | rule ktab | rule ktab_upd | assumption | erule (1) ktab_ptr | simp add: tab_simps)+

lemma ty_mutex_wait [ktab]: "ty (mutex_wait i) any"
  unfolding mutex_wait_def by (rule ktab_bind | rule ktab | rule ktab_upd | assumption | erule (1) ktab_ptr | simp add: tab_simps)+

lemma ty_kthread_mutex_lock [ktab]: "ty (kthread_mutex_lock m) any"
  unfolding kthread_mutex_lock_def by (rule ktab_bind | rule ktab | rule ktab_upd | assumption | erule (1) ktab_ptr | simp add: tab_simps)+

lemma ty_kthread_mutex_unlock [ktab]: "ty (kthread_mutex_unlock m) any"
  unfolding kthread_mutex_unlock_def by (rule ktab_bind | rule ktab | rule ktab_upd | assumption | erule (1) ktab_ptr | simp add: tab_simps)+

section \<open>Kernel threads\<close>

lemma ty_copy_tf [ktab]: "ty (copy_tf d c) any"
  unfolding copy_tf_def by (rule ktab_bind | rule ktab | rule ktab_upd | assumption | erule (1) ktab_ptr | simp add: tab_simps)+

lemma ty_kthread_create [ktab]: "ty (kthread_create f st) any"
  unfolding kthread_create_def by (rule ktab_bind | rule ktab | rule ktab_upd | assumption | erule (1) ktab_ptr | simp add: tab_simps)+

lemma ty_kthread_id [ktab]: "ty kthread_id any"
  unfolding kthread_id_def by (rule ktab_bind | rule ktab | rule ktab_upd | assumption | erule (1) ktab_ptr | simp add: tab_simps)+

lemma ty_exitThread [ktab]: "ty exitThread Q"
  unfolding exitThread_def by (rule ktab_bind | rule ktab | rule ktab_upd | assumption | erule (1) ktab_ptr | simp add: tab_simps)+

lemma ty_join_step [ktab]: "ty (join_step x) any"
  unfolding join_step_def by (rule ktab_bind | rule ktab | rule ktab_upd | assumption | erule (1) ktab_ptr | simp add: tab_simps)+

lemma ty_kthread_join [ktab]: "ty (kthread_join x) any"
  unfolding kthread_join_def by (rule ktab_bind | rule ktab | rule ktab_upd | assumption | erule (1) ktab_ptr | simp add: tab_simps)+

lemma ty_reap_thread [ktab]: "ty (reap_thread t) any"
  unfolding reap_thread_def by (rule ktab_bind | rule ktab | rule ktab_upd | assumption | erule (1) ktab_ptr | simp add: tab_simps)+

lemma ty_wait_step [ktab]: "ty (wait_step p t) any"
  unfolding wait_step_def by (rule ktab_bind | rule ktab | rule ktab_upd | assumption | erule (1) ktab_ptr | simp add: tab_simps)+

lemma ty_wait [ktab]: "ty wait any"
  unfolding wait_def by (rule ktab_bind | rule ktab | rule ktab_upd | assumption | erule (1) ktab_ptr | simp add: tab_simps)+

section \<open>Sleep locks\<close>

lemma ty_mypid [ktab]: "ty mypid any"
  unfolding mypid_def by (rule ktab_bind | rule ktab | rule ktab_upd | assumption | erule (1) ktab_ptr | simp add: tab_simps)+

lemma ty_sl_wait [ktab]: "ty (sl_wait l) any"
  unfolding sl_wait_def by (rule ktab_bind | rule ktab | rule ktab_upd | assumption | erule (1) ktab_ptr | simp add: tab_simps)+

lemma ty_acquiresleep [ktab]: "ty (acquiresleep l) any"
  unfolding acquiresleep_def by (rule ktab_bind | rule ktab | rule ktab_upd | assumption | erule (1) ktab_ptr | simp add: tab_simps)+

lemma ty_releasesleep [ktab]: "ty (releasesleep l) any"
  unfolding releasesleep_def by (rule ktab_bind | rule ktab | rule ktab_upd | assumption | erule (1) ktab_ptr | simp add: tab_simps)+

lemma ty_holdingsleep [ktab]: "ty (holdingsleep l) any"
  unfolding holdingsleep_def by (rule ktab_bind | rule ktab | rule ktab_upd | assumption | erule (1) ktab_ptr | simp add: tab_simps)+

section \<open>The buffer cache\<close>

lemma ty_iderw [ktab]: "b \<le> NBUF \<Longrightarrow> ty (iderw b) any"
  unfolding iderw_def by (rule ktab_bind | rule ktab | rule ktab_upd | assumption | erule (1) ktab_ptr | simp add: tab_simps)+

lemma ty_bget: "ty (bget dev blk) (\<lambda>b. b \<le> NBUF)"
  unfolding bget_def by (rule ktab_bind | rule ktab | rule ktab_upd | assumption | erule (1) ktab_ptr | simp add: tab_simps)+

lemmas ty_bget_rules [ktab] = ty_bget ty_bget [THEN kinv_any]
lemmas ty_bget_bind [ktab_bind] = kinv_kbind [OF ty_bget]

lemma ty_bread: "ty (bread dev blk) (\<lambda>b. b \<le> NBUF)"
  unfolding bread_def by (rule ktab_bind | rule ktab | rule ktab_upd | assumption | erule (1) ktab_ptr | simp add: tab_simps)+

lemmas ty_bread_rules [ktab] = ty_bread ty_bread [THEN kinv_any]
lemmas ty_bread_bind [ktab_bind] = kinv_kbind [OF ty_bread]

lemma ty_bwrite [ktab]: "b \<le> NBUF \<Longrightarrow> ty (bwrite b) any"
  unfolding bwrite_def by (rule ktab_bind | rule ktab | rule ktab_upd | assumption | erule (1) ktab_ptr | simp add: tab_simps)+

lemma ty_brelse [ktab]: "b \<le> NBUF \<Longrightarrow> ty (brelse b) any"
  unfolding brelse_def by (rule ktab_bind | rule ktab | rule ktab_upd | assumption | erule (1) ktab_ptr | simp add: tab_simps)+

section \<open>The log\<close>

lemma ty_kbounds [ktab]: "ty (kbounds ok) any"
  unfolding kbounds_def by (rule ktab_bind | rule ktab | rule ktab_upd | assumption | erule (1) ktab_ptr | simp add: tab_simps)+

lemma ty_set_data [ktab]: "length x = BSIZE \<Longrightarrow> ty (set_data b x) any"
  unfolding set_data_def by (rule ktab_bind | rule ktab | rule ktab_upd | assumption | erule (1) ktab_ptr | simp add: tab_simps)+

lemma ty_readsb [ktab]: "ty (readsb dev) any"
  unfolding readsb_def by (rule ktab_bind | rule ktab | rule ktab_upd | assumption | erule (1) ktab_ptr | simp add: tab_simps)+

lemma ty_log_loop [ktab]: "(\<And>i. ty (body i) any) \<Longrightarrow> ty (log_loop body) any"
  unfolding log_loop_def by (rule ktab_bind | assumption | rule ktab | simp)+

lemma ty_install_trans [ktab]: "ty install_trans any"
  unfolding install_trans_def by (rule ktab_bind | rule ktab | rule ktab_upd | assumption | erule (1) ktab_ptr | simp add: tab_simps)+

lemma ty_write_log [ktab]: "ty write_log any"
  unfolding write_log_def by (rule ktab_bind | rule ktab | rule ktab_upd | assumption | erule (1) ktab_ptr | simp add: tab_simps)+

lemma ty_read_head [ktab]: "ty read_head any"
  unfolding read_head_def by (rule ktab_bind | rule ktab | rule ktab_upd | assumption | erule (1) ktab_ptr | simp add: tab_simps)+

lemma ty_write_head [ktab]: "ty write_head any"
  unfolding write_head_def by (rule ktab_bind | rule ktab | rule ktab_upd | assumption | erule (1) ktab_ptr | simp add: tab_simps)+

lemma ty_recover_from_log [ktab]: "ty recover_from_log any"
  unfolding recover_from_log_def by (rule ktab_bind | rule ktab | rule ktab_upd | assumption | erule (1) ktab_ptr | simp add: tab_simps)+

lemma ty_initlog [ktab]: "ty (initlog dev) any"
  unfolding initlog_def by (rule ktab_bind | rule ktab | rule ktab_upd | assumption | erule (1) ktab_ptr | simp add: tab_simps)+

lemma ty_begin_step [ktab]: "ty begin_step any"
  unfolding begin_step_def by (rule ktab_bind | rule ktab | rule ktab_upd | assumption | erule (1) ktab_ptr | simp add: tab_simps)+

lemma ty_begin_op [ktab]: "ty begin_op any"
  unfolding begin_op_def by (rule ktab_bind | rule ktab | rule ktab_upd | assumption | erule (1) ktab_ptr | simp add: tab_simps)+

lemma ty_commit [ktab]: "ty commit any"
  unfolding commit_def by (rule ktab_bind | rule ktab | rule ktab_upd | assumption | erule (1) ktab_ptr | simp add: tab_simps)+

lemma ty_end_op [ktab]: "ty end_op any"
  unfolding end_op_def by (rule ktab_bind | rule ktab | rule ktab_upd | assumption | erule (1) ktab_ptr | simp add: tab_simps)+

lemma ty_log_write [ktab]: "ty (log_write b) any"
  unfolding log_write_def by (rule ktab_bind | rule ktab | rule ktab_upd | assumption | erule (1) ktab_ptr | simp add: tab_simps)+

section \<open>Output\<close>

lemma ty_uartputc [ktab]: "ty (uartputc c) any"
  unfolding uartputc_def by (rule ktab_bind | rule ktab | rule ktab_upd | assumption | erule (1) ktab_ptr | simp add: tab_simps)+

lemma ty_consputc [ktab]: "ty (consputc c) any"
  unfolding consputc_def by (rule ktab_bind | rule ktab | rule ktab_upd | assumption | erule (1) ktab_ptr | simp add: tab_simps)+

lemma ty_cprintf [ktab]: "ty (cprintf fmt args) any"
  unfolding cprintf_def by (rule ktab_bind | rule ktab | rule ktab_upd | assumption | erule (1) ktab_ptr | simp add: tab_simps)+

section \<open>Blocks and inodes\<close>

lemma ty_get_data [ktab_bind]:
  "b \<le> NBUF \<Longrightarrow> (\<And>x. length x = BSIZE \<Longrightarrow> ty (f x) Q) \<Longrightarrow> ty (kbind (get_data b) f) Q"
  unfolding get_data_def by (rule kinv_kbind_kget) (simp add: tables_bdata)

lemma ty_bzero [ktab]: "ty (bzero dev b) any"
  unfolding bzero_def by (rule ktab_bind | rule ktab | rule ktab_upd | assumption | erule (1) ktab_ptr | simp add: tab_simps)+

lemma ty_balloc [ktab]: "ty (balloc dev) any"
  unfolding balloc_def by (rule ktab_bind | rule ktab | rule ktab_upd | assumption | erule (1) ktab_ptr | simp add: tab_simps)+

lemma ty_bfree [ktab]: "ty (bfree dev b) any"
  unfolding bfree_def by (rule ktab_bind | rule ktab | rule ktab_upd | assumption | erule (1) ktab_ptr | simp add: tab_simps)+

lemma ty_initsleeplock [ktab]: "ty (initsleeplock l) any"
  unfolding initsleeplock_def by (rule ktab_bind | rule ktab | rule ktab_upd | assumption | erule (1) ktab_ptr | simp add: tab_simps)+

lemma ty_iinit [ktab]: "ty (iinit dev) any"
  unfolding iinit_def by (rule ktab_bind | rule ktab | rule ktab_upd | assumption | erule (1) ktab_ptr | simp add: tab_simps)+

lemma ty_iget: "ty (iget dev ino) (\<lambda>i. i < NINODE)"
  unfolding iget_def by (rule ktab_bind | rule ktab | rule ktab_upd | assumption | erule (1) ktab_ptr | simp add: tab_simps)+

lemmas ty_iget_rules [ktab] = ty_iget ty_iget [THEN kinv_any]
lemmas ty_iget_bind [ktab_bind] = kinv_kbind [OF ty_iget]

lemma ty_ialloc: "ty (ialloc dev k) (\<lambda>i. i < NINODE)"
  unfolding ialloc_def by (rule ktab_bind | rule ktab | rule ktab_upd | assumption | erule (1) ktab_ptr | simp add: tab_simps)+

lemmas ty_ialloc_rules [ktab] = ty_ialloc ty_ialloc [THEN kinv_any]
lemmas ty_ialloc_bind [ktab_bind] = kinv_kbind [OF ty_ialloc]

lemma ty_iupdate [ktab]: "ty (iupdate i) any"
  unfolding iupdate_def by (rule ktab_bind | rule ktab | rule ktab_upd | assumption | erule (1) ktab_ptr | simp add: tab_simps)+

lemma ty_idup: "i < NINODE \<Longrightarrow> ty (idup i) (\<lambda>i. i < NINODE)"
  unfolding idup_def by (rule ktab_bind | rule ktab | rule ktab_upd | assumption | erule (1) ktab_ptr | simp add: tab_simps)+

lemmas ty_idup_rules [ktab] = ty_idup ty_idup [THEN kinv_any]
lemmas ty_idup_bind [ktab_bind] = kinv_kbind [OF ty_idup]

lemma ty_ilock [ktab]: "ty (ilock ip) any"
  unfolding ilock_def by (rule ktab_bind | rule ktab | rule ktab_upd | assumption | erule (1) ktab_ptr | simp add: tab_simps)+

lemma ty_iunlock [ktab]: "ty (iunlock ip) any"
  unfolding iunlock_def by (rule ktab_bind | rule ktab | rule ktab_upd | assumption | erule (1) ktab_ptr | simp add: tab_simps)+

lemma ty_bmap [ktab]: "ty (bmap i bn) any"
  unfolding bmap_def by (rule ktab_bind | rule ktab | rule ktab_upd | assumption | erule (1) ktab_ptr | simp add: tab_simps)+

lemma ty_itrunc [ktab]: "ty (itrunc i) any"
  unfolding itrunc_def by (rule ktab_bind | rule ktab | rule ktab_upd | assumption | erule (1) ktab_ptr | simp add: tab_simps)+

lemma ty_iput [ktab]: "ty (iput i) any"
  unfolding iput_def by (rule ktab_bind | rule ktab | rule ktab_upd | assumption | erule (1) ktab_ptr | simp add: tab_simps)+

lemma ty_iunlockput [ktab]: "ty (iunlockput i) any"
  unfolding iunlockput_def by (rule ktab_bind | rule ktab | rule ktab_upd | assumption | erule (1) ktab_ptr | simp add: tab_simps)+

lemma ty_stati [ktab]: "ty (stati i) any"
  unfolding stati_def by (rule ktab_bind | rule ktab | rule ktab_upd | assumption | erule (1) ktab_ptr | simp add: tab_simps)+

section \<open>The console\<close>

lemma ty_procdump [ktab]: "ty procdump any"
  unfolding procdump_def by (rule ktab_bind | rule ktab | rule ktab_upd | assumption | erule (1) ktab_ptr | simp add: tab_simps)+

lemma ty_kill_line [ktab]: "ty kill_line any"
  unfolding kill_line_def by (rule ktab_bind | rule ktab | rule ktab_upd | assumption | erule (1) ktab_ptr | simp add: tab_simps)+

lemma ty_cons_key [ktab]: "ty (cons_key c) any"
  unfolding cons_key_def by (rule ktab_bind | rule ktab | rule ktab_upd | assumption | erule (1) ktab_ptr | simp add: tab_simps)+

lemma ty_cons_keys [ktab]: "ty (cons_keys cs d) any"
proof (induction cs arbitrary: d)
  case (Cons c cs)
  show ?case unfolding cons_keys.simps by (rule ktab Cons.IH | simp)+
qed (unfold cons_keys.simps, rule ktab, simp)

lemma ty_consoleintr [ktab]: "ty (consoleintr cs) any"
  unfolding consoleintr_def by (rule ktab_bind | rule ktab | rule ktab_upd | assumption | erule (1) ktab_ptr | simp add: tab_simps)+

lemma ty_cons_wait [ktab]: "ty cons_wait any"
  unfolding cons_wait_def by (rule ktab_bind | rule ktab | rule ktab_upd | assumption | erule (1) ktab_ptr | simp add: tab_simps)+

lemma ty_cons_next [ktab]: "ty cons_next any"
  unfolding cons_next_def by (rule ktab_bind | rule ktab | rule ktab_upd | assumption | erule (1) ktab_ptr | simp add: tab_simps)+

lemma ty_consoleread [ktab]: "(\<And>d bs. ty (put d bs) any) \<Longrightarrow> ty (consoleread put dst i n) any"
  unfolding consoleread_def by (rule ktab_bind | rule ktab | rule ktab_upd | assumption | erule (1) ktab_ptr | simp add: tab_simps)+

lemma ty_consolewrite [ktab]: "(\<And>d k. ty (get d k) any) \<Longrightarrow> ty (consolewrite get src i n) any"
  unfolding consolewrite_def by (rule ktab_bind | rule ktab | rule ktab_upd | assumption | erule (1) ktab_ptr | simp add: tab_simps)+

lemma ty_uartinit [ktab]: "ty (uartinit st) any"
  unfolding uartinit_def by (rule ktab_bind | rule ktab | rule ktab_upd | assumption | erule (1) ktab_ptr | simp add: tab_simps)+

lemma ty_uartintr [ktab]: "ty (uartintr rx) any"
  unfolding uartintr_def by (rule ktab_bind | rule ktab | rule ktab_upd | assumption | erule (1) ktab_ptr | simp add: tab_simps)+

lemma ty_kbdintr [ktab]: "ty (kbdintr bs) any"
  unfolding kbdintr_def by (rule ktab_bind | rule ktab | rule ktab_upd | assumption | erule (1) ktab_ptr | simp add: tab_simps)+

section \<open>Files and directories\<close>

lemma ty_put_mem [ktab]: "ty (put_mem a bs) any"
  unfolding put_mem_def by (rule ktab_bind | rule ktab | rule ktab_upd | assumption | erule (1) ktab_ptr | simp add: tab_simps)+

lemma ty_get_mem: "ty (get_mem a n) (\<lambda>r. length (fst r) \<le> n)"
  unfolding get_mem_def by (rule ktab_bind | rule ktab | rule ktab_upd | assumption | erule (1) ktab_ptr | simp add: tab_simps)+

lemmas ty_get_mem_rules [ktab] = ty_get_mem ty_get_mem [THEN kinv_any]

lemma ty_put_loc [ktab]: "ty (put_loc a bs) any"
  unfolding put_loc_def by (rule ktab_bind | rule ktab | rule ktab_upd | assumption | erule (1) ktab_ptr | simp add: tab_simps)+

lemma ty_get_loc: "ty (get_loc a n) (\<lambda>r. length (fst r) \<le> n)"
  unfolding get_loc_def by (rule ktab_bind | rule ktab | rule ktab_upd | assumption | erule (1) ktab_ptr | simp add: tab_simps)+

lemmas ty_get_loc_rules [ktab] = ty_get_loc ty_get_loc [THEN kinv_any]

lemma ty_read_blocks [ktab]: "(\<And>d bs. ty (put d bs) any) \<Longrightarrow> ty (read_blocks put i n st) any"
  unfolding read_blocks_def by (rule ktab_bind | rule ktab | rule ktab_upd | assumption | erule (1) ktab_ptr | simp add: tab_simps)+

lemma ty_readi [ktab]: "(\<And>d bs. ty (put d bs) any) \<Longrightarrow> ty (readi put i dst off n) any"
  unfolding readi_def by (rule ktab_bind | rule ktab | rule ktab_upd | assumption | erule (1) ktab_ptr | simp add: tab_simps)+

lemma ty_write_blocks [ktab]:
  assumes g: "\<And>d k. ty (get d k) (\<lambda>r. length (fst r) \<le> k)"
  shows "ty (write_blocks get i n st) any"
  unfolding write_blocks_def by (rule ktab_bind kinv_kbind [OF g] | rule g g [THEN kinv_any] | rule ktab | rule ktab_upd | assumption | erule (1) ktab_ptr | simp add: tab_simps)+

lemma ty_writei [ktab]:
  assumes g: "\<And>d k. ty (get d k) (\<lambda>r. length (fst r) \<le> k)"
  shows "ty (writei get i src off n) any"
  unfolding writei_def by (rule ktab_bind kinv_kbind [OF g] | rule g g [THEN kinv_any] | rule ktab | rule ktab_upd | assumption | erule (1) ktab_ptr | simp add: tab_simps)+

lemma ty_read_dirent [ktab]: "ty (read_dirent msg d off) any"
  unfolding read_dirent_def by (rule ktab_bind | rule ktab | rule ktab_upd | assumption | erule (1) ktab_ptr | simp add: tab_simps)+

lemma ty_dirlookup: "ty (dirlookup d name) (found (\<lambda>x. fst x < NINODE))"
  unfolding dirlookup_def by (rule ktab_bind | rule ktab | rule ktab_upd | assumption | erule (1) ktab_ptr | simp add: tab_simps)+

lemmas ty_dirlookup_rules [ktab] = ty_dirlookup ty_dirlookup [THEN kinv_any]
lemmas ty_dirlookup_bind [ktab_bind] = kinv_kbind [OF ty_dirlookup]

lemma ty_dirlink [ktab]: "ty (dirlink d name ino) any"
  unfolding dirlink_def by (rule ktab_bind | rule ktab | rule ktab_upd | assumption | erule (1) ktab_ptr | simp add: tab_simps)+

lemma ty_path_char [ktab]: "ty (path_char p) any"
  unfolding path_char_def by (cases p) (simp_all, (rule ktab | simp)+)

lemma ty_skip_slashes [ktab]: "ty (skip_slashes p) any"
  unfolding skip_slashes_def by (rule ktab_bind | rule ktab | rule ktab_upd | assumption | erule (1) ktab_ptr | simp add: tab_simps)+

lemma ty_take_elem [ktab]: "ty (take_elem p) any"
  unfolding take_elem_def by (rule ktab_bind | rule ktab | rule ktab_upd | assumption | erule (1) ktab_ptr | simp add: tab_simps)+

lemma ty_skipelem [ktab]: "ty (skipelem p) any"
  unfolding skipelem_def by (rule ktab_bind | rule ktab | rule ktab_upd | assumption | erule (1) ktab_ptr | simp add: tab_simps)+

lemma ty_namex: "ty (namex p b) (found (\<lambda>x. fst x < NINODE))"
  unfolding namex_def
  apply (rule kinv_kbind_any [OF ty_path_char], rule kinv_kbind [where P = "\<lambda>i. i < NINODE"])
  subgoal by (rule ktab_bind | rule ktab | rule ktab_upd | assumption | erule (1) ktab_ptr | simp add: tab_simps)+
  subgoal
    apply (rule kinv_kloop_var [where V = "\<lambda>x. fst x < NINODE"])
    subgoal by (rule ktab_bind | rule ktab | rule ktab_upd | assumption | erule (1) ktab_ptr | simp add: tab_simps)+
    by simp
  done

lemmas ty_namex_rules [ktab] = ty_namex ty_namex [THEN kinv_any]
lemmas ty_namex_bind [ktab_bind] = kinv_kbind [OF ty_namex]

lemma ty_namei: "ty (namei p) (found (\<lambda>i. i < NINODE))"
  unfolding namei_def by (rule ktab_bind | rule ktab | rule ktab_upd | assumption | erule (1) ktab_ptr | simp add: tab_simps)+

lemmas ty_namei_rules [ktab] = ty_namei ty_namei [THEN kinv_any]
lemmas ty_namei_bind [ktab_bind] = kinv_kbind [OF ty_namei]

lemma ty_nameiparent: "ty (nameiparent p) (found (\<lambda>x. fst x < NINODE))"
  unfolding nameiparent_def by (rule ktab_bind | rule ktab | rule ktab_upd | assumption | erule (1) ktab_ptr | simp add: tab_simps)+

lemmas ty_nameiparent_rules [ktab] = ty_nameiparent ty_nameiparent [THEN kinv_any]
lemmas ty_nameiparent_bind [ktab_bind] = kinv_kbind [OF ty_nameiparent]

section \<open>Pipes\<close>

lemma ty_pipeclose [ktab]: "ty (pipeclose p w) any"
  unfolding pipeclose_def by (rule ktab_bind | rule ktab | rule ktab_upd | assumption | erule (1) ktab_ptr | simp add: tab_simps)+

lemma ty_myproc_killed [ktab]: "ty myproc_killed any"
  unfolding myproc_killed_def by (rule ktab_bind | rule ktab | rule ktab_upd | assumption | erule (1) ktab_ptr | simp add: tab_simps)+

lemma ty_pipe_room [ktab]: "ty (pipe_room p) any"
  unfolding pipe_room_def by (rule ktab_bind | rule ktab | rule ktab_upd | assumption | erule (1) ktab_ptr | simp add: tab_simps)+

lemma ty_pipewrite [ktab]: "ty (pipewrite p a n) any"
  unfolding pipewrite_def by (rule ktab_bind | rule ktab | rule ktab_upd | assumption | erule (1) ktab_ptr | simp add: tab_simps)+

lemma ty_pipe_data [ktab]: "ty (pipe_data p) any"
  unfolding pipe_data_def by (rule ktab_bind | rule ktab | rule ktab_upd | assumption | erule (1) ktab_ptr | simp add: tab_simps)+

lemma ty_piperead [ktab]: "ty (piperead p a n) any"
  unfolding piperead_def by (rule ktab_bind | rule ktab | rule ktab_upd | assumption | erule (1) ktab_ptr | simp add: tab_simps)+

section \<open>Open files\<close>

lemma ty_filealloc: "ty filealloc (found (\<lambda>f. f < NFILE))"
  unfolding filealloc_def by (rule ktab_bind | rule ktab | rule ktab_upd | assumption | erule (1) ktab_ptr | simp add: tab_simps)+

lemmas ty_filealloc_rules [ktab] = ty_filealloc ty_filealloc [THEN kinv_any]
lemmas ty_filealloc_bind [ktab_bind] = kinv_kbind [OF ty_filealloc]

lemma ty_filedup: "f < NFILE \<Longrightarrow> ty (filedup f) (\<lambda>f. f < NFILE)"
  unfolding filedup_def by (rule ktab_bind | rule ktab | rule ktab_upd | assumption | erule (1) ktab_ptr | simp add: tab_simps)+

lemmas ty_filedup_rules [ktab] = ty_filedup ty_filedup [THEN kinv_any]
lemmas ty_filedup_bind [ktab_bind] = kinv_kbind [OF ty_filedup]

lemma ty_fileclose [ktab]: "ty (fileclose f) any"
  unfolding fileclose_def by (rule ktab_bind | rule ktab | rule ktab_upd | assumption | erule (1) ktab_ptr | simp add: tab_simps)+

lemma ty_kstore16 [ktab]: "ty (kstore16 a v) any"
  unfolding kstore16_def by (rule ktab_bind | rule ktab | rule ktab_upd | assumption | erule (1) ktab_ptr | simp add: tab_simps)+

lemma ty_put_stat [ktab]: "ty (put_stat a r) any"
  unfolding put_stat_def by (rule ktab_bind | rule ktab | rule ktab_upd | assumption | erule (1) ktab_ptr | simp add: tab_simps)+

lemma ty_filestat [ktab]: "ty (filestat f st) any"
  unfolding filestat_def by (rule ktab_bind | rule ktab | rule ktab_upd | assumption | erule (1) ktab_ptr | simp add: tab_simps)+

lemma ty_fileread [ktab]: "ty (fileread f a n) any"
  unfolding fileread_def by (rule ktab_bind | rule ktab | rule ktab_upd | assumption | erule (1) ktab_ptr | simp add: tab_simps)+

lemma ty_filewrite [ktab]: "ty (filewrite f a n) any"
  unfolding filewrite_def by (rule ktab_bind | rule ktab | rule ktab_upd | assumption | erule (1) ktab_ptr | simp add: tab_simps)+

lemma ty_pipe_bad [ktab]: "ty (pipe_bad f0 f1) (found Q)"
  unfolding pipe_bad_def by (rule ktab_bind | rule ktab | rule ktab_upd | assumption | erule (1) ktab_ptr | simp add: tab_simps)+

lemma ty_pipealloc: "ty pipealloc (found (\<lambda>x. fst x < NFILE \<and> snd x < NFILE))"
  unfolding pipealloc_def by (rule ktab_bind | rule ktab | rule ktab_upd | assumption | erule (1) ktab_ptr | simp add: tab_simps)+

lemmas ty_pipealloc_rules [ktab] = ty_pipealloc ty_pipealloc [THEN kinv_any]
lemmas ty_pipealloc_bind [ktab_bind] = kinv_kbind [OF ty_pipealloc]

section \<open>Processes\<close>

lemma ty_cprintState [ktab]: "ty (cprintState t) any"
  unfolding cprintState_def by (rule ktab_bind | rule ktab | rule ktab_upd | assumption | erule (1) ktab_ptr | simp add: tab_simps)+

lemma ty_cprintMutexState [ktab]: "ty (cprintMutexState i) any"
  unfolding cprintMutexState_def by (rule ktab_bind | rule ktab | rule ktab_upd | assumption | erule (1) ktab_ptr | simp add: tab_simps)+

lemma ty_mstore16 [ktab]: "ty (mstore16 a v) any"
  unfolding mstore16_def by (rule ktab_bind | rule ktab | rule ktab_upd | assumption | erule (1) ktab_ptr | simp add: tab_simps)+

lemma ty_userinit [ktab]: "ty userinit any"
  unfolding userinit_def by (rule ktab_bind | rule ktab | rule ktab_upd | assumption | erule (1) ktab_ptr | simp add: tab_simps)+

lemma ty_forkret [ktab]: "ty forkret any"
  unfolding forkret_def by (rule ktab_bind | rule ktab | rule ktab_upd | assumption | erule (1) ktab_ptr | simp add: tab_simps)+

lemma ty_dup_file [ktab]: "cp < NPROC \<Longrightarrow> fd < NOFILE \<Longrightarrow> ty (dup_file cp np fd) any"
  unfolding dup_file_def by (rule ktab_bind | rule ktab | rule ktab_upd | assumption | erule (1) ktab_ptr | simp add: tab_simps)+

lemma ty_fork_finish [ktab]: "cp < NPROC \<Longrightarrow> ty (fork_finish cp ct np nt) any"
  unfolding fork_finish_def by (rule ktab_bind | rule ktab | rule ktab_upd | assumption | erule (1) ktab_ptr | simp add: tab_simps)+

lemma ty_fork [ktab]: "ty fork any"
  unfolding fork_def by (rule ktab_bind | rule ktab | rule ktab_upd | assumption | erule (1) ktab_ptr | simp add: tab_simps)+

lemma ty_sweep_thread [ktab]: "ty (sweep_thread p i) any"
  unfolding sweep_thread_def by (rule ktab_bind | rule ktab | rule ktab_upd | assumption | erule (1) ktab_ptr | simp add: tab_simps)+

lemma ty_sweep [ktab]: "ty (sweep p is n) any"
proof (induction "is" arbitrary: n)
  case (Cons i "is")
  show ?case unfolding sweep.simps by (rule ktab_bind ktab Cons.IH | simp)+
qed (unfold sweep.simps, rule ktab, simp)

lemma ty_close_fd [ktab]: "ty (close_fd p fd) any"
  unfolding close_fd_def by (rule ktab_bind | rule ktab | rule ktab_upd | assumption | erule (1) ktab_ptr | simp add: tab_simps)+

lemma ty_dealloc_held [ktab]: "ty (dealloc_held p i) any"
  unfolding dealloc_held_def by (rule ktab_bind | rule ktab | rule ktab_upd | assumption | erule (1) ktab_ptr | simp add: tab_simps)+

lemma ty_wake_threads [ktab]: "ty (wake_threads q) any"
  unfolding wake_threads_def by (rule ktab_bind | rule ktab | rule ktab_upd | assumption | erule (1) ktab_ptr | simp add: tab_simps)+

lemma ty_adopt [ktab]: "ty (adopt cp q) any"
  unfolding adopt_def by (rule ktab_bind | rule ktab | rule ktab_upd | assumption | erule (1) ktab_ptr | simp add: tab_simps)+

lemma ty_spin_others [ktab]: "ty spin_others any"
  unfolding spin_others_def by (rule ktab_bind | rule ktab | simp add: tables_ok_def)+

lemma ty_exit_sweep [ktab]: "ty (exit_sweep p) any"
  unfolding exit_sweep_def by (rule ktab_bind | rule ktab | rule ktab_upd | assumption | erule (1) ktab_ptr | simp add: tab_simps)+

lemma ty_exit [ktab]: "ty exit Q"
  unfolding exit_def by (rule ktab_bind | rule ktab | rule ktab_upd | assumption | erule (1) ktab_ptr | simp add: tab_simps)+

lemma ty_kthread_exit [ktab]: "ty kthread_exit Q"
  unfolding kthread_exit_def by (rule ktab_bind | rule ktab | rule ktab_upd | assumption | erule (1) ktab_ptr | simp add: tab_simps)+

lemma ty_ending [ktab]: "ty m Q \<Longrightarrow> ty (ending m) Q"
proof (rule kinvI)
  fix s e assume m: "ty m Q" and s: "tables_ok s" "env_keeps tables_ok e"
  have "res_keeps tables_ok Q (m s e)" using kinvD [OF m s] .
  then show "res_keeps tables_ok Q (ending m s e)"
    using kinvD [OF ty_kthread_exit [where Q = Q]] by (cases "m s e") (simp_all add: ending_def)
qed

section \<open>Program images\<close>

lemma ty_loaduvm [ktab]: "ty (loaduvm pd a ip offset sz) any"
  unfolding loaduvm_def by (rule ktab_bind | rule ktab | rule ktab_upd | assumption | erule (1) ktab_ptr | simp add: tab_simps)+

lemma ty_load_segments [ktab]: "ty (load_segments pd ip elf) any"
  unfolding load_segments_def by (rule ktab_bind | rule ktab | rule ktab_upd | assumption | erule (1) ktab_ptr | simp add: tab_simps)+

lemma ty_kstrlen [ktab]: "ty (kstrlen a) any"
  unfolding kstrlen_def by (rule ktab_bind | rule ktab | rule ktab_upd | assumption | erule (1) ktab_ptr | simp add: tab_simps)+

lemma ty_push_args [ktab]: "ty (push_args pd as sp sps) any"
proof (induction as arbitrary: sp sps)
  case (Cons a as)
  show ?case unfolding push_args.simps by (rule ktab_bind | rule ktab Cons.IH | rule ktab_upd | simp)+
qed (unfold push_args.simps, rule ktab, simp)

lemma ty_last_elem [ktab]: "ty (last_elem p) any"
  unfolding last_elem_def by (rule ktab_bind | rule ktab | rule ktab_upd | assumption | erule (1) ktab_ptr | simp add: tab_simps)+

lemma ty_path_name [ktab]: "ty (path_name n p) any"
proof (induction n arbitrary: p)
  case (Suc n)
  show ?case unfolding path_name.simps by (rule ktab_bind | rule ktab Suc.IH | rule ktab_upd | simp)+
qed (unfold path_name.simps, rule ktab, simp)

lemma ty_exec_sweep_from [ktab]: "ty (exec_sweep_from p is n) any"
proof (induction "is" arbitrary: n)
  case (Cons i "is")
  show ?case unfolding exec_sweep_from.simps by (rule ktab_bind | rule ktab Cons.IH | rule ktab_upd | simp)+
qed (unfold exec_sweep_from.simps, rule ktab, simp)

lemma ty_exec_sweep [ktab]: "ty (exec_sweep p) any"
  unfolding exec_sweep_def by (rule ktab_bind | rule ktab | rule ktab_upd | assumption | erule (1) ktab_ptr | simp add: tab_simps)+

lemma ty_stop_threads [ktab]: "ty (stop_threads cp ct) any"
  unfolding stop_threads_def by (rule ktab_bind | rule ktab | rule ktab_upd | assumption | erule (1) ktab_ptr | simp add: tab_simps)+

lemma ty_exec_cleanup [ktab]: "ty (exec_cleanup pd ip) any"
  unfolding exec_cleanup_def by (rule ktab_bind | rule ktab | rule ktab_upd | assumption | erule (1) ktab_ptr | simp add: tab_simps)+

lemma ty_exec_bad [ktab]: "ty (exec_bad pd ip) any"
  unfolding exec_bad_def by (rule ktab_bind | rule ktab | rule ktab_upd | assumption | erule (1) ktab_ptr | simp add: tab_simps)+

lemma ty_exec_commit [ktab]: "ty (exec_commit path cp ct pd entry sz sp) any"
  unfolding exec_commit_def by (rule ktab_bind | rule ktab | rule ktab_upd | assumption | erule (1) ktab_ptr | simp add: tab_simps)+

lemma ty_exec_image [ktab]: "ty (exec_image path argv cp ct pd entry sz) any"
  unfolding exec_image_def by (rule ktab_bind | rule ktab | rule ktab_upd | assumption | erule (1) ktab_ptr | simp add: tab_simps)+

lemma ty_exec_file [ktab]: "ty (exec_file path argv cp ct ip) any"
  unfolding exec_file_def by (rule ktab_bind | rule ktab | rule ktab_upd | assumption | erule (1) ktab_ptr | simp add: tab_simps)+

lemma ty_exec [ktab]: "ty (exec path argv) any"
  unfolding exec_def by (rule ktab_bind | rule ktab | rule ktab_upd | assumption | erule (1) ktab_ptr | simp add: tab_simps)+

section \<open>System calls on processes\<close>

lemma ty_fetchint [ktab]: "ty (fetchint a) any"
  unfolding fetchint_def by (rule ktab_bind | rule ktab | rule ktab_upd | assumption | erule (1) ktab_ptr | simp add: tab_simps)+

lemma ty_fetchstr [ktab]: "ty (fetchstr a) any"
  unfolding fetchstr_def by (rule ktab_bind | rule ktab | rule ktab_upd | assumption | erule (1) ktab_ptr | simp add: tab_simps)+

lemma ty_argint [ktab]: "ty (argint n) any"
  unfolding argint_def by (rule ktab_bind | rule ktab | rule ktab_upd | assumption | erule (1) ktab_ptr | simp add: tab_simps)+

lemma ty_argptr [ktab]: "ty (argptr n sz) any"
  unfolding argptr_def by (rule ktab_bind | rule ktab | rule ktab_upd | assumption | erule (1) ktab_ptr | simp add: tab_simps)+

lemma ty_argstr [ktab]: "ty (argstr n) any"
  unfolding argstr_def by (rule ktab_bind | rule ktab | rule ktab_upd | assumption | erule (1) ktab_ptr | simp add: tab_simps)+

lemma ty_need: "ty m (found P) \<Longrightarrow> (\<And>x. P x \<Longrightarrow> ty (f x) any) \<Longrightarrow> ty (need m f) any"
  unfolding need_def by (erule kinv_kbind) (rule ktab | simp)+

lemma ty_need_any [ktab]: "ty m any \<Longrightarrow> (\<And>x. ty (f x) any) \<Longrightarrow> ty (need m f) any"
  by (rule ty_need [where P = any]) simp_all

lemma ty_sleep_step [ktab]: "ty (sleep_step t n) any"
  unfolding sleep_step_def by (rule ktab_bind | rule ktab | rule ktab_upd | assumption | erule (1) ktab_ptr | simp add: tab_simps)+

lemma ty_sys_sleep [ktab]: "ty sys_sleep any"
  unfolding sys_sleep_def by (rule ktab_bind | rule ktab | rule ktab_upd | assumption | erule (1) ktab_ptr | simp add: tab_simps)+

lemma ty_sys_uptime [ktab]: "ty sys_uptime any"
  unfolding sys_uptime_def by (rule ktab_bind | rule ktab | rule ktab_upd | assumption | erule (1) ktab_ptr | simp add: tab_simps)+

lemma ty_sys_sbrk [ktab]: "ty sys_sbrk any"
  unfolding sys_sbrk_def by (rule ktab_bind | rule ktab | rule ktab_upd | assumption | erule (1) ktab_ptr | simp add: tab_simps)+

lemma ty_sys_fork [ktab]: "ty sys_fork any"
  unfolding sys_fork_def by (rule ktab_bind | rule ktab | rule ktab_upd | assumption | erule (1) ktab_ptr | simp add: tab_simps)+

lemma ty_sys_exit [ktab]: "ty sys_exit any"
  unfolding sys_exit_def by (rule ktab_bind | rule ktab | rule ktab_upd | assumption | erule (1) ktab_ptr | simp add: tab_simps)+

lemma ty_sys_wait [ktab]: "ty sys_wait any"
  unfolding sys_wait_def by (rule ktab_bind | rule ktab | rule ktab_upd | assumption | erule (1) ktab_ptr | simp add: tab_simps)+

lemma ty_sys_kill [ktab]: "ty sys_kill any"
  unfolding sys_kill_def by (rule ktab_bind | rule ktab | rule ktab_upd | assumption | erule (1) ktab_ptr | simp add: tab_simps)+

lemma ty_sys_getpid [ktab]: "ty sys_getpid any"
  unfolding sys_getpid_def by (rule ktab_bind | rule ktab | rule ktab_upd | assumption | erule (1) ktab_ptr | simp add: tab_simps)+

lemma ty_sys_kthread_create [ktab]: "ty sys_kthread_create any"
  unfolding sys_kthread_create_def by (rule ktab_bind | rule ktab | rule ktab_upd | assumption | erule (1) ktab_ptr | simp add: tab_simps)+

lemma ty_sys_kthread_id [ktab]: "ty sys_kthread_id any"
  unfolding sys_kthread_id_def by (rule ktab_bind | rule ktab | rule ktab_upd | assumption | erule (1) ktab_ptr | simp add: tab_simps)+

lemma ty_sys_kthread_exit [ktab]: "ty sys_kthread_exit any"
  unfolding sys_kthread_exit_def by (rule ktab_bind | rule ktab | rule ktab_upd | assumption | erule (1) ktab_ptr | simp add: tab_simps)+

lemma ty_sys_kthread_join [ktab]: "ty sys_kthread_join any"
  unfolding sys_kthread_join_def by (rule ktab_bind | rule ktab | rule ktab_upd | assumption | erule (1) ktab_ptr | simp add: tab_simps)+

lemma ty_sys_kthread_mutex_alloc [ktab]: "ty sys_kthread_mutex_alloc any"
  unfolding sys_kthread_mutex_alloc_def by (rule ktab_bind | rule ktab | rule ktab_upd | assumption | erule (1) ktab_ptr | simp add: tab_simps)+

lemma ty_sys_kthread_mutex_dealloc [ktab]: "ty sys_kthread_mutex_dealloc any"
  unfolding sys_kthread_mutex_dealloc_def by (rule ktab_bind | rule ktab | rule ktab_upd | assumption | erule (1) ktab_ptr | simp add: tab_simps)+

lemma ty_sys_kthread_mutex_lock [ktab]: "ty sys_kthread_mutex_lock any"
  unfolding sys_kthread_mutex_lock_def by (rule ktab_bind | rule ktab | rule ktab_upd | assumption | erule (1) ktab_ptr | simp add: tab_simps)+

lemma ty_sys_kthread_mutex_unlock [ktab]: "ty sys_kthread_mutex_unlock any"
  unfolding sys_kthread_mutex_unlock_def by (rule ktab_bind | rule ktab | rule ktab_upd | assumption | erule (1) ktab_ptr | simp add: tab_simps)+

section \<open>System calls on files\<close>

lemma ty_argfd: "ty (argfd n) (found (\<lambda>x. fst x < NOFILE \<and> snd x < NFILE))"
  unfolding argfd_def by (rule ktab_bind | rule ktab | rule ktab_upd | assumption | erule (1) ktab_ptr | simp add: tab_simps)+

lemmas ty_argfd_rules [ktab] = ty_argfd ty_argfd [THEN kinv_any]
lemmas ty_argfd_bind [ktab_bind] = kinv_kbind [OF ty_argfd]

lemmas ty_need_argfd [ktab_bind] = ty_need [OF ty_argfd] ty_need [OF ty_pipealloc]

lemma ty_set_fd [ktab]: "found (\<lambda>i. i < NFILE) f \<Longrightarrow> ty (set_fd p fd f) any"
  unfolding set_fd_def by (rule ktab_bind | rule ktab | rule ktab_upd | assumption | erule (1) ktab_ptr | simp add: tab_simps)+

lemma ty_fdalloc [ktab]: "f < NFILE \<Longrightarrow> ty (fdalloc f) any"
  unfolding fdalloc_def by (rule ktab_bind | rule ktab | rule ktab_upd | assumption | erule (1) ktab_ptr | simp add: tab_simps)+

lemma ty_sys_dup [ktab]: "ty sys_dup any"
  unfolding sys_dup_def by (rule ktab_bind | rule ktab | rule ktab_upd | assumption | erule (1) ktab_ptr | simp add: tab_simps)+

lemma ty_sys_read [ktab]: "ty sys_read any"
  unfolding sys_read_def by (rule ktab_bind | rule ktab | rule ktab_upd | assumption | erule (1) ktab_ptr | simp add: tab_simps)+

lemma ty_sys_write [ktab]: "ty sys_write any"
  unfolding sys_write_def by (rule ktab_bind | rule ktab | rule ktab_upd | assumption | erule (1) ktab_ptr | simp add: tab_simps)+

lemma ty_sys_close [ktab]: "ty sys_close any"
  unfolding sys_close_def by (rule ktab_bind | rule ktab | rule ktab_upd | assumption | erule (1) ktab_ptr | simp add: tab_simps)+

lemma ty_sys_fstat [ktab]: "ty sys_fstat any"
  unfolding sys_fstat_def by (rule ktab_bind | rule ktab | rule ktab_upd | assumption | erule (1) ktab_ptr | simp add: tab_simps)+

lemma ty_op_fail [ktab]: "ty op_fail any"
  unfolding op_fail_def by (rule ktab_bind | rule ktab | rule ktab_upd | assumption | erule (1) ktab_ptr | simp add: tab_simps)+

lemma ty_add_nlink [ktab]: "ty (add_nlink i d) any"
  unfolding add_nlink_def by (rule ktab_bind | rule ktab | rule ktab_upd | assumption | erule (1) ktab_ptr | simp add: tab_simps)+

lemma ty_link_bad [ktab]: "ty (link_bad ip) any"
  unfolding link_bad_def by (rule ktab_bind | rule ktab | rule ktab_upd | assumption | erule (1) ktab_ptr | simp add: tab_simps)+

lemma ty_sys_link [ktab]: "ty sys_link any"
  unfolding sys_link_def by (rule ktab_bind | rule ktab | rule ktab_upd | assumption | erule (1) ktab_ptr | simp add: tab_simps)+

lemma ty_isdirempty [ktab]: "ty (isdirempty d) any"
  unfolding isdirempty_def by (rule ktab_bind | rule ktab | rule ktab_upd | assumption | erule (1) ktab_ptr | simp add: tab_simps)+

lemma ty_unlink_bad [ktab]: "ty (unlink_bad dp) any"
  unfolding unlink_bad_def by (rule ktab_bind | rule ktab | rule ktab_upd | assumption | erule (1) ktab_ptr | simp add: tab_simps)+

lemma ty_unlink_entry [ktab]: "ty (unlink_entry dp ip off) any"
  unfolding unlink_entry_def by (rule ktab_bind | rule ktab | rule ktab_upd | assumption | erule (1) ktab_ptr | simp add: tab_simps)+

lemma ty_sys_unlink [ktab]: "ty sys_unlink any"
  unfolding sys_unlink_def by (rule ktab_bind | rule ktab | rule ktab_upd | assumption | erule (1) ktab_ptr | simp add: tab_simps)+

lemma ty_create_new: "ty (create_new dp name k major minor) (\<lambda>i. i < NINODE)"
  unfolding create_new_def by (rule ktab_bind | rule ktab | rule ktab_upd | assumption | erule (1) ktab_ptr | simp add: tab_simps)+

lemmas ty_create_new_rules [ktab] = ty_create_new ty_create_new [THEN kinv_any]
lemmas ty_create_new_bind [ktab_bind] = kinv_kbind [OF ty_create_new]

lemma ty_create: "ty (create path k major minor) (found (\<lambda>i. i < NINODE))"
  unfolding create_def by (rule ktab_bind | rule ktab | rule ktab_upd | assumption | erule (1) ktab_ptr | simp add: tab_simps)+

lemmas ty_create_rules [ktab] = ty_create ty_create [THEN kinv_any]
lemmas ty_create_bind [ktab_bind] = kinv_kbind [OF ty_create]

lemma ty_open_inode: "ty (open_inode path omode) (found (\<lambda>i. i < NINODE))"
  unfolding open_inode_def by (rule ktab_bind | rule ktab | rule ktab_upd | assumption | erule (1) ktab_ptr | simp add: tab_simps)+

lemmas ty_open_inode_rules [ktab] = ty_open_inode ty_open_inode [THEN kinv_any]
lemmas ty_open_inode_bind [ktab_bind] = kinv_kbind [OF ty_open_inode]

lemma ty_sys_open [ktab]: "ty sys_open any"
  unfolding sys_open_def by (rule ktab_bind | rule ktab | rule ktab_upd | assumption | erule (1) ktab_ptr | simp add: tab_simps)+

lemma ty_made [ktab]: "ty m any \<Longrightarrow> ty (made m) any"
  unfolding made_def by (rule ktab_bind | rule ktab | rule ktab_upd | assumption | erule (1) ktab_ptr | simp add: tab_simps)+

lemma ty_sys_mkdir [ktab]: "ty sys_mkdir any"
  unfolding sys_mkdir_def by (rule ktab_bind | rule ktab | rule ktab_upd | assumption | erule (1) ktab_ptr | simp add: tab_simps)+

lemma ty_sys_mknod [ktab]: "ty sys_mknod any"
  unfolding sys_mknod_def by (rule ktab_bind | rule ktab | rule ktab_upd | assumption | erule (1) ktab_ptr | simp add: tab_simps)+

lemma ty_sys_chdir [ktab]: "ty sys_chdir any"
  unfolding sys_chdir_def
  by (rule ty_myproc, rule kinv_kseq, rule ktab, rule kinv_kbind [where P = "found (\<lambda>i. i < NINODE)"])
    ((rule ktab_bind | rule ktab | rule ktab_upd | assumption | erule (1) ktab_ptr | simp add: tab_simps)+)+

lemma ty_fetch_argv [ktab]: "ty (fetch_argv u) any"
  unfolding fetch_argv_def by (rule ktab_bind | rule ktab | rule ktab_upd | assumption | erule (1) ktab_ptr | simp add: tab_simps)+

lemma ty_sys_pipe [ktab]: "ty sys_pipe any"
  unfolding sys_pipe_def by (rule ktab_bind | rule ktab | rule ktab_upd | assumption | erule (1) ktab_ptr | simp add: tab_simps)+

section \<open>Traps\<close>

lemma ty_timer_tick [ktab]: "ty (timer_tick c) any"
  unfolding timer_tick_def by (rule ktab_bind | rule ktab | rule ktab_upd | assumption | erule (1) ktab_ptr | simp add: tab_simps)+

lemma ty_leave_if_killed [ktab]: "ty leave_if_killed any"
  unfolding leave_if_killed_def by (rule ktab_bind | rule ktab | rule ktab_upd | assumption | erule (1) ktab_ptr | simp add: tab_simps)+

lemma ty_leave_if_doomed [ktab]: "ty leave_if_doomed any"
  unfolding leave_if_doomed_def by (rule ktab_bind | rule ktab | rule ktab_upd | assumption | erule (1) ktab_ptr | simp add: tab_simps)+

lemma ty_leave_from_user [ktab]: "ty (leave_from_user u) any"
  unfolding leave_from_user_def by (rule ktab_bind | rule ktab | rule ktab_upd | assumption | erule (1) ktab_ptr | simp add: tab_simps)+

lemma ty_trap_fault [ktab]: "ty (trap_fault hw no err eip k) any"
  unfolding trap_fault_def by (rule ktab_bind | rule ktab | rule ktab_upd | assumption | erule (1) ktab_ptr | simp add: tab_simps)+

lemma ty_ideintr [ktab]: "ty ideintr any"
  unfolding ideintr_def by (rule ktab_bind | rule ktab | rule ktab_upd | assumption | erule (1) ktab_ptr | simp add: tab_simps)+

lemma ty_trap_interrupt [ktab]: "ty (trap_interrupt hw tfa no) any"
  unfolding trap_interrupt_def by (rule ktab_bind | rule ktab | rule ktab_upd | assumption | erule (1) ktab_ptr | simp add: tab_simps)+

lemma ty_sys_exec [ktab]: "ty sys_exec any"
  unfolding sys_exec_def by (rule ktab_bind | rule ktab | rule ktab_upd | assumption | erule (1) ktab_ptr | simp add: tab_simps)+

lemma ty_syscalls: "(n, f) \<in> set syscalls \<Longrightarrow> ty f any"
  unfolding syscalls_def by (auto intro: ktab)

lemma ty_syscall_of: "syscall_of num = Some f \<Longrightarrow> ty f any"
  by (auto simp: syscall_of_def split: if_splits dest!: map_of_SomeD intro: ty_syscalls)

lemma ty_syscall [ktab]: "ty syscall any"
  unfolding syscall_def
  by (rule ktab_bind | rule ktab | rule ktab_upd | assumption | erule ty_syscall_of | simp add: tab_simps)+

lemma ty_trap_syscall [ktab]: "ty (trap_syscall tfa) any"
  unfolding trap_syscall_def by (rule ktab_bind | rule ktab | rule ktab_upd | simp)+

lemma ty_trap: "ty (trap hw tfa) any"
  unfolding trap_def by (rule ktab_bind | rule ktab | simp)+

section \<open>Properties\<close>

text \<open>
  C7. Type safety of the kernel's tables. Started in a state where every table has its declared size
  and every stored index is inside the table it points into, every entry into the kernel (interrupt,
  fault or system call) ends in such a state, whether it returns, waits, spins or has ended, as long as
  what the rest of the system does meanwhile keeps the tables in order.
\<close>

theorem trap_keeps_tables:
  assumes "tables_ok s" "\<forall>f \<in> set e. \<forall>t. tables_ok t \<longrightarrow> tables_ok (f t)"
  shows "case trap hw tfa s e of
      Ok _ s' _ \<Rightarrow> tables_ok s'
    | Panic _ \<Rightarrow> True
    | Dies s' _ \<Rightarrow> tables_ok s'
    | Gone s' \<Rightarrow> tables_ok s'
    | Blocked s' \<Rightarrow> tables_ok s'
    | Spins s' \<Rightarrow> tables_ok s'"
proof -
  have "env_keeps tables_ok e" using assms(2) by (simp add: env_keeps_def)
  from kinvD [OF ty_trap assms(1) this, of hw tfa] show ?thesis by (auto split: res.splits)
qed

text \<open>The state at the start of the kernel has the invariant.\<close>

lemma boot_tables: "(\<And>b. length (d b) = BSIZE) \<Longrightarrow> tables_ok (boot sy m d n)"
  by (simp add: tables_ok_def boot_defs proc_ok_def buf_wf_def cga_ok_def list_all_iff NDIRECT_def PIPESIZE_def INPUT_BUF_def)

text \<open>A running thread that has called \<^verbatim>\<open>uptime\<close>.\<close>

definition uptime_call :: kernel where
  "uptime_call = upd_proc 0 (\<lambda>_. proc0\<lparr>pstate := USED, pid := 1, ttable := thread0\<lparr>tstate := T_RUNNING, tid := 1, kstack := 0x80300000\<rparr> # replicate 15 thread0\<rparr>)
     ((boot \<lparr>sym_end = 0x80110000, sym_data = 0x80108000, sym_forkret = 0x80103000, sym_trapret = 0x80105000, sym_initcode = []\<rparr>
        (store32 (store32 (\<lambda>_. 0) (0x80300FB4 + TF_TRAPNO) 64) (0x80300FB4 + TF_EAX) 14) (\<lambda>_. replicate BSIZE 0) 1000)
      \<lparr>curproc := Some 0, curthread := Some (0, 0), ticks := 7\<rparr>)"

lemma uptime_call_tables: "tables_ok uptime_call"
  unfolding uptime_call_def
proof (rule tables_ok_upd_proc)
  show "tables_ok ((boot sy m (\<lambda>_. replicate BSIZE 0) 1000)\<lparr>curproc := Some 0, curthread := Some (0, 0), ticks := 7\<rparr>)" for sy m
    using boot_tables [of "\<lambda>_. replicate BSIZE 0" sy m 1000] by (simp add: tables_ok_def slot_ok_def NPROC_def NTHREAD_def)
qed (simp add: proc_ok_def proc0_def NTHREAD_def list_all_iff)

text \<open>The system call returns, with the number of ticks in the register \<^verbatim>\<open>eax\<close> of the trap frame.\<close>

lemma uptime_call_sel:
  "load32 (mem uptime_call) (0x80300FB4 + TF_TRAPNO) = 64" "load32 (mem uptime_call) (0x80300FB4 + TF_EAX) = 14"
  "held uptime_call = []" "curproc uptime_call = Some 0" "curthread uptime_call = Some (0, 0)" "ticks uptime_call = 7"
  "killed (ptable uptime_call ! 0) = 0" "shouldDie (thread_at uptime_call (0, 0)) = 0" "valid_thread uptime_call (0, 0)"
  by (simp_all add: uptime_call_def boot_def TF_TRAPNO_def TF_EAX_def proc0_def thread0_def thread_at_def valid_thread_def NPROC_def)
    (simp_all add: upd_proc_def load32_store32_other aligned4_def)

lemma uptime_returns: "\<exists>s'. trap hw 0x80300FB4 uptime_call [] = Ok () s' [] \<and> load32 (mem s') (0x80300FB4 + TF_EAX) = 7"
proof -
  let ?s = "upd_thread (0, 0) (\<lambda>x. x\<lparr>tf := 0x80300FB4\<rparr>) uptime_call"
  note u = uptime_call_sel
  have t: "thread_at ?s (0, 0) = (thread_at uptime_call (0, 0))\<lparr>tf := 0x80300FB4\<rparr>"
    using thread_at_upd_thread [OF u(9)] by simp
  have c: "syscall_of 14 = Some sys_uptime" by (simp add: syscall_of_def syscalls_def)
  have up: "sys_uptime ?s [] = Ok 7 ?s []"
    by (simp add: sys_uptime_def lk_acquire_apply lk_release_apply u)
      (simp add: upd_thread_def upd_proc_def u)
  let ?r = "?s\<lparr>mem := store32 (mem ?s) (0x80300FB4 + TF_EAX) 7\<rparr>"
  have l: "leave_if_killed v [] = Ok () v []" "leave_if_doomed v [] = Ok () v []"
    if "curproc v = Some 0" "curthread v = Some (0, 0)" "killed (ptable v ! 0) = 0" "shouldDie (thread_at v (0, 0)) = 0" for v
    using that by (simp_all add: leave_if_killed_def leave_if_doomed_def myproc_killed_def myproc_def mythread_def kbind_def)
  have "killed (ptable ?s ! 0) = killed (ptable uptime_call ! 0)"
    by (cases "0 < length (ptable uptime_call)") (simp_all add: upd_thread_def upd_nth_def)
  then have ks: "killed (ptable ?s ! 0) = 0" "shouldDie (thread_at ?s (0, 0)) = 0" "curproc ?s = Some 0" "curthread ?s = Some (0, 0)"
    "mem ?s = mem uptime_call"
    using u t by simp_all
  have kr: "killed (ptable ?r ! 0) = 0" "shouldDie (thread_at ?r (0, 0)) = 0" "curproc ?r = Some 0" "curthread ?r = Some (0, 0)"
    using ks by (simp_all add: thread_at_def)
  have "syscall ?s [] = Ok () ?r []"
    using ks u(2) t c up by (simp add: syscall_def mythread_def mstore32_def)
  then have "trap_syscall 0x80300FB4 uptime_call [] = Ok () ?r []"
    using l(1,2) [OF u(4,5,7,8)] l(1,2) [OF kr(3,4,1,2)] u(5) by (simp add: trap_syscall_def mythread_def)
  then have "trap hw 0x80300FB4 uptime_call [] = Ok () ?r []"
    using u(1) by (simp add: trap_def ending_def T_SYSCALL_def)
  then show ?thesis by (intro exI [of _ ?r]) simp
qed

theorem trap_keeps_tables_witness:
  "\<exists>s'. trap \<lparr>hw_cpu = 0, hw_cr2 = 0, hw_kbd = [], hw_uart = []\<rparr> 0x80300FB4 uptime_call [] = Ok () s' [] \<and> tables_ok s' \<and>
     load32 (mem s') (0x80300FB4 + TF_EAX) = 7"
proof -
  let ?hw = "\<lparr>hw_cpu = 0, hw_cr2 = 0, hw_kbd = [], hw_uart = []\<rparr>"
  obtain s' where s': "trap ?hw 0x80300FB4 uptime_call [] = Ok () s' []" "load32 (mem s') (0x80300FB4 + TF_EAX) = 7"
    using uptime_returns by blast
  have "tables_ok s'" using trap_keeps_tables [where s = uptime_call and e = "[]" and hw = ?hw and tfa = "0x80300FB4"] uptime_call_tables s'(1)
    by simp
  then show ?thesis using s' by blast
qed

end
