(* ===== verification/Fifo.thy ===== *)
theory Fifo
  imports Pipe
begin

text \<open>
  A pipe is a bounded queue of bytes. The two counters of a pipe run freely and wrap around at
  \<open>2 ^ 32\<close>; the locale \<open>bounded_queue\<close> states what the loops of \<^verbatim>\<open>pipewrite\<close> and \<^verbatim>\<open>piperead\<close> rely on,
  and the interpretation \<open>pipeq\<close> shows it for the ring of \<^verbatim>\<open>PIPESIZE\<close> bytes.
\<close>

section \<open>A bounded queue\<close>

locale bounded_queue =
  fixes ok :: "'q \<Rightarrow> bool" and queue :: "'q \<Rightarrow> 'a list" and size :: nat
    and push :: "'a \<Rightarrow> 'q \<Rightarrow> 'q" and pop :: "'q \<Rightarrow> 'q" and front :: "'q \<Rightarrow> 'a"
  assumes push_law: "ok x \<Longrightarrow> length (queue x) < size \<Longrightarrow> ok (push c x) \<and> queue (push c x) = queue x @ [c]"
    and pop_law: "ok x \<Longrightarrow> queue x \<noteq> [] \<Longrightarrow> ok (pop x) \<and> queue x = front x # queue (pop x)"
begin

lemma pushes:
  "ok x \<Longrightarrow> length (queue x) + length cs \<le> size \<Longrightarrow>
   ok (fold push cs x) \<and> queue (fold push cs x) = queue x @ cs"
  by (induction cs arbitrary: x) (simp_all add: push_law)

lemma pops:
  "ok x \<Longrightarrow> k \<le> length (queue x) \<Longrightarrow> ok ((pop ^^ k) x) \<and> queue ((pop ^^ k) x) = drop k (queue x)"
proof (induction k)
  case (Suc k)
  then have "ok ((pop ^^ k) x)" "queue ((pop ^^ k) x) = drop k (queue x)" "drop k (queue x) \<noteq> []" by simp_all
  then have "ok (pop ((pop ^^ k) x))" "drop k (queue x) = front ((pop ^^ k) x) # queue (pop ((pop ^^ k) x))"
    using pop_law [of "(pop ^^ k) x"] by simp_all
  moreover have "drop (Suc k) (queue x) = tl (drop k (queue x))" by (simp only: drop_Suc tl_drop)
  ultimately show ?case by simp
qed simp

lemma front_nth: "ok x \<Longrightarrow> k < length (queue x) \<Longrightarrow> front ((pop ^^ k) x) = queue x ! k"
  using pops [of x k] pop_law [of "(pop ^^ k) x"] by (metis drop_eq_Nil hd_drop_conv_nth less_imp_le_nat list.sel(1) not_le)

end

section \<open>The ring of bytes\<close>

definition pipe_used :: "pipe \<Rightarrow> nat" where
  "pipe_used x = unat (nwrite x - nread x)"

definition pipe_ok :: "pipe \<Rightarrow> bool" where
  "pipe_ok x \<longleftrightarrow> length (pdata x) = unat PIPESIZE \<and> pipe_used x \<le> unat PIPESIZE"

definition pipe_queue :: "pipe \<Rightarrow> uchar list" where
  "pipe_queue x = map (\<lambda>i. pdata x ! ((unat (nread x) + i) mod unat PIPESIZE)) [0..<pipe_used x]"

lemma length_pipe_queue [simp]: "length (pipe_queue x) = pipe_used x"
  by (simp add: pipe_queue_def)

lemma unat_PIPESIZE [simp]: "unat PIPESIZE = 512"
  by (simp add: PIPESIZE_def)

text \<open>\<^verbatim>\<open>PIPESIZE\<close> divides \<open>2 ^ 32\<close>, so that the position in the ring survives the wrap-around.\<close>

lemma unat_mod_PIPESIZE: "unat (a mod PIPESIZE) = unat a mod 512"
  by (simp add: PIPESIZE_def unat_mod_distrib)

lemma ring_pos: "unat ((a + of_nat i) mod PIPESIZE) = (unat a + i) mod 512"
proof -
  have "unat (a + of_nat i) = (unat a + i) mod 2 ^ 32"
    by (simp add: unat_word_ariths unat_of_nat mod_add_right_eq)
  then show ?thesis by (simp add: unat_mod_PIPESIZE mod_mod_cancel)
qed

lemma pipe_nwrite: "nwrite x = nread x + of_nat (pipe_used x)"
  by (simp add: pipe_used_def)

lemma ring_pos_neq:
  assumes "i < k" "k < 512"
  shows "(u + i) mod 512 \<noteq> (u + k) mod (512 :: nat)"
proof
  assume "(u + i) mod 512 = (u + k) mod 512"
  then have "512 dvd (u + k) - (u + i)" using assms mod_eq_dvd_iff_nat [of "u + i" "u + k" 512] by simp
  then show False using assms by (auto dest: dvd_imp_le)
qed

lemma pipe_push_ok:
  assumes "pipe_ok x" "pipe_used x < 512"
  shows "pipe_ok (pipe_push c x) \<and> pipe_queue (pipe_push c x) = pipe_queue x @ [c]"
proof -
  let ?k = "pipe_used x" and ?u = "unat (nread x)"
  have "nwrite x + 1 - nread x = of_nat (Suc ?k)" by (subst pipe_nwrite) simp
  moreover have "unat (of_nat (Suc ?k) :: uint32) = Suc ?k" by (rule unat_of_nat_addr) (use assms(2) in simp)
  ultimately have "unat (nwrite x + 1 - nread x) = Suc ?k" by (simp only:)
  then have used: "pipe_used (pipe_push c x) = Suc ?k" by (simp add: pipe_used_def pipe_push_def)
  have "unat (nwrite x mod PIPESIZE) = (?u + ?k) mod 512" by (subst pipe_nwrite) (rule ring_pos)
  then have push: "pdata (pipe_push c x) = (pdata x)[(?u + ?k) mod 512 := c]" "nread (pipe_push c x) = nread x"
    by (simp_all add: pipe_push_def)
  have "(?u + ?k) mod 512 \<noteq> (?u + i) mod 512" if "i < ?k" for i using ring_pos_neq [OF that assms(2)] by (rule not_sym)
  moreover have "(?u + ?k) mod 512 < length (pdata x)" using assms by (simp add: pipe_ok_def)
  ultimately show ?thesis using assms by (auto simp: pipe_ok_def pipe_queue_def used push)
qed

lemma pipe_push_used: "pipe_ok x \<Longrightarrow> pipe_used x < 512 \<Longrightarrow> pipe_used (pipe_push c x) = Suc (pipe_used x)"
  using pipe_push_ok [of x c] by (metis length_append_singleton length_pipe_queue)

lemma pipe_pop_ok:
  assumes "pipe_ok x" "pipe_queue x \<noteq> []"
  shows "pipe_ok (pipe_pop x) \<and> pipe_queue x = pipe_head x # pipe_queue (pipe_pop x)"
proof -
  have pos: "0 < pipe_used x" using assms(2) by (simp flip: length_pipe_queue)
  then have "nwrite x - nread x \<noteq> 0" unfolding pipe_used_def by (simp add: unat_gt_0)
  then have "unat (nwrite x - nread x - 1) = unat (nwrite x - nread x) - 1" by (rule unat_minus_one)
  then have used: "pipe_used x = Suc (pipe_used (pipe_pop x))"
    using pos by (simp add: pipe_used_def pipe_pop_def diff_diff_eq [symmetric] del: unat_gt_0)
  have next_pos: "(unat (nread x) + Suc i) mod 512 = (unat (nread x + 1) + i) mod 512" for i
    using ring_pos [of "nread x" "Suc i"] ring_pos [of "nread x + 1" i] by (simp add: add.assoc)
  have head: "pipe_head x = pdata x ! (unat (nread x) mod 512)" by (simp add: pipe_head_def unat_mod_PIPESIZE)
  have pop: "pdata (pipe_pop x) = pdata x" "nread (pipe_pop x) = nread x + 1" by (simp_all add: pipe_pop_def)
  have "[0..<pipe_used x] = 0 # map Suc [0..<pipe_used (pipe_pop x)]"
    unfolding used by (subst upt_conv_Cons) (simp_all only: map_Suc_upt zero_less_Suc)
  then show ?thesis
    using assms(1) used by (simp add: pipe_ok_def pipe_queue_def head pop next_pos comp_def del: upt_Suc add_Suc_right)
qed

interpretation pipeq: bounded_queue pipe_ok pipe_queue 512 pipe_push pipe_pop pipe_head
  by unfold_locales (rule pipe_push_ok pipe_pop_ok, assumption, simp)+

section \<open>Bytes of the user\<close>

text \<open>
  \<open>ureads s a bs\<close>: the bytes at address \<open>a\<close> of the current address space are \<open>bs\<close>. \<open>uwrites s a n\<close>: the
  \<open>n\<close> addresses from \<open>a\<close> on are mapped to different bytes, and no store to these changes the mapping.
\<close>

definition ureads :: "kernel \<Rightarrow> addr \<Rightarrow> uchar list \<Rightarrow> bool" where
  "ureads s a bs \<longleftrightarrow> (\<forall>j < length bs. \<exists>pa. translate s (a + of_nat j) = Some pa \<and> mem s pa = bs ! j)"

definition uwrites :: "kernel \<Rightarrow> addr \<Rightarrow> addr list \<Rightarrow> bool" where
  "uwrites s a pas \<longleftrightarrow> distinct pas \<and>
     (\<forall>m. (\<forall>x. x \<notin> set pas \<longrightarrow> m x = mem s x) \<longrightarrow>
        (\<forall>j < length pas. translate (s\<lparr>mem := m\<rparr>) (a + of_nat j) = Some (pas ! j)))"

lemma translate_cong: "mem s = mem t \<Longrightarrow> cr3 s = cr3 t \<Longrightarrow> translate s a = translate t a"
  by (simp add: translate_def Let_def)

lemma ureads_cong: "mem s = mem t \<Longrightarrow> cr3 s = cr3 t \<Longrightarrow> ureads s a bs = ureads t a bs"
  using translate_cong [of s t] by (simp add: ureads_def)

lemma uwrites_cong: "mem s = mem t \<Longrightarrow> cr3 s = cr3 t \<Longrightarrow> uwrites s a pas = uwrites t a pas"
  using translate_cong [of "s\<lparr>mem := m\<rparr>" "t\<lparr>mem := m\<rparr>" for m] by (simp add: uwrites_def)

lemma upd_pipe_sel [simp]:
  "mem (upd_pipe p f s) = mem s" "cr3 (upd_pipe p f s) = cr3 s" "pipes (upd_pipe p f s) p = f (pipes s p)"
  "(upd_pipe p f s)\<lparr>mem := m\<rparr> = upd_pipe p f (s\<lparr>mem := m\<rparr>)"
  "upd_pipe p g (upd_pipe p f s) = upd_pipe p (\<lambda>x. g (f x)) s"
  by (simp_all add: upd_pipe_def)

lemma user_upd_pipe [simp]:
  "translate (upd_pipe p f s) = translate s" "ureads (upd_pipe p f s) = ureads s" "uwrites (upd_pipe p f s) = uwrites s"
  by (intro ext translate_cong ureads_cong uwrites_cong; simp)+

lemma user_upd_other [simp]:
  "ureads (s\<lparr>held := h\<rparr>) = ureads s" "ureads (s\<lparr>ptable := t\<rparr>) = ureads s"
  "uwrites (s\<lparr>held := h\<rparr>) = uwrites s" "uwrites (s\<lparr>ptable := t\<rparr>) = uwrites s"
  by (intro ext ureads_cong uwrites_cong; simp)+

lemma kload8_ureads: "ureads s a bs \<Longrightarrow> j < length bs \<Longrightarrow> kload8 (a + of_nat j) s e = Ok (bs ! j) s e"
  by (auto simp: ureads_def kload8_def)

lemma ureads_Cons:
  "ureads s a (c # bs) \<longleftrightarrow> (\<exists>pa. translate s a = Some pa \<and> mem s pa = c) \<and> ureads s (a + 1) bs"
  by (simp add: ureads_def All_less_Suc2 add.assoc)

lemma uwritesD:
  "uwrites s a pas \<Longrightarrow> (\<And>x. x \<notin> set pas \<Longrightarrow> m x = mem s x) \<Longrightarrow> j < length pas \<Longrightarrow>
   translate (s\<lparr>mem := m\<rparr>) (a + of_nat j) = Some (pas ! j)"
  by (simp add: uwrites_def)

lemma uwrites_store: "uwrites s a (pa # pas) \<Longrightarrow> uwrites (s\<lparr>mem := (mem s)(pa := v)\<rparr>) (a + 1) pas"
  by (auto simp: uwrites_def All_less_Suc2 add.assoc)

section \<open>The loops\<close>

definition write_body :: "addr \<Rightarrow> addr \<Rightarrow> uint32 \<Rightarrow> uint32 \<Rightarrow> (uint32 + bool) kern" where
  "write_body p a n = (\<lambda>i.
     if \<not> sint i < sint n then kret (Inr True)
     else
       kbind (kwait (pipe_room p)) (\<lambda>ok.
       if \<not> ok then kret (Inr False)
       else
         kbind (kload8 (a + i)) (\<lambda>c.
         kseq (kmod (upd_pipe p (pipe_push c))) (kret (Inl (i + 1))))))"

definition read_body :: "addr \<Rightarrow> addr \<Rightarrow> uint32 \<Rightarrow> uint32 \<Rightarrow> (uint32 + uint32) kern" where
  "read_body p a n = (\<lambda>i.
     if \<not> sint i < sint n then kret (Inr i)
     else
       kbind (kget (\<lambda>s. pipes s p)) (\<lambda>x.
       if nread x = nwrite x then kret (Inr i)
       else
         kseq (kmod (upd_pipe p pipe_pop))
        (kseq (kstore8 (a + i) (pipe_head x)) (kret (Inl (i + 1))))))"

lemma sint_of_small: "k < 2 ^ 31 \<Longrightarrow> sint (of_nat k :: uint32) = int k"
  by (simp add: sint_uint32 uint_nat)

lemma pipe_full: "pipe_ok x \<Longrightarrow> nwrite x = nread x + PIPESIZE \<longleftrightarrow> pipe_used x = 512"
proof -
  have "nwrite x = nread x + PIPESIZE \<longleftrightarrow> nwrite x - nread x = PIPESIZE" by (auto simp: algebra_simps)
  also have "\<dots> \<longleftrightarrow> pipe_used x = 512" unfolding pipe_used_def by (metis unat_PIPESIZE unsigned_word_eqI)
  finally show ?thesis .
qed

lemma pipe_empty: "nread x = nwrite x \<longleftrightarrow> pipe_used x = 0"
  by (auto simp: pipe_used_def unat_eq_zero)

lemma write_loop:
  assumes "ureads s (a + of_nat i) bs" "i + length bs = k" "k < 2 ^ 31"
    and "pipe_ok (pipes s p)" "pipe_used (pipes s p) + length bs \<le> 512"
  shows "kloop (Suc (length bs)) (write_body p a (of_nat k)) (of_nat i) s e =
    Ok True (upd_pipe p (fold pipe_push bs) s) e"
  using assms
proof (induction bs arbitrary: i s)
  case Nil
  then show ?case by (simp add: write_body_def sint_of_small upd_pipe_def)
next
  case (Cons c bs)
  let ?x = "pipes s p" and ?s = "upd_pipe p (pipe_push c) s"
  have room: "kwait (pipe_room p) s e = Ok True s e"
    by (rule kwait_Some) (use Cons.prems pipe_full [of ?x] in \<open>simp add: pipe_room_def\<close>)
  have load: "kload8 (a + of_nat i) s e = Ok c s e" using kload8_ureads [OF Cons.prems(1), of 0 e] by simp
  have "write_body p a (of_nat k) (of_nat i) s e = Ok (Inl (of_nat (Suc i))) ?s e"
    using Cons.prems by (simp add: write_body_def sint_of_small room load)
  moreover have "kloop (Suc (length bs)) (write_body p a (of_nat k)) (of_nat (Suc i)) ?s e =
      Ok True (upd_pipe p (fold pipe_push bs) ?s) e"
  proof (rule Cons.IH)
    show "ureads ?s (a + of_nat (Suc i)) bs"
      using Cons.prems(1) by (simp add: ureads_Cons add_ac)
  qed (use Cons.prems pipe_push_ok [of ?x c] in \<open>simp_all add: pipe_push_used\<close>)
  ultimately show ?case by simp
qed

lemma read_loop:
  assumes "uwrites s (a + of_nat i) pas" "i + length pas = k" "k < 2 ^ 31" "pipe_ok (pipes s p)"
  shows "\<exists>m. kloop (Suc (length pas)) (read_body p a (of_nat k)) (of_nat i) s e =
      Ok (of_nat (i + min (length pas) (pipe_used (pipes s p))))
        (upd_pipe p (pipe_pop ^^ min (length pas) (pipe_used (pipes s p))) (s\<lparr>mem := m\<rparr>)) e \<and>
    ureads (s\<lparr>mem := m\<rparr>) (a + of_nat i) (take (length pas) (pipe_queue (pipes s p))) \<and>
    (\<forall>x. x \<notin> set pas \<longrightarrow> m x = mem s x)"
  using assms
proof (induction pas arbitrary: i s)
  case Nil
  then show ?case
    by (intro exI [of _ "mem s"]) (simp add: read_body_def sint_of_small upd_pipe_def ureads_def)
next
  case (Cons pa pas)
  let ?x = "pipes s p" and ?b = "read_body p a (of_nat k)"
  have i: "sint (of_nat i :: uint32) < sint (of_nat k :: uint32)" using Cons.prems by (simp add: sint_of_small)
  show ?case
  proof (cases "pipe_used ?x = 0")
    case True
    then have "?b (of_nat i) s e = Ok (Inr (of_nat i)) s e"
      unfolding read_body_def using i by (simp add: pipe_empty)
    moreover have "pipe_queue ?x = []" using True by (simp flip: length_0_conv)
    ultimately show ?thesis
      using True by (intro exI [of _ "mem s"]) (simp add: upd_pipe_def ureads_def)
  next
    case False
    then obtain q where q: "pipe_queue ?x = pipe_head ?x # q" "pipe_queue (pipe_pop ?x) = q" "pipe_ok (pipe_pop ?x)"
      using pipe_pop_ok [OF Cons.prems(4)] by (auto simp flip: length_0_conv)
    then have used: "pipe_used ?x = Suc (pipe_used (pipe_pop ?x))"
      by (metis length_Cons length_pipe_queue)
    define s' where "s' = upd_pipe p pipe_pop (s\<lparr>mem := (mem s)(pa := pipe_head ?x)\<rparr>)"
    have "translate s (a + of_nat i) = Some pa"
      using uwritesD [OF Cons.prems(1), of "mem s" 0] by simp
    then have store: "kstore8 (a + of_nat i) (pipe_head ?x) (upd_pipe p pipe_pop s) e = Ok () s' e"
      by (simp add: kstore8_def mmod_def s'_def)
    have body: "?b (of_nat i) s e = Ok (Inl (of_nat (Suc i))) s' e"
      unfolding read_body_def using i False store by (simp add: pipe_empty)
    have w': "uwrites s' (a + of_nat (Suc i)) pas"
      using uwrites_store [OF Cons.prems(1), of "pipe_head ?x"] by (simp add: s'_def add_ac)
    have x': "pipes s' p = pipe_pop ?x" by (simp add: s'_def)
    from Cons.IH [OF w' _ Cons.prems(3)] Cons.prems(2) q x' obtain m where
      m: "kloop (Suc (length pas)) ?b (of_nat (Suc i)) s' e =
        Ok (of_nat (Suc i + min (length pas) (pipe_used (pipe_pop ?x))))
          (upd_pipe p (pipe_pop ^^ min (length pas) (pipe_used (pipe_pop ?x))) (s'\<lparr>mem := m\<rparr>)) e"
      "ureads (s'\<lparr>mem := m\<rparr>) (a + of_nat (Suc i)) (take (length pas) q)"
      "\<And>x. x \<notin> set pas \<Longrightarrow> m x = mem s' x"
      by auto
    have pa: "m pa = pipe_head ?x" "\<And>x. x \<notin> set (pa # pas) \<Longrightarrow> m x = mem s x"
      using m(3) Cons.prems(1) by (auto simp: s'_def uwrites_def)
    then have "translate (s\<lparr>mem := m\<rparr>) (a + of_nat i) = Some pa"
      using uwritesD [OF Cons.prems(1), of m 0] by simp
    then have "ureads (s\<lparr>mem := m\<rparr>) (a + of_nat i) (take (length (pa # pas)) (pipe_queue ?x))"
      using m(2) pa(1) by (simp add: q(1) ureads_Cons add_ac s'_def)
    moreover have "kloop (Suc (length (pa # pas))) ?b (of_nat i) s e =
        Ok (of_nat (i + min (length (pa # pas)) (pipe_used ?x)))
          (upd_pipe p (pipe_pop ^^ min (length (pa # pas)) (pipe_used ?x)) (s\<lparr>mem := m\<rparr>)) e"
      using body m(1) by (simp add: used s'_def funpow_Suc_right comp_def del: funpow.simps)
    ultimately show ?thesis using pa(2) by blast
  qed
qed

lemma pipewrite_eq:
  assumes "held s = []" "ureads s a bs" "pipe_ok (pipes s p)" "pipe_used (pipes s p) + length bs \<le> 512"
  shows "pipewrite p a (of_nat (length bs)) s e = Ok (of_nat (length bs))
    ((upd_pipe p (fold pipe_push bs) s)\<lparr>ptable := map (wake_proc (ChPipeRead p)) (ptable s)\<rparr>) e"
proof -
  have "kloop (Suc (length bs)) (write_body p a (of_nat (length bs))) 0 (s\<lparr>held := [PipeLock p]\<rparr>) e =
      Ok True (upd_pipe p (fold pipe_push bs) (s\<lparr>held := [PipeLock p]\<rparr>)) e"
    using write_loop [of "s\<lparr>held := [PipeLock p]\<rparr>" a 0 bs "length bs" p e] assms by simp
  then show ?thesis
    using assms
    by (simp add: pipewrite_def write_body_def [symmetric] lk_acquire_apply lk_release_apply wakeup_eq upd_pipe_def
        del: kloop.simps)
qed

lemma piperead_eq:
  assumes "held s = []" "uwrites s b pas" "length pas < 2 ^ 31" "pipe_ok (pipes s p)" "pipe_queue (pipes s p) \<noteq> []"
  shows "\<exists>m. piperead p b (of_nat (length pas)) s e = Ok (of_nat (min (length pas) (pipe_used (pipes s p))))
      ((upd_pipe p (pipe_pop ^^ min (length pas) (pipe_used (pipes s p))) s)
        \<lparr>mem := m, ptable := map (wake_proc (ChPipeWrite p)) (ptable s)\<rparr>) e \<and>
    ureads (s\<lparr>mem := m\<rparr>) b (take (length pas) (pipe_queue (pipes s p))) \<and>
    (\<forall>x. x \<notin> set pas \<longrightarrow> m x = mem s x)"
proof -
  let ?s = "s\<lparr>held := [PipeLock p]\<rparr>"
  have data: "kwait (pipe_data p) ?s e = Ok True ?s e"
    by (rule kwait_Some) (use assms(5) in \<open>simp add: pipe_data_def pipe_empty flip: length_0_conv\<close>)
  obtain m where m: "kloop (Suc (length pas)) (read_body p b (of_nat (length pas))) 0 ?s e =
      Ok (of_nat (min (length pas) (pipe_used (pipes s p))))
        (upd_pipe p (pipe_pop ^^ min (length pas) (pipe_used (pipes s p))) (?s\<lparr>mem := m\<rparr>)) e"
    "ureads (?s\<lparr>mem := m\<rparr>) b (take (length pas) (pipe_queue (pipes s p)))" "\<forall>x. x \<notin> set pas \<longrightarrow> m x = mem s x"
    using read_loop [of ?s b 0 pas "length pas" p e] assms by auto
  have "ureads (s\<lparr>mem := m\<rparr>) b (take (length pas) (pipe_queue (pipes s p)))"
    using m(2) ureads_cong [of "?s\<lparr>mem := m\<rparr>" "s\<lparr>mem := m\<rparr>"] by simp
  then show ?thesis
    using assms m data
    by (intro exI [of _ m]) (simp add: piperead_def read_body_def [symmetric] lk_acquire_apply lk_release_apply
        wakeup_eq upd_pipe_def del: kloop.simps)
qed

text \<open>
  C17. A pipe is a queue of bytes. A write that finds room appends its bytes to the contents; a read of
  a pipe that is not empty takes as many bytes as it asks for, or all there are, from the front and
  stores them at the address given; whatever the values of the two counters, which wrap around at
  \<open>2 ^ 32\<close>.
\<close>

theorem pipe_refines_queue:
  assumes "held s = []" "pipe_ok (pipes s p)" "ureads s a bs" "length (pipe_queue (pipes s p)) + length bs \<le> 512"
    and "uwrites s b pas" "length pas < 2 ^ 31" "q = pipe_queue (pipes s p) @ bs" "q \<noteq> []"
  shows "\<exists>s1 s2.
    pipewrite p a (of_nat (length bs)) s e = Ok (of_nat (length bs)) s1 e \<and> pipe_queue (pipes s1 p) = q \<and>
    piperead p b (of_nat (length pas)) s1 e = Ok (of_nat (min (length pas) (length q))) s2 e \<and>
    ureads s2 b (take (length pas) q) \<and> pipe_queue (pipes s2 p) = drop (length pas) q \<and> pipe_ok (pipes s2 p)"
proof -
  define s1 where "s1 = (upd_pipe p (fold pipe_push bs) s)\<lparr>ptable := map (wake_proc (ChPipeRead p)) (ptable s)\<rparr>"
  let ?k = "min (length pas) (length q)"
  have wrt: "pipewrite p a (of_nat (length bs)) s e = Ok (of_nat (length bs)) s1 e"
    using pipewrite_eq [OF assms(1,3,2)] assms(4) by (simp add: s1_def)
  have s1: "pipe_ok (pipes s1 p)" "pipe_queue (pipes s1 p) = q" "held s1 = []" "uwrites s1 b pas"
    using pipeq.pushes [OF assms(2), of bs] assms by (simp_all add: s1_def)
  then have len: "pipe_used (pipes s1 p) = length q" by (metis length_pipe_queue)
  obtain m where m: "piperead p b (of_nat (length pas)) s1 e = Ok (of_nat ?k)
      ((upd_pipe p (pipe_pop ^^ ?k) s1)\<lparr>mem := m, ptable := map (wake_proc (ChPipeWrite p)) (ptable s1)\<rparr>) e"
    "ureads (s1\<lparr>mem := m\<rparr>) b (take (length pas) q)"
    using piperead_eq [OF s1(3,4) assms(6) s1(1), of e] assms(8) unfolding len s1(2) by blast
  define s2 where "s2 = (upd_pipe p (pipe_pop ^^ ?k) s1)\<lparr>mem := m, ptable := map (wake_proc (ChPipeWrite p)) (ptable s1)\<rparr>"
  have "ureads s2 b (take (length pas) q)" using m(2) by (simp add: s2_def)
  moreover have "pipes s2 p = (pipe_pop ^^ ?k) (pipes s1 p)" by (simp add: s2_def)
  then have "pipe_ok (pipes s2 p)" "pipe_queue (pipes s2 p) = drop ?k q"
    using pipeq.pops [OF s1(1), of ?k] by (simp_all only: s1(2) min.cobounded2)
  moreover have "drop ?k q = drop (length pas) q" by (simp add: min_def)
  ultimately show ?thesis using wrt m(1) s1(2) unfolding s2_def [symmetric] by auto
qed

text \<open>An empty pipe whose counters are about to wrap around, and two bytes to write.\<close>

definition pipe_sample :: kernel where
  "pipe_sample = (sample [])\<lparr>mem := (\<lambda>_. 0)(0x80001000 := 104, 0x80001001 := 105),
     pipes := (\<lambda>_. \<lparr>pdata = replicate 512 0, nread = -1, nwrite = -1, readopen = 1, writeopen = 1\<rparr>)\<rparr>"

lemma pipe_sample_user:
  "ureads pipe_sample 0x80001000 [104, 105]" "uwrites pipe_sample 0x80002000 [0x80002000, 0x80002001]"
  by (auto simp: ureads_def uwrites_def pipe_sample_def translate_def KERNBASE_def All_less_Suc2 less_Suc_eq)

theorem pipe_refines_queue_witness:
  "\<exists>s1 s2. pipewrite 0x80005000 0x80001000 2 pipe_sample [] = Ok 2 s1 [] \<and>
    piperead 0x80005000 0x80002000 2 s1 [] = Ok 2 s2 [] \<and> ureads s2 0x80002000 [104, 105]"
proof -
  have p: "pipe_ok (pipes pipe_sample 0x80005000)" "pipe_queue (pipes pipe_sample 0x80005000) = []"
    "held pipe_sample = []"
    by (simp_all add: pipe_sample_def pipe_ok_def pipe_queue_def pipe_used_def sample_defs)
  show ?thesis
    using pipe_refines_queue [OF p(3,1) pipe_sample_user(1) _ pipe_sample_user(2), of "[104, 105]" "[]"]
    by (auto simp: p(2))
qed

end
