(* ===== verification/Execfail.thy ===== *)
theory Execfail
  imports Exec Sleeplock
begin

text \<open>
  The error path of \<^verbatim>\<open>exec\<close>. The code at the label \<^verbatim>\<open>bad\<close> releases \<^verbatim>\<open>ptable.lock\<close>, which \<^verbatim>\<open>exec\<close> holds
  only after the program has been loaded. The lock discipline of the routines called before shows
  that the lock is free when the header of the file is refused.
\<close>

lemma lk_bal_put_loc: "lk_bal h (put_loc d bs)"
  unfolding put_loc_def by (rule klock | simp)+

lemma lk_bal_exec_cleanup: "lk_bal [] (exec_cleanup 0 ip)"
  unfolding exec_cleanup_def by (rule klock | simp)+

lemma exec_bad_panics:
  assumes "held s = []" "exec_cleanup 0 ip s e = Ok () s' e'"
  shows "exec_bad 0 ip s e = Panic ''release''"
proof -
  have "held s' = []" using lk_okD [OF lk_bal_exec_cleanup assms(1), of ip e] assms(2) by simp
  then show ?thesis using assms(2) by (simp add: exec_bad_def lk_release_apply kseq_def kbind_def)
qed

text \<open>
  C22. Executing a file that is not an ELF program, because it is shorter than an ELF header or has a
  different magic number, panics the kernel: the error path gives the file back and then releases a
  lock that is not held.
\<close>

theorem exec_not_elf_panics:
  assumes "held s = []" "readi put_loc ip [] 0 ELFHDR_SIZE s e = Ok (r, x) s1 e1"
    and "r \<noteq> ELFHDR_SIZE \<or> e_magic (elf_of x) \<noteq> ELF_MAGIC"
    and "exec_cleanup 0 (Some ip) s1 e1 = Ok () s2 e2"
  shows "exec_file path argv cp ct ip s e = Panic ''release''"
proof -
  have "lk_bal [] (readi put_loc ip [] 0 ELFHDR_SIZE)" by (rule lk_ok_readi [OF lk_bal_put_loc refl])
  then have "held s1 = []" using lk_okD [OF _ assms(1), of _ _ e] assms(2) by fastforce
  then show ?thesis
    using exec_bad_panics [OF _ assms(4)] assms(2,3) by (auto simp: exec_file_def Let_def)
qed

text \<open>Giving back a file that stays in use, and ending a transaction that has changed nothing.\<close>

lemma get_sl_wakes [simp]: "get_sl l (wakes ch s) = get_sl l s"
  by (cases l) (simp_all add: wakes_def)

lemma wakes_sel [simp]:
  "held (wakes ch s) = held s" "curproc (wakes ch s) = curproc s" "klog (wakes ch s) = klog s" "icache (wakes ch s) = icache s"
  by (simp_all add: wakes_def)

lemma iunlockput_kept:
  assumes "held s = []" "curproc s = Some p" "i < length (icache s)" "ilk (icache s ! i) = sl_by (pid (ptable s ! p))"
    and "1 \<le> iref (icache s ! i)" "inlink (icache s ! i) \<noteq> 0"
  shows "\<exists>s'. iunlockput i s e = Ok () s' e \<and> klog s' = klog s \<and> held s' = []"
proof -
  define s1 where "s1 = wakes (ChSleep (InodeLk i)) (upd_sl (InodeLk i) (\<lambda>x. x\<lparr>slocked := 0, slpid := 0\<rparr>) s)"
  have v: "valid_sl s (InodeLk i)" using assms(3) by (simp add: valid_sl_def)
  have "iunlock (Some i) s e = Ok () s1 e"
    using assms by (simp add: iunlock_def holdingsleep_eq releasesleep_eq s1_def)
  moreover have s1: "held s1 = []" "curproc s1 = Some p" "klog s1 = klog s" "slocked (ilk (icache s1 ! i)) = 0"
    "inlink (icache s1 ! i) \<noteq> 0" "i < length (icache s1)"
    using assms get_upd_sl [OF v] by (simp_all add: s1_def upd_inode_def)
  define s2 where "s2 = upd_sl (InodeLk i) (\<lambda>x. x\<lparr>slocked := 1, slpid := pid (ptable s1 ! p)\<rparr>) s1"
  have a: "acquiresleep (InodeLk i) s1 e = Ok () s2 e"
    unfolding s2_def by (rule acquiresleep_free) (simp_all add: s1)
  have s2: "held s2 = []" "klog s2 = klog s" "inlink (icache s2 ! i) \<noteq> 0"
    using s1 by (simp_all add: s2_def upd_inode_def)
  have "\<exists>s'. iput i s1 e = Ok () s' e \<and> klog s' = klog s \<and> held s' = []"
    using s2 by (simp add: iput_def a releasesleep_eq lk_acquire_apply lk_release_apply upd_inode_def)
  ultimately show ?thesis by (simp add: iunlockput_def)
qed

lemma end_op_unchanged:
  assumes "held s = []" "committing (klog s) = 0" "outstanding (klog s) = 1" "lh_n (lh (klog s)) = 0"
  shows "\<exists>s'. end_op s e = Ok () s' e"
  using assms by (simp add: end_op_def commit_def lk_acquire_apply lk_release_apply wakeup_eq upd_log_def)

text \<open>An empty regular file in slot 0 of the inode cache, locked by the process, inside a transaction.\<close>

definition exec_sample :: kernel where
  "exec_sample = (sample [])\<lparr>icache := [inode0\<lparr>iref := 2, ivalid := 1, itype := T_FILE, inlink := 1,
     ilk := sl_by 1\<rparr>], klog := (klog (sample []))\<lparr>outstanding := 1\<rparr>\<rparr>"

lemma exec_sample_cleanup: "\<exists>s'. exec_cleanup 0 (Some 0) exec_sample [] = Ok () s' []"
proof -
  obtain s1 where s1: "iunlockput 0 exec_sample [] = Ok () s1 []" "klog s1 = klog exec_sample" "held s1 = []"
    using iunlockput_kept [of exec_sample 0 0 "[]"] by (auto simp: exec_sample_def sample_defs)
  obtain s2 where "end_op s1 [] = Ok () s2 []"
    using end_op_unchanged [of s1 "[]"] s1 by (auto simp: exec_sample_def sample_def boot_def)
  with s1 show ?thesis by (simp add: exec_cleanup_def)
qed

lemma exec_sample_readi: "readi put_loc 0 [] 0 ELFHDR_SIZE exec_sample [] = Ok (0, []) exec_sample []"
  by (simp add: readi_def read_blocks_def exec_sample_def inode0_def ELFHDR_SIZE_def T_FILE_def T_DEV_def)

theorem exec_not_elf_panics_witness: "exec_file (PStr []) [] 0 (0, 0) 0 exec_sample [] = Panic ''release''"
proof -
  obtain s' where "exec_cleanup 0 (Some 0) exec_sample [] = Ok () s' []" using exec_sample_cleanup by blast
  then show ?thesis
    by (rule exec_not_elf_panics [OF _ exec_sample_readi, rotated 2]) (simp_all add: exec_sample_def ELFHDR_SIZE_def)
qed

end
