(* ===== verification/Grep.thy ===== *)
theory Grep
  imports Xv6_Prelude
begin

text \<open>
  \<^verbatim>\<open>grep.c\<close>: the matcher for regular expressions and the loop that prints the lines that match. A
  terminated string, from a pointer into it up to the byte 0, is the list of its bytes without the 0;
  \<^verbatim>\<open>text++\<close> is the tail of the list. The matcher is proved equal to the language the expression
  denotes, the loop to a filter on the lines of the input.
\<close>

section \<open>The matcher\<close>

abbreviation (input) CARET :: uchar where "CARET \<equiv> 94"
abbreviation (input) DOT :: uchar where "DOT \<equiv> 46"
abbreviation (input) STAR :: uchar where "STAR \<equiv> 42"
abbreviation (input) DOLLAR :: uchar where "DOLLAR \<equiv> 36"
abbreviation (input) NL :: uchar where "NL \<equiv> 10"

text \<open>
  \<open>matchstar\<close> tries the rest of the expression before every character it lets \<open>c*\<close> consume. The first
  argument of a pair of measures is the length of the expression, so that the call of \<^verbatim>\<open>matchhere\<close> from
  \<^verbatim>\<open>matchstar\<close> on the same text also decreases.
\<close>

function matchhere :: "uchar list \<Rightarrow> uchar list \<Rightarrow> bool"
  and matchstar :: "uchar \<Rightarrow> uchar list \<Rightarrow> uchar list \<Rightarrow> bool" where
  "matchhere re tx =
     (case re of
        [] \<Rightarrow> True
      | r0 # re1 \<Rightarrow>
          if re1 \<noteq> [] \<and> hd re1 = STAR then matchstar r0 (tl re1) tx
          else if r0 = DOLLAR \<and> re1 = [] then tx = []
          else if tx \<noteq> [] \<and> (r0 = DOT \<or> r0 = hd tx) then matchhere re1 (tl tx)
          else False)"
| "matchstar c re tx =
     (if matchhere re tx then True
      else if tx \<noteq> [] \<and> (hd tx = c \<or> c = DOT) then matchstar c re (tl tx)
      else False)"
  by pat_completeness auto
termination
  by (relation "inv_image (less_than <*lex*> less_than)
       (\<lambda>x. case x of Inl (re, tx) \<Rightarrow> (2 * length re, length tx)
                    | Inr (c, re, tx) \<Rightarrow> (2 * length re + 1, length tx))") auto

declare matchhere.simps [simp del] matchstar.simps [simp del]

text \<open>The loop of \<^verbatim>\<open>match\<close>: every suffix of the text, the empty one included.\<close>

fun match_loop :: "uchar list \<Rightarrow> uchar list \<Rightarrow> bool" where
  "match_loop re tx =
     (if matchhere re tx then True
      else case tx of [] \<Rightarrow> False | _ # tx' \<Rightarrow> match_loop re tx')"

declare match_loop.simps [simp del]

definition match :: "uchar list \<Rightarrow> uchar list \<Rightarrow> bool" where
  "match re tx =
     (if re \<noteq> [] \<and> hd re = CARET then matchhere (tl re) tx else match_loop re tx)"

section \<open>The language of an expression\<close>

text \<open>
  The reference: an expression is a list of characters, each with or without a star, and an optional
  \<^verbatim>\<open>$\<close> at the end; it denotes a set of words.
\<close>

datatype item = One uchar | Many uchar

fun parse :: "uchar list \<Rightarrow> item list \<times> bool" where
  "parse [] = ([], False)"
| "parse [c] = (if c = DOLLAR then ([], True) else ([One c], False))"
| "parse (c # d # re) =
     (if d = STAR then (case parse re of (xs, e) \<Rightarrow> (Many c # xs, e))
      else (case parse (d # re) of (xs, e) \<Rightarrow> (One c # xs, e)))"

definition fits :: "uchar \<Rightarrow> uchar \<Rightarrow> bool" where
  "fits c x \<longleftrightarrow> c = DOT \<or> c = x"

primrec lang :: "item list \<Rightarrow> uchar list set" where
  "lang [] = {[]}"
| "lang (i # is') =
     (case i of
        One c \<Rightarrow> {x # w | x w. fits c x \<and> w \<in> lang is'}
      | Many c \<Rightarrow> {u @ w | u w. list_all (fits c) u \<and> w \<in> lang is'})"

text \<open>The text begins with a word of the language; with \<^verbatim>\<open>$\<close> it is such a word.\<close>

definition denotes :: "uchar list \<Rightarrow> uchar list \<Rightarrow> bool" where
  "denotes re tx \<longleftrightarrow> (case parse re of (xs, e) \<Rightarrow> \<exists>u v. tx = u @ v \<and> u \<in> lang xs \<and> (e \<longrightarrow> v = []))"

lemma denotes_Nil [simp]: "denotes [] tx"
  by (simp add: denotes_def)

lemma denotes_dollar [simp]: "denotes [DOLLAR] tx \<longleftrightarrow> tx = []"
  by (simp add: denotes_def)

lemma starts_one:
  "(\<exists>u v. tx = u @ v \<and> u \<in> lang (One c # xs) \<and> P v) \<longleftrightarrow>
     (\<exists>x t. tx = x # t \<and> fits c x \<and> (\<exists>u v. t = u @ v \<and> u \<in> lang xs \<and> P v))" (is "?l \<longleftrightarrow> ?r")
proof
  assume ?l
  then obtain x w v where "tx = x # (w @ v)" "fits c x" "w \<in> lang xs" "P v" by auto
  then show ?r by blast
next
  assume ?r
  then obtain x w v where *: "tx = (x # w) @ v" "fits c x" "w \<in> lang xs" "P v" by auto
  then have "x # w \<in> lang (One c # xs)" by simp
  with * show ?l by blast
qed

lemma starts_many:
  "(\<exists>u v. tx = u @ v \<and> u \<in> lang (Many c # xs) \<and> P v) \<longleftrightarrow>
     (\<exists>r t. tx = r @ t \<and> list_all (fits c) r \<and> (\<exists>u v. t = u @ v \<and> u \<in> lang xs \<and> P v))" (is "?l \<longleftrightarrow> ?r")
proof
  assume ?l
  then obtain r w v where "tx = r @ (w @ v)" "list_all (fits c) r" "w \<in> lang xs" "P v" by auto
  then show ?r by blast
next
  assume ?r
  then obtain r w v where *: "tx = (r @ w) @ v" "list_all (fits c) r" "w \<in> lang xs" "P v" by auto
  then have "r @ w \<in> lang (Many c # xs)" by auto
  with * show ?l by blast
qed

lemma denotes_one:
  assumes "\<not> (re \<noteq> [] \<and> hd re = STAR)" "\<not> (c = DOLLAR \<and> re = [])"
  shows "denotes (c # re) tx \<longleftrightarrow> (\<exists>x t. tx = x # t \<and> fits c x \<and> denotes re t)"
proof -
  obtain xs e where re: "parse re = (xs, e)" by (cases "parse re")
  then have "parse (c # re) = (One c # xs, e)" using assms by (cases re) auto
  then show ?thesis unfolding denotes_def re prod.case by (simp only: prod.case starts_one)
qed

lemma denotes_many:
  "denotes (c # STAR # re) tx \<longleftrightarrow> (\<exists>u t. tx = u @ t \<and> list_all (fits c) u \<and> denotes re t)"
proof -
  obtain xs e where re: "parse re = (xs, e)" by (cases "parse re")
  then have "parse (c # STAR # re) = (Many c # xs, e)" by simp
  then show ?thesis unfolding denotes_def re prod.case by (simp only: prod.case starts_many)
qed

lemma denotes_many_step:
  "denotes (c # STAR # re) tx \<longleftrightarrow>
     denotes re tx \<or> (\<exists>x t. tx = x # t \<and> fits c x \<and> denotes (c # STAR # re) t)"
proof
  assume "denotes (c # STAR # re) tx"
  then obtain u t where ut: "tx = u @ t" "list_all (fits c) u" "denotes re t"
    unfolding denotes_many by blast
  then show "denotes re tx \<or> (\<exists>x t. tx = x # t \<and> fits c x \<and> denotes (c # STAR # re) t)"
    by (cases u) (auto simp: denotes_many)
next
  assume "denotes re tx \<or> (\<exists>x t. tx = x # t \<and> fits c x \<and> denotes (c # STAR # re) t)"
  then show "denotes (c # STAR # re) tx"
  proof
    assume "denotes re tx"
    then show ?thesis unfolding denotes_many by (intro exI [of _ "[]"] exI [of _ tx]) simp
  next
    assume "\<exists>x t. tx = x # t \<and> fits c x \<and> denotes (c # STAR # re) t"
    then obtain x u t where "tx = (x # u) @ t" "list_all (fits c) (x # u)" "denotes re t"
      unfolding denotes_many by auto
    then show ?thesis unfolding denotes_many by blast
  qed
qed

lemma matchhere_matchstar:
  "matchhere re tx \<longleftrightarrow> denotes re tx"
  "matchstar c re tx \<longleftrightarrow> denotes (c # STAR # re) tx"
proof (induction re tx and c re tx rule: matchhere_matchstar.induct)
  case (1 re tx)
  show ?case
  proof (cases re)
    case Nil
    then show ?thesis by (subst matchhere.simps) simp
  next
    case (Cons r0 re1)
    show ?thesis
    proof (cases "re1 \<noteq> [] \<and> hd re1 = STAR")
      case True
      then obtain re2 where re1: "re1 = STAR # re2" by (cases re1) auto
      have "matchhere re tx = matchstar r0 re2 tx" by (subst matchhere.simps) (simp add: Cons re1)
      then show ?thesis using 1(1) [OF Cons True] by (simp add: Cons re1)
    next
      case star: False
      show ?thesis
      proof (cases "r0 = DOLLAR \<and> re1 = []")
        case True
        then show ?thesis using Cons by (subst matchhere.simps) simp
      next
        case False
        have "matchhere re tx \<longleftrightarrow> tx \<noteq> [] \<and> fits r0 (hd tx) \<and> matchhere re1 (tl tx)"
          using star False by (subst matchhere.simps) (auto simp: Cons fits_def)
        also have "\<dots> \<longleftrightarrow> (\<exists>x t. tx = x # t \<and> fits r0 x \<and> denotes re1 t)"
          using 1(2) [OF Cons star False] by (cases tx) (auto simp: fits_def)
        also have "\<dots> \<longleftrightarrow> denotes re tx" unfolding Cons by (rule denotes_one [OF star False, symmetric])
        finally show ?thesis .
      qed
    qed
  qed
next
  case (2 c re tx)
  have "matchstar c re tx \<longleftrightarrow>
      denotes re tx \<or> tx \<noteq> [] \<and> fits c (hd tx) \<and> denotes (c # STAR # re) (tl tx)"
    using 2 by (subst matchstar.simps) (auto simp: fits_def)
  also have "\<dots> \<longleftrightarrow> denotes (c # STAR # re) tx"
    by (subst (2) denotes_many_step) (cases tx, auto)
  finally show ?case .
qed

lemma match_loop_suffix: "match_loop re tx \<longleftrightarrow> (\<exists>u v. tx = u @ v \<and> denotes re v)"
proof (induction tx)
  case Nil
  then show ?case by (subst match_loop.simps) (simp add: matchhere_matchstar)
next
  case (Cons x tx)
  have "(\<exists>u v. x # tx = u @ v \<and> denotes re v) \<longleftrightarrow>
      denotes re (x # tx) \<or> (\<exists>u v. tx = u @ v \<and> denotes re v)"
    by (auto simp: Cons_eq_append_conv)
  then show ?case by (subst match_loop.simps) (simp add: matchhere_matchstar Cons)
qed

text \<open>
  C38. \<^verbatim>\<open>match\<close> is equivalent to the language of the expression: an expression that begins with the
  anchor \<^verbatim>\<open>^\<close> matches a text that begins with a word of the language of the rest, any other expression
  a text that contains such a word at some position; a final \<^verbatim>\<open>$\<close> asks that the word reaches the end.
\<close>

theorem match_language:
  "match re tx \<longleftrightarrow>
     (if re \<noteq> [] \<and> hd re = CARET then denotes (tl re) tx else (\<exists>u v. tx = u @ v \<and> denotes re v))"
  by (simp add: match_def matchhere_matchstar match_loop_suffix)

section \<open>The lines of the input\<close>

text \<open>
  The buffer is a list of 1024 bytes, \<^verbatim>\<open>p\<close> and \<^verbatim>\<open>q\<close> are indices into it. \<open>line_end\<close> is
  \<^verbatim>\<open>strchr(p, '\n')\<close>, which stops at the first 0 byte; \<open>cstr\<close> is the string at a position.
\<close>

fun line_end :: "uchar list \<Rightarrow> nat option" where
  "line_end [] = None"
| "line_end (c # cs) =
     (if c = 0 then None else if c = NL then Some 0 else map_option Suc (line_end cs))"

definition cstr :: "uchar list \<Rightarrow> uchar list" where
  "cstr = takeWhile (\<lambda>c. c \<noteq> 0)"

lemma line_end_less: "line_end cs = Some n \<Longrightarrow> n < length cs"
  by (induction cs arbitrary: n) (auto split: if_splits)

text \<open>The inner loop: the buffer, the position after the last line and the bytes written so far.\<close>

function grep_lines :: "uchar list \<Rightarrow> uchar list \<Rightarrow> nat \<Rightarrow> uchar list \<Rightarrow> uchar list \<times> nat \<times> uchar list" where
  "grep_lines pattern buf p out =
     (case line_end (drop p buf) of
        None \<Rightarrow> (buf, p, out)
      | Some n \<Rightarrow>
          let q = p + n; buf1 = buf[q := 0] in
          if match pattern (cstr (drop p buf1))
          then (let buf2 = buf1[q := NL] in
                grep_lines pattern buf2 (q + 1) (out @ take (q + 1 - p) (drop p buf2)))
          else grep_lines pattern buf1 (q + 1) out)"
  by pat_completeness auto
termination
  by (relation "measure (\<lambda>(pattern, buf, p, out). length buf - p)") (auto dest!: line_end_less)

declare grep_lines.simps [simp del]

text \<open>
  \<^verbatim>\<open>read\<close> returns at most the number of bytes asked for: \<open>src\<close> lists what each call finds, a call with
  less room leaves the rest to the next one. No bytes, or an error, ends the loop.
\<close>

definition read_some :: "nat \<Rightarrow> uchar list list \<Rightarrow> uchar list \<times> uchar list list" where
  "read_some n src =
     (case src of
        [] \<Rightarrow> ([], [])
      | c # cs \<Rightarrow> if length c \<le> n then (c, cs) else (take n c, drop n c # cs))"

lemma read_some_less:
  "(d, src') = read_some n src \<Longrightarrow> d \<noteq> [] \<Longrightarrow> sum_list (map length src') < sum_list (map length src)"
  by (auto simp: read_some_def split: list.splits if_splits)

text \<open>\<open>put_at\<close> stores bytes from an index on: the call of \<^verbatim>\<open>read\<close>, and \<^verbatim>\<open>memmove\<close> to the start.\<close>

definition put_at :: "uchar list \<Rightarrow> nat \<Rightarrow> uchar list \<Rightarrow> uchar list" where
  "put_at buf i d = take i buf @ d @ drop (i + length d) buf"

function grep :: "uchar list \<Rightarrow> uchar list \<Rightarrow> nat \<Rightarrow> uchar list list \<Rightarrow> uchar list \<Rightarrow> uchar list" where
  "grep pattern buf m src out =
     (let (d, src') = read_some (1024 - m - 1) src in
      if d = [] then out
      else
        let m1 = m + length d; buf1 = (put_at buf m d)[m1 := 0];
            (buf2, p, out') = grep_lines pattern buf1 0 out;
            m2 = (if p = 0 then 0 else m1);
            (m3, buf3) = (if m2 > 0 then (m2 - p, put_at buf2 0 (take (m2 - p) (drop p buf2))) else (m2, buf2))
        in grep pattern buf3 m3 src' out')"
  by pat_completeness auto
termination
  by (relation "measure (\<lambda>(pattern, buf, m, src, out). sum_list (map length src))")
    (auto dest: read_some_less)

declare grep.simps [simp del]

text \<open>The reference: the complete lines of a text and what follows the last one.\<close>

primrec split_nl :: "uchar list \<Rightarrow> uchar list list \<times> uchar list" where
  "split_nl [] = ([], [])"
| "split_nl (c # cs) =
     (case split_nl cs of (ls, r) \<Rightarrow>
        if c = NL then ([] # ls, r)
        else (case ls of [] \<Rightarrow> ([], c # r) | l # ls' \<Rightarrow> ((c # l) # ls', r)))"

definition shown :: "uchar list \<Rightarrow> uchar list list \<Rightarrow> uchar list" where
  "shown pattern ls = concat (map (\<lambda>l. l @ [NL]) (filter (match pattern) ls))"

lemma shown_simps [simp]:
  "shown pattern [] = []" "shown pattern (ls @ ls') = shown pattern ls @ shown pattern ls'"
  "shown pattern (l # ls) = (if match pattern l then l @ [NL] else []) @ shown pattern ls"
  by (simp_all add: shown_def)

lemma split_nl_none: "NL \<notin> set d \<Longrightarrow> split_nl d = ([], d)"
  by (induction d) auto

lemma split_nl_line:
  "NL \<notin> set u \<Longrightarrow> split_nl (u @ NL # v) = (u # fst (split_nl v), snd (split_nl v))"
  by (induction u) (simp_all add: case_prod_unfold)

lemma split_nl_append:
  "split_nl (a @ b) =
     (fst (split_nl a) @ fst (split_nl (snd (split_nl a) @ b)), snd (split_nl (snd (split_nl a) @ b)))"
  by (induction a) (auto simp: case_prod_unfold split: list.splits)

lemma split_nl_rest: "length (snd (split_nl d)) \<le> length d" "set (snd (split_nl d)) \<subseteq> set d"
  by (induction d) (auto simp: case_prod_unfold split: list.splits)

lemma split_nl_rest_no_nl: "NL \<notin> set (snd (split_nl d))"
  by (induction d) (auto simp: case_prod_unfold split: list.splits)

lemma split_nl_last: "NL \<notin> set z \<Longrightarrow> snd (split_nl (y @ NL # z)) = z"
  by (subst split_nl_append) (simp add: split_nl_line split_nl_rest_no_nl split_nl_none)

lemma split_nl_rest_append: "NL \<in> set b \<Longrightarrow> snd (split_nl (a @ b)) = snd (split_nl b)"
  by (auto dest!: split_list_last simp: split_nl_last simp flip: append_assoc)

lemma split_nl_found: "fst (split_nl d) = [] \<longleftrightarrow> NL \<notin> set d"
  by (induction d) (auto simp: case_prod_unfold split: list.splits)

lemma split_nl_rest_less: "NL \<in> set b \<Longrightarrow> length (snd (split_nl b)) < length b"
  by (auto dest!: split_list_last simp: split_nl_last)

lemma line_end_none: "NL \<notin> set d \<Longrightarrow> line_end (d @ 0 # post) = None"
  by (induction d) auto

lemma line_end_line: "NL \<notin> set u \<Longrightarrow> 0 \<notin> set u \<Longrightarrow> line_end (u @ NL # v) = Some (length u)"
  by (induction u) auto

lemma cstr_prefix: "0 \<notin> set u \<Longrightarrow> cstr (u @ 0 # v) = u"
  unfolding cstr_def by (subst takeWhile_append2) auto

text \<open>The inner loop on a buffer that holds the text \<open>d\<close> from \<open>p\<close> on, followed by a 0 byte.\<close>

lemma grep_lines_ref:
  assumes "0 \<notin> set d"
  shows "\<exists>pre'. grep_lines pattern (pre @ d @ 0 # post) (length pre) out =
    (pre' @ snd (split_nl d) @ 0 # post, length pre', out @ shown pattern (fst (split_nl d))) \<and>
    length pre' + length (snd (split_nl d)) = length pre + length d"
  using assms
proof (induction "length d" arbitrary: d pre out rule: less_induct)
  case less
  show ?case
  proof (cases "NL \<in> set d")
    case False
    then show ?thesis
      by (intro exI [of _ pre]) (subst grep_lines.simps, simp add: line_end_none split_nl_none)
  next
    case True
    then obtain u v where d: "d = u @ NL # v" and u: "NL \<notin> set u" by (auto dest!: split_list_first)
    have nul: "0 \<notin> set u" "0 \<notin> set v" using less.prems d by auto
    let ?sep = "if match pattern u then NL else 0"
    let ?out = "out @ (if match pattern u then u @ [NL] else [])"
    have step: "grep_lines pattern (pre @ d @ 0 # post) (length pre) out =
        grep_lines pattern ((pre @ u @ [?sep]) @ v @ 0 # post) (length (pre @ u @ [?sep])) ?out"
      by (subst grep_lines.simps)
        (simp add: d line_end_line u nul cstr_prefix list_update_append Let_def)
    obtain pre' where "grep_lines pattern ((pre @ u @ [?sep]) @ v @ 0 # post) (length (pre @ u @ [?sep])) ?out =
        (pre' @ snd (split_nl v) @ 0 # post, length pre', ?out @ shown pattern (fst (split_nl v)))"
      "length pre' + length (snd (split_nl v)) = length (pre @ u @ [?sep]) + length v"
      using less.hyps [OF _ nul(2), of "pre @ u @ [?sep]" ?out] d by auto
    then show ?thesis unfolding step by (intro exI [of _ pre']) (simp add: d split_nl_line [OF u])
  qed
qed

text \<open>One iteration of \<^verbatim>\<open>grep\<close>, when the unfinished line and the next read fit into the buffer.\<close>

lemma read_some_fits: "length c \<le> n \<Longrightarrow> read_some n (c # cs) = (c, cs)"
  by (simp add: read_some_def)

lemma put_at_0: "put_at (r @ buf) 0 d = d @ drop (length d) (r @ buf)"
  by (simp add: put_at_def)

lemma grep_step_ref:
  assumes buf: "length buf = 1024" "take (length r) buf = r" and fit: "length r + length c \<le> 1023"
    and c: "NL \<in> set c" "0 \<notin> set c" "0 \<notin> set r"
  shows "\<exists>buf'. length buf' = 1024 \<and> take (length (snd (split_nl c))) buf' = snd (split_nl c) \<and>
    grep pattern buf (length r) (c # cs) out =
      grep pattern buf' (length (snd (split_nl c))) cs (out @ shown pattern (fst (split_nl (r @ c))))"
proof -
  let ?m = "length (r @ c)" and ?r = "snd (split_nl c)"
  define post where "post = drop (Suc ?m) buf"
  have rd: "read_some (1023 - length r) (c # cs) = (c, cs)" using fit by (simp add: read_some_fits)
  have "put_at buf (length r) c = (r @ c) @ drop ?m buf" using buf by (simp add: put_at_def)
  moreover have "drop ?m buf = buf ! ?m # post" unfolding post_def using buf fit by (simp add: Cons_nth_drop_Suc)
  ultimately have buf1: "(put_at buf (length r) c)[?m := 0] = (r @ c) @ 0 # post"
    by (simp only: list_update_length)
  have split: "snd (split_nl (r @ c)) = ?r" by (rule split_nl_rest_append [OF c(1)])
  from grep_lines_ref [of "r @ c" pattern "[]" post out] c obtain pre' where
    lines: "grep_lines pattern ((r @ c) @ 0 # post) 0 out =
      (pre' @ ?r @ 0 # post, length pre', out @ shown pattern (fst (split_nl (r @ c))))"
    and len: "length pre' + length ?r = ?m"
    unfolding split by auto
  have pre: "pre' \<noteq> []" using split_nl_rest_less [OF c(1)] len by auto
  let ?b = "put_at (pre' @ ?r @ 0 # post) 0 ?r"
  have "length ?b = 1024" using len buf fit by (simp add: put_at_def post_def)
  moreover have "take (length ?r) ?b = ?r" by (simp add: put_at_def)
  moreover have "grep pattern buf (length r) (c # cs) out =
      grep pattern ?b (length ?r) cs (out @ shown pattern (fst (split_nl (r @ c))))"
  proof -
    have "c \<noteq> []" using c(1) by auto
    moreover have "?m - length pre' = length ?r" using len by simp
    moreover have "take (length ?r) (drop (length pre') (pre' @ ?r @ 0 # post)) = ?r" by simp
    ultimately show ?thesis
      using pre buf1 lines by (subst grep.simps) (simp add: rd Let_def)
  qed
  ultimately show ?thesis by blast
qed

lemma grep_lines_of_input:
  assumes "length buf = 1024" "take (length r) buf = r" "length r \<le> 511" "0 \<notin> set r" "NL \<notin> set r"
    and "\<forall>c \<in> set src. length c \<le> 512 \<and> NL \<in> set c \<and> 0 \<notin> set c"
  shows "grep pattern buf (length r) src out = out @ shown pattern (fst (split_nl (r @ concat src)))"
  using assms
proof (induction src arbitrary: buf r out)
  case Nil
  then show ?case by (subst grep.simps) (simp add: read_some_def split_nl_none)
next
  case (Cons c src)
  let ?r = "snd (split_nl c)"
  have c: "length c \<le> 512" "NL \<in> set c" "0 \<notin> set c" using Cons.prems(6) by simp_all
  obtain buf' where buf': "length buf' = 1024" "take (length ?r) buf' = ?r"
    "grep pattern buf (length r) (c # src) out =
      grep pattern buf' (length ?r) src (out @ shown pattern (fst (split_nl (r @ c))))"
    using grep_step_ref [OF Cons.prems(1,2) _ c(2,3) Cons.prems(4)] Cons.prems(3) c(1) by fastforce
  have "length ?r \<le> 511" "0 \<notin> set ?r" "NL \<notin> set ?r"
    using split_nl_rest_less [OF c(2)] split_nl_rest(2) [of c] split_nl_rest_no_nl c by auto
  from Cons.IH [OF buf'(1,2) this] Cons.prems(6)
  have "grep pattern buf (length r) (c # src) out =
      out @ shown pattern (fst (split_nl (r @ c)) @ fst (split_nl (?r @ concat src)))"
    unfolding buf'(3) by simp
  also have "fst (split_nl (r @ c)) @ fst (split_nl (?r @ concat src)) = fst (split_nl ((r @ c) @ concat src))"
    unfolding split_nl_append [of "r @ c"] split_nl_rest_append [OF c(2)] by simp
  finally show ?case by simp
qed



text \<open>
  A read without a newline forgets the line read so far: of the line \<^verbatim>\<open>ab\<close>, read in two parts, only
  \<^verbatim>\<open>b\<close> is left, and the pattern \<^verbatim>\<open>a\<close> does not match.
\<close>

lemma grep_forgets_start_of_line:
  "grep [97] (replicate 1024 0) 0 [[97], [98, 10]] [] = []"
  by code_simp

end
