(* ===== verification/Umalloc.thy ===== *)
theory Umalloc
  imports Memory
begin

text \<open>
  \<^verbatim>\<open>umalloc.c\<close>, the storage allocator of the user library. The free blocks form a circular list through
  their headers, in the order of their addresses, with the static header \<^verbatim>\<open>base\<close> of size 0; sizes count
  headers of 8 bytes. The address of \<^verbatim>\<open>base\<close> and the answer of the kernel to \<^verbatim>\<open>sbrk\<close> are arguments.
\<close>

section \<open>The allocator\<close>

record uheap =
  umem :: memory
  freep :: addr
  ubrk :: addr

text \<open>The fields of a header: \<^verbatim>\<open>s.ptr\<close> and \<^verbatim>\<open>s.size\<close>.\<close>

definition hptr :: "memory \<Rightarrow> addr \<Rightarrow> addr" where "hptr m p = load32 m p"
definition hsize :: "memory \<Rightarrow> addr \<Rightarrow> uint32" where "hsize m p = load32 m (p + 4)"
definition set_hptr :: "addr \<Rightarrow> addr \<Rightarrow> memory \<Rightarrow> memory" where "set_hptr p v m = store32 m p v"
definition set_hsize :: "addr \<Rightarrow> uint32 \<Rightarrow> memory \<Rightarrow> memory" where "set_hsize p v m = store32 m (p + 4) v"

text \<open>The search of \<^verbatim>\<open>free\<close> for the place of the block in the list.\<close>

partial_function (option) free_find :: "memory \<Rightarrow> addr \<Rightarrow> addr \<Rightarrow> addr option" where
  "free_find m bp p =
     (if bp > p \<and> bp < hptr m p then Some p
      else if p \<ge> hptr m p \<and> (bp > p \<or> bp < hptr m p) then Some p
      else free_find m bp (hptr m p))"

text \<open>Joining the block to the next one, and to the one before.\<close>

definition join_next :: "addr \<Rightarrow> addr \<Rightarrow> memory \<Rightarrow> memory" where
  "join_next bp p m =
     (if bp + 8 * hsize m bp = hptr m p then
        (let m1 = set_hsize bp (hsize m bp + hsize m (hptr m p)) m
         in set_hptr bp (hptr m1 (hptr m1 p)) m1)
      else set_hptr bp (hptr m p) m)"

definition join_prev :: "addr \<Rightarrow> addr \<Rightarrow> memory \<Rightarrow> memory" where
  "join_prev bp p m =
     (if p + 8 * hsize m p = bp then
        (let m1 = set_hsize p (hsize m p + hsize m bp) m in set_hptr p (hptr m1 bp) m1)
      else set_hptr p bp m)"

definition ufree :: "addr \<Rightarrow> uheap \<Rightarrow> uheap option" where
  "ufree ap h =
     (let bp = ap - 8 in
      map_option (\<lambda>p. h\<lparr>umem := join_prev bp p (join_next bp p (umem h)), freep := p\<rparr>)
        (free_find (umem h) bp (freep h)))"

text \<open>
  \<^verbatim>\<open>sbrk\<close> as the program sees it: the old end of the memory, or -1. \<open>grant\<close> is the decision of the kernel.
\<close>

definition u_sbrk :: "(uint32 \<Rightarrow> addr \<Rightarrow> bool) \<Rightarrow> uint32 \<Rightarrow> uheap \<Rightarrow> addr \<times> uheap" where
  "u_sbrk grant n h = (if grant n (ubrk h) then (ubrk h, h\<lparr>ubrk := ubrk h + n\<rparr>) else (-1, h))"

definition morecore :: "(uint32 \<Rightarrow> addr \<Rightarrow> bool) \<Rightarrow> uint32 \<Rightarrow> uheap \<Rightarrow> (addr \<times> uheap) option" where
  "morecore grant nu h =
     (let nu = (if nu < 4096 then 4096 else nu); (p, h) = u_sbrk grant (nu * 8) h in
      if p = -1 then Some (0, h)
      else map_option (\<lambda>h. (freep h, h)) (ufree (p + 8) (h\<lparr>umem := set_hsize p nu (umem h)\<rparr>)))"

text \<open>A block that is large enough: unlinked when it fits exactly, else cut at its end.\<close>

definition take_block :: "uint32 \<Rightarrow> addr \<Rightarrow> addr \<Rightarrow> uheap \<Rightarrow> addr \<times> uheap" where
  "take_block nunits prevp p h =
     (if hsize (umem h) p = nunits then
        (p + 8, h\<lparr>umem := set_hptr prevp (hptr (umem h) p) (umem h), freep := prevp\<rparr>)
      else
        (let m1 = set_hsize p (hsize (umem h) p - nunits) (umem h);
             q = p + 8 * hsize m1 p
         in (q + 8, h\<lparr>umem := set_hsize q nunits m1, freep := prevp\<rparr>)))"

partial_function (option) malloc_loop ::
    "(uint32 \<Rightarrow> addr \<Rightarrow> bool) \<Rightarrow> uint32 \<Rightarrow> addr \<Rightarrow> addr \<Rightarrow> uheap \<Rightarrow> (addr \<times> uheap) option" where
  "malloc_loop grant nunits prevp p h =
     (if hsize (umem h) p \<ge> nunits then Some (take_block nunits prevp p h)
      else if p = freep h then
        (case morecore grant nunits h of
           None \<Rightarrow> None
         | Some (p, h) \<Rightarrow>
             if p = 0 then Some (0, h) else malloc_loop grant nunits p (hptr (umem h) p) h)
      else malloc_loop grant nunits p (hptr (umem h) p) h)"

definition units :: "uint32 \<Rightarrow> uint32" where
  "units nbytes = (nbytes + 8 - 1) div 8 + 1"

definition malloc :: "addr \<Rightarrow> (uint32 \<Rightarrow> addr \<Rightarrow> bool) \<Rightarrow> uint32 \<Rightarrow> uheap \<Rightarrow> (addr \<times> uheap) option" where
  "malloc base grant nbytes h =
     (let h = (if freep h = 0
               then h\<lparr>umem := set_hsize base 0 (set_hptr base base (umem h)), freep := base\<rparr> else h)
      in malloc_loop grant (units nbytes) (freep h) (hptr (umem h) (freep h)) h)"

section \<open>Headers in memory\<close>

definition hdr :: "addr \<Rightarrow> bool" where
  "hdr p \<longleftrightarrow> aligned4 p \<and> unat p + 8 \<le> 2 ^ 32"

definition apart :: "addr \<Rightarrow> addr \<Rightarrow> bool" where
  "apart p q \<longleftrightarrow> unat p + 8 \<le> unat q \<or> unat q + 8 \<le> unat p"

lemma apart_sym: "apart p q \<Longrightarrow> apart q p"
  by (auto simp: apart_def)

lemma hdr_add4: "hdr p \<Longrightarrow> unat (p + 4) = unat p + 4 \<and> aligned4 (p + 4)"
  unfolding hdr_def aligned4_def by (simp add: unat_plus_if')

lemma hdr_fields:
  assumes "hdr p"
  shows "hptr (set_hptr p v m) p = v" "hsize (set_hsize p v m) p = v"
    "hptr (set_hsize p v m) p = hptr m p" "hsize (set_hptr p v m) p = hsize m p"
proof -
  have "aligned4 p" "aligned4 (p + 4)" "p + 4 \<noteq> p" using assms hdr_add4 [OF assms] by (auto simp: hdr_def)
  then show "hptr (set_hptr p v m) p = v" "hsize (set_hsize p v m) p = v"
    "hptr (set_hsize p v m) p = hptr m p" "hsize (set_hptr p v m) p = hsize m p"
    using load32_store32_other [of p "p + 4"] load32_store32_other [of "p + 4" p]
    by (simp_all add: hptr_def hsize_def set_hptr_def set_hsize_def)
qed

lemma hdr_other:
  assumes "hdr p" "hdr q" "apart p q"
  shows "hptr (set_hptr p v m) q = hptr m q" "hsize (set_hsize p v m) q = hsize m q"
    "hptr (set_hsize p v m) q = hptr m q" "hsize (set_hptr p v m) q = hsize m q"
proof -
  have "p \<noteq> q" "p \<noteq> q + 4" "p + 4 \<noteq> q" "p + 4 \<noteq> q + 4"
    using assms(3) hdr_add4 [OF assms(1)] hdr_add4 [OF assms(2)] by (auto simp: apart_def)
  moreover have "aligned4 p" "aligned4 (p + 4)" "aligned4 q" "aligned4 (q + 4)"
    using assms(1,2) hdr_add4 by (auto simp: hdr_def)
  ultimately show "hptr (set_hptr p v m) q = hptr m q" "hsize (set_hsize p v m) q = hsize m q"
    "hptr (set_hsize p v m) q = hptr m q" "hsize (set_hptr p v m) q = hsize m q"
    by (simp_all add: hptr_def hsize_def set_hptr_def set_hsize_def load32_store32_other)
qed

text \<open>A store to a header changes only its 8 bytes.\<close>

definition within :: "nat set \<Rightarrow> memory \<Rightarrow> memory \<Rightarrow> bool" where
  "within S m m' \<longleftrightarrow> (\<forall>x. unat x \<notin> S \<longrightarrow> m' x = m x)"

lemma within_refl: "within S m m"
  by (simp add: within_def)

lemma within_trans: "within S m m' \<Longrightarrow> within T m' m'' \<Longrightarrow> within (S \<union> T) m m''"
  by (simp add: within_def)

lemma within_mono: "within S m m' \<Longrightarrow> S \<subseteq> T \<Longrightarrow> within T m m'"
  by (auto simp: within_def)

definition hbytes :: "addr \<Rightarrow> nat set" where
  "hbytes p = {unat p ..< unat p + 8}"

lemma within_store32:
  assumes "aligned4 a"
  shows "within {unat a ..< unat a + 4} m (store32 m a v)"
proof -
  have "unat a \<le> unat x \<and> unat x < unat a + 4" if "x \<in> {a, a + 1, a + 2, a + 3}" for x
    using that unat_aligned_add [OF assms, of 1] unat_aligned_add [OF assms, of 2]
      unat_aligned_add [OF assms, of 3] by auto
  then show ?thesis by (auto simp: within_def store32_apply)
qed

lemma within_hdr:
  assumes "hdr p"
  shows "within (hbytes p) m (set_hptr p v m)" "within (hbytes p) m (set_hsize p v m)"
  using within_store32 [of p m v] within_store32 [of "p + 4" m v] hdr_add4 [OF assms] assms
  by (auto simp: set_hptr_def set_hsize_def hbytes_def hdr_def elim!: within_mono)

lemma within_hdr_both: "hdr p \<Longrightarrow> within (hbytes p) m (set_hptr p v (set_hsize p w m))"
  using within_trans [OF within_hdr(2) within_hdr(1)] by (metis Un_absorb)

section \<open>The free list\<close>

text \<open>
  A block is the address of its header and its size in headers. \<open>lst m p bs q\<close>: the pointers lead from
  \<open>p\<close> through the blocks \<open>bs\<close> to \<open>q\<close>. \<open>spaced l bs u\<close>: the blocks lie between the addresses \<open>l\<close> and \<open>u\<close>, in
  increasing order, without overlap. \<open>cells bs\<close>: their bytes.
\<close>

type_synonym block = "addr \<times> nat"

fun lst :: "memory \<Rightarrow> addr \<Rightarrow> block list \<Rightarrow> addr \<Rightarrow> bool" where
  "lst m p [] q \<longleftrightarrow> hptr m p = q"
| "lst m p ((b, n) # bs) q \<longleftrightarrow> hptr m p = b \<and> unat (hsize m b) = n \<and> lst m b bs q"

fun spaced :: "nat \<Rightarrow> block list \<Rightarrow> nat \<Rightarrow> bool" where
  "spaced l [] u \<longleftrightarrow> l \<le> u"
| "spaced l ((b, n) # bs) u \<longleftrightarrow> l \<le> unat b \<and> 1 \<le> n \<and> aligned4 b \<and> spaced (unat b + 8 * n) bs u"

definition bytes_of :: "block \<Rightarrow> nat set" where
  "bytes_of x = {unat (fst x) ..< unat (fst x) + 8 * snd x}"

definition cells :: "block list \<Rightarrow> nat set" where
  "cells bs = (\<Union>x \<in> set bs. bytes_of x)"

lemma cells_simps [simp]: "cells [] = {}" "cells (x # xs) = bytes_of x \<union> cells xs" "cells (xs @ ys) = cells xs \<union> cells ys"
  by (auto simp: cells_def)

lemma spaced_le: "spaced l bs u \<Longrightarrow> l \<le> u"
  by (induction bs arbitrary: l) (auto, fastforce)

lemma spaced_lower: "spaced l bs u \<Longrightarrow> l' \<le> l \<Longrightarrow> spaced l' bs u"
  by (cases bs) auto

lemma spaced_upper: "spaced l bs u \<Longrightarrow> u \<le> u' \<Longrightarrow> spaced l bs u'"
  by (induction bs arbitrary: l) auto

lemma spaced_append: "spaced l (xs @ ys) u \<longleftrightarrow> (\<exists>k. spaced l xs k \<and> spaced k ys u)"
proof (induction xs arbitrary: l)
  case Nil
  then show ?case using spaced_lower by auto
qed auto

lemma spaced_block: "spaced l bs u \<Longrightarrow> (b, n) \<in> set bs \<Longrightarrow> l \<le> unat b \<and> 1 \<le> n \<and> aligned4 b \<and> unat b + 8 * n \<le> u"
  by (induction bs arbitrary: l) (auto dest: spaced_le, fastforce)

lemma cells_spaced: "spaced l bs u \<Longrightarrow> cells bs \<subseteq> {l ..< u}"
  by (auto simp: cells_def bytes_of_def dest!: spaced_block)

lemma lst_append: "lst m p (xs @ (b, n) # ys) q \<longleftrightarrow> lst m p xs b \<and> unat (hsize m b) = n \<and> lst m b ys q"
  by (induction xs arbitrary: p) auto

lemma lst_cong:
  assumes "lst m p bs q" "hptr m' p' = hptr m p"
    and "\<forall>x \<in> set bs. hptr m' (fst x) = hptr m (fst x) \<and> hsize m' (fst x) = hsize m (fst x)"
  shows "lst m' p' bs q"
  using assms by (induction bs arbitrary: p p') auto

text \<open>The headers of a spaced list, and a store to a header outside of it.\<close>

lemma spaced_hdr: "spaced l bs u \<Longrightarrow> u \<le> 2 ^ 31 \<Longrightarrow> (b, n) \<in> set bs \<Longrightarrow> hdr b"
  using spaced_block [of l bs u b n] by (auto simp: hdr_def)

lemma spaced_apart_below: "spaced l bs u \<Longrightarrow> u \<le> unat q \<Longrightarrow> (b, n) \<in> set bs \<Longrightarrow> apart q b"
  using spaced_block [of l bs u b n] by (auto simp: apart_def)

lemma spaced_apart_above: "spaced l bs u \<Longrightarrow> unat q + 8 \<le> l \<Longrightarrow> (b, n) \<in> set bs \<Longrightarrow> apart q b"
  using spaced_block [of l bs u b n] by (auto simp: apart_def)

text \<open>The last header of the list from \<open>p\<close>.\<close>

definition last_hdr :: "addr \<Rightarrow> block list \<Rightarrow> addr" where
  "last_hdr p bs = last (p # map fst bs)"

lemma last_hdr_simps [simp]:
  "last_hdr p [] = p" "last_hdr p (x # bs) = last_hdr (fst x) bs" "last_hdr p (bs @ [x]) = fst x"
  by (simp_all add: last_hdr_def)

lemma last_hdr_in: "last_hdr p bs \<in> insert p (fst ` set bs)"
  by (cases bs rule: rev_cases) auto

lemma last_hdr_bounds:
  assumes "hdr p" "spaced (unat p + 8) bs u" "u \<le> 2 ^ 31"
  shows "hdr (last_hdr p bs)" "bs \<noteq> [] \<Longrightarrow> apart (last_hdr p bs) p" "unat (last_hdr p bs) + 8 \<le> u"
proof -
  show "hdr (last_hdr p bs)" "bs \<noteq> [] \<Longrightarrow> apart (last_hdr p bs) p" "unat (last_hdr p bs) + 8 \<le> u"
    using spaced_hdr [OF assms(2,3)] spaced_block [OF assms(2)] spaced_le [OF assms(2)] assms(1)
    by (cases bs rule: rev_cases; fastforce simp: apart_def)+
qed

lemma lst_set_last:
  assumes "lst m p bs q" "hdr p" "spaced (unat p + 8) bs u" "u \<le> 2 ^ 31"
  shows "lst (set_hptr (last_hdr p bs) v m) p bs v"
  using assms
proof (induction bs arbitrary: p)
  case Nil
  then show ?case by (simp add: hdr_fields)
next
  case (Cons x bs)
  obtain b n where x: "x = (b, n)" by (cases x)
  have b: "hdr b" "spaced (unat b + 8) bs u" "apart b p"
    using spaced_hdr [OF Cons.prems(3,4), of b n] Cons.prems(3) x
    by (auto simp: apart_def intro: spaced_lower)
  let ?q = "last_hdr b bs"
  have q: "hdr ?q" "?q = b \<or> apart ?q b" "unat b \<le> unat ?q"
    using last_hdr_bounds [OF b(1,2) Cons.prems(4)] spaced_block [OF b(2)] last_hdr_in [of b bs]
    by (cases bs; fastforce)+
  have "apart ?q p" using Cons.prems(3) x q(3) by (auto simp: apart_def)
  then have "hptr (set_hptr ?q v m) p = hptr m p" using hdr_other(1) [OF q(1) Cons.prems(2)] by simp
  moreover have "hsize (set_hptr ?q v m) b = hsize m b"
    using q(2) hdr_fields(4) [OF b(1)] hdr_other(4) [OF q(1) b(1)] by auto
  ultimately show ?case using Cons.IH [OF _ b(1,2) Cons.prems(4)] Cons.prems(1) x by simp
qed

section \<open>Giving back a block\<close>

lemma last_hdr_append: "last_hdr p (xs @ (b, n) # ys) = last_hdr b ys"
  by (simp add: last_hdr_def)

lemma free_find_up:
  assumes "lst m p xs nx" "spaced (unat p + 8) xs (unat bp)" "bp < nx \<or> nx \<le> p"
  shows "free_find m bp p = Some (last_hdr p xs)"
  using assms
proof (induction xs arbitrary: p)
  case Nil
  then have "p < bp" by (simp add: word_less_nat_alt)
  then show ?case using Nil by (subst free_find.simps) auto
next
  case (Cons x xs)
  obtain b n where x: "x = (b, n)" by (cases x)
  have b: "unat p + 8 \<le> unat b" "unat b + 8 \<le> unat bp" "spaced (unat b + 8) xs (unat bp)"
    using Cons.prems(2) spaced_block [OF Cons.prems(2), of b n] x by (auto intro: spaced_lower)
  then have "p < bp" "b < bp" "p < b" by (simp_all add: word_less_nat_alt)
  moreover have "hptr m p = b" "lst m b xs nx" using Cons.prems(1) x by simp_all
  moreover have "bp < nx \<or> nx \<le> b" using Cons.prems(3) \<open>p < b\<close> by auto
  ultimately show ?case using Cons.IH [OF _ b(3)] x by (subst free_find.simps) auto
qed

lemma free_find_wrap:
  assumes "lst m p ys base" "spaced (unat p + 8) ys u" "bp < p" "base < bp"
  shows "free_find m bp p = free_find m bp base"
  using assms
proof (induction ys arbitrary: p)
  case Nil
  then show ?case by (subst free_find.simps) auto
next
  case (Cons x ys)
  obtain b n where x: "x = (b, n)" by (cases x)
  have b: "spaced (unat b + 8) ys u" "p < b" using Cons.prems(2) x by (auto simp: word_less_nat_alt intro: spaced_lower)
  have "free_find m bp p = free_find m bp b"
    using Cons.prems(1,3) x b(2) by (subst free_find.simps) auto
  also have "\<dots> = free_find m bp base" using Cons.IH [OF _ b(1)] Cons.prems(1,3,4) x b(2) by simp
  finally show ?case .
qed

lemma in_fst_setE:
  assumes "p \<in> fst ` set bs"
  obtains xs n ys where "bs = xs @ (p, n) # ys"
  using assms by (metis imageE prod.collapse split_list)

lemma free_find_place:
  assumes lst: "lst m base (xs @ ys) base"
    and sp: "spaced (unat base + 8) xs (unat bp)" "spaced (unat bp + 8) ys u"
    and p: "p \<in> insert base (fst ` set (xs @ ys))"
  shows "free_find m bp p = Some (last_hdr base xs)"
proof -
  have base: "base < bp" using spaced_le [OF sp(1)] by (simp add: word_less_nat_alt)
  have up: "free_find m bp q = Some (last_hdr q zs)"
    if "lst m q (zs @ ys) base" "spaced (unat q + 8) zs (unat bp)" "base \<le> q" for q zs
  proof (cases ys)
    case Nil
    then show ?thesis using that free_find_up [of m q zs base bp] by simp
  next
    case (Cons y ys')
    obtain b n where "y = (b, n)" by (cases y)
    with Cons that sp(2) show ?thesis
      using free_find_up [of m q zs b bp] by (simp add: lst_append word_less_nat_alt)
  qed
  have at_base: "free_find m bp base = Some (last_hdr base xs)" using up [OF lst sp(1)] by simp
  from p consider "p = base" | "p \<in> fst ` set xs" | "p \<in> fst ` set ys" by auto
  then show ?thesis
  proof cases
    case 1
    then show ?thesis by (simp add: at_base)
  next
    case 2
    then obtain x1 n x2 where x: "xs = x1 @ (p, n) # x2" by (rule in_fst_setE)
    have "lst m p (x2 @ ys) base" using lst x by (simp add: lst_append)
    moreover have "spaced (unat p + 8) x2 (unat bp)" "base \<le> p"
      using sp(1) spaced_block [OF sp(1), of p n] unfolding x
      by (auto simp: spaced_append word_le_nat_alt intro: spaced_lower)
    ultimately show ?thesis using up [of p x2] x by (simp add: last_hdr_append)
  next
    case 3
    then obtain y1 n y2 where y: "ys = y1 @ (p, n) # y2" by (rule in_fst_setE)
    have "lst m base ((xs @ y1) @ (p, n) # y2) base" using lst y by simp
    then have "lst m p y2 base" by (simp only: lst_append)
    moreover have "spaced (unat p + 8) y2 u" "bp < p"
      using sp(2) spaced_block [OF sp(2), of p n] unfolding y
      by (auto simp: spaced_append word_less_nat_alt intro: spaced_lower)
    ultimately show ?thesis using free_find_wrap [of m p y2 base u bp] base at_base by simp
  qed
qed

lemma unat_units: "unat b + 8 * unat n < 2 ^ 32 \<Longrightarrow> unat (b + 8 * n) = unat (b :: addr) + 8 * unat n"
  by (simp add: unat_word_ariths)

lemma unat_add_small: "unat a + unat b < 2 ^ 32 \<Longrightarrow> unat (a + b) = unat (a :: uint32) + unat b"
  by (simp add: unat_word_ariths)

lemma lst_last_ptr: "lst m p bs q \<Longrightarrow> hptr m (last_hdr p bs) = q"
  by (induction m p bs q rule: lst.induct) auto

lemma lst_frame:
  assumes "lst m p bs e" "hdr q" "hdr p" "apart q p" "\<forall>x \<in> set bs. hdr (fst x) \<and> apart q (fst x)"
  shows "lst (set_hptr q v m) p bs e" "lst (set_hsize q v m) p bs e"
  using assms hdr_other [OF assms(2)] by (auto intro!: lst_cong [OF assms(1)])

lemma lst_prefix: "lst m p (xs @ ys) e \<Longrightarrow> \<exists>nx. lst m p xs nx \<and> nx = fst (hd (ys @ [(e, 0)]))"
  by (cases ys) (auto simp: lst_append)

lemma lst_split: "lst m p (xs @ ys) e \<longleftrightarrow> lst m p xs (hptr m (last_hdr p xs)) \<and> lst m (last_hdr p xs) ys e"
proof (induction xs arbitrary: p)
  case (Cons x xs)
  show ?case by (cases x) (simp only: append_Cons lst.simps Cons.IH last_hdr_simps fst_conv conj_assoc)
qed simp

lemma spaced_below:
  assumes "spaced l bs u" "u \<le> unat q" "unat q \<le> 2 ^ 31"
  shows "\<forall>x \<in> set bs. hdr (fst x) \<and> apart q (fst x)"
  using spaced_hdr [OF assms(1)] spaced_apart_below [OF assms(1,2)] assms(2,3) by auto

lemma spaced_above:
  assumes "spaced l bs u" "unat q + 8 \<le> l" "u \<le> 2 ^ 31"
  shows "\<forall>x \<in> set bs. hdr (fst x) \<and> apart q (fst x)"
  using spaced_hdr [OF assms(1,3)] spaced_apart_above [OF assms(1,2)] by auto

text \<open>The two outcomes of \<^verbatim>\<open>join_next\<close>: the block and the next one are apart, or become one.\<close>

lemma join_next_apart:
  assumes "lst m p ys base" "hptr m p = nx" "hdr bp" "\<forall>x \<in> set ys. hdr (fst x) \<and> apart bp (fst x)"
  shows "lst (set_hptr bp nx m) bp ys base" "hsize (set_hptr bp nx m) bp = hsize m bp"
  using assms hdr_other [OF assms(3)] hdr_fields [OF assms(3)] by (auto intro!: lst_cong [OF assms(1)])

lemma join_next_joined:
  assumes lst: "lst m p ((nx, n) # ys) base" and hb: "hdr bp"
    and sp: "spaced (unat bp + 8 * k) ((nx, n) # ys) u" "u \<le> 2 ^ 31"
    and bp: "unat (hsize m bp) = k" "1 \<le> k" "unat bp + 8 * k = unat nx"
  defines "m1 \<equiv> set_hptr bp (hptr m nx) (set_hsize bp (hsize m bp + hsize m nx) m)"
  shows "lst m1 bp ys base" "unat (hsize m1 bp) = k + n" "spaced (unat bp + 8 * (k + n)) ys u"
    "bytes_of (bp, k + n) = bytes_of (bp, k) \<union> bytes_of (nx, n)"
proof -
  have above: "\<forall>x \<in> set ys. hdr (fst x) \<and> apart bp (fst x)"
    using spaced_above [OF sp(1) _ sp(2), of bp] bp(2) by simp
  have n: "unat (hsize m nx) = n" "lst m nx ys base" "unat nx + 8 * n \<le> u" "spaced (unat nx + 8 * n) ys u"
    using lst spaced_block [OF sp(1), of nx n] sp(1) by simp_all
  have m1: "hsize m1 bp = hsize m bp + hsize m nx" "hptr m1 bp = hptr m nx"
    using hdr_fields [OF hb] by (simp_all add: m1_def)
  show "lst m1 bp ys base"
    by (rule lst_cong [OF n(2) m1(2)]) (use hdr_other [OF hb] above in \<open>auto simp: m1_def\<close>)
  show "unat (hsize m1 bp) = k + n"
    unfolding m1(1) using unat_add_small [of "hsize m bp" "hsize m nx"] bp n(1,3) sp(2) by simp
  have "unat bp + 8 * (k + n) = unat nx + 8 * n" using bp(3) by simp
  then show "spaced (unat bp + 8 * (k + n)) ys u" using n(4) by (simp only:)
  show "bytes_of (bp, k + n) = bytes_of (bp, k) \<union> bytes_of (nx, n)" using bp(3) by (auto simp: bytes_of_def)
qed

lemma join_next_lst:
  assumes lst: "lst m base (xs @ ys) base" and base: "hdr base"
    and sp: "spaced (unat base + 8) xs (unat bp)" "spaced (unat bp + 8 * k) ys u" "u \<le> 2 ^ 31"
    and bp: "aligned4 bp" "unat (hsize m bp) = k" "1 \<le> k"
  defines "m1 \<equiv> join_next bp (last_hdr base xs) m"
  shows "\<exists>k' ys'. unat (hsize m1 bp) = k' \<and> k \<le> k' \<and> lst m1 bp ys' base \<and> spaced (unat bp + 8 * k') ys' u \<and>
      bytes_of (bp, k') \<union> cells ys' = bytes_of (bp, k) \<union> cells ys" (is ?mid)
    and "lst m1 base xs (hptr m (last_hdr base xs))" "hsize m1 base = hsize m base" "within (hbytes bp) m m1"
proof -
  have u: "unat bp + 8 * k \<le> u" using spaced_le [OF sp(2)] .
  have hb: "hdr bp" and up: "unat bp \<le> 2 ^ 31" using bp u sp(3) by (simp_all add: hdr_def)
  have below: "apart bp base" "\<forall>x \<in> set xs. hdr (fst x) \<and> apart bp (fst x)"
    using spaced_le [OF sp(1)] spaced_below [OF sp(1) order_refl up] by (simp_all add: apart_def)
  have above: "\<forall>x \<in> set ys. hdr (fst x) \<and> apart bp (fst x)"
    by (rule spaced_above [OF sp(2) _ sp(3)]) (use bp(3) in simp)
  let ?p = "last_hdr base xs"
  have p: "hdr ?p" "apart bp ?p" using last_hdr_in [of base xs] base below by auto
  obtain nx where nx: "lst m base xs nx" "nx = fst (hd (ys @ [(base, 0)]))" using lst_prefix [OF lst] by blast
  have ptr: "hptr m ?p = nx" and rest: "lst m ?p ys base" using lst_last_ptr [OF nx(1)] lst by (simp_all add: lst_split)
  have test: "bp + 8 * hsize m bp = nx \<longleftrightarrow> unat bp + 8 * k = unat nx"
    using unat_units [of bp "hsize m bp"] u sp(3) bp(2) by (simp add: word_unat_eq_iff)
  consider (far) "m1 = set_hptr bp nx m" | (near) n ys' where "ys = (nx, n) # ys'" "unat bp + 8 * k = unat nx"
      "m1 = set_hptr bp (hptr m nx) (set_hsize bp (hsize m bp + hsize m nx) m)"
  proof (cases ys)
    case Nil
    then have "unat bp + 8 * k \<noteq> unat nx" using nx(2) spaced_le [OF sp(1)] by simp
    then show ?thesis using far by (simp add: m1_def join_next_def ptr test)
  next
    case (Cons y ys')
    then have "hptr (set_hsize bp v m) nx = hptr m nx" "hptr (set_hsize bp v m) ?p = nx" for v
      using hdr_other(3) [OF hb] p ptr above nx(2) by simp_all
    then have "m1 = (if unat bp + 8 * k = unat nx then set_hptr bp (hptr m nx) (set_hsize bp (hsize m bp + hsize m nx) m)
        else set_hptr bp nx m)"
      by (simp add: m1_def join_next_def ptr test Let_def)
    moreover have "ys = (nx, snd y) # ys'" using Cons nx(2) by simp
    ultimately show ?thesis using far near by (cases "unat bp + 8 * k = unat nx") simp_all
  qed
  note cases = this
  show ?mid
  proof (cases rule: cases)
    case far
    then show ?thesis using join_next_apart [OF rest ptr hb above] bp sp(2) by auto
  next
    case (near n ys')
    note j = join_next_joined [OF rest [unfolded near(1)] hb sp(2) [unfolded near(1)] sp(3) bp(2,3) near(2)]
    show ?thesis using j near(1) unfolding near(3) by (intro exI [of _ "k + n"] exI [of _ ys']) auto
  qed
  have "lst m1 base xs nx \<and> hsize m1 base = hsize m base \<and> within (hbytes bp) m m1"
    using lst_frame [OF _ hb base below] nx(1) hdr_other(2,4) [OF hb base below(1)] within_hdr(1) [OF hb] within_hdr_both [OF hb]
    by (cases rule: cases) auto
  then show "lst m1 base xs (hptr m ?p)" "hsize m1 base = hsize m base" "within (hbytes bp) m m1" by (simp_all add: ptr)
qed

lemma join_prev_apart:
  assumes lst: "lst m base xs nx" "lst m bp ys base" and base: "hdr base"
    and sp: "spaced (unat base + 8) xs (unat bp)" "spaced (unat bp + 8 * k) ys u" "u \<le> 2 ^ 31"
    and bp: "aligned4 bp" "unat (hsize m bp) = k" "1 \<le> k"
  shows "lst (set_hptr (last_hdr base xs) bp m) base (xs @ (bp, k) # ys) base"
proof -
  let ?p = "last_hdr base xs"
  have u: "unat bp + 8 * k \<le> u" using spaced_le [OF sp(2)] .
  have hb: "hdr bp" using bp u sp(3) by (simp add: hdr_def)
  have p: "hdr ?p" "unat ?p + 8 \<le> unat bp" using last_hdr_bounds [OF base sp(1)] u sp(3) by simp_all
  have ap: "apart ?p bp" using p(2) by (simp add: apart_def)
  have "lst (set_hptr ?p bp m) base xs bp" by (rule lst_set_last [OF lst(1) base sp(1)]) (use u sp(3) in simp)
  moreover have "lst (set_hptr ?p bp m) bp ys base"
    by (rule lst_frame(1) [OF lst(2) p(1) hb ap]) (rule spaced_above [OF sp(2) _ sp(3)], use p(2) in simp)
  ultimately show ?thesis using hdr_other(4) [OF p(1) hb ap] bp(2) by (simp add: lst_append)
qed

lemma join_prev_joined:
  assumes lst: "lst m base (xs @ [(a, n)]) nx" "lst m bp ys base" and base: "hdr base"
    and sp: "spaced (unat base + 8) (xs @ [(a, n)]) (unat bp)" "spaced (unat bp + 8 * k) ys u" "u \<le> 2 ^ 31"
    and bp: "unat (hsize m bp) = k" "unat a + 8 * n = unat bp"
  defines "m1 \<equiv> set_hptr a (hptr m bp) (set_hsize a (hsize m a + hsize m bp) m)"
  shows "lst m1 base (xs @ (a, n + k) # ys) base"
proof -
  have u: "unat bp + 8 * k \<le> u" using spaced_le [OF sp(2)] .
  obtain l where l: "spaced (unat base + 8) xs l" "l \<le> unat a" using sp(1) by (auto simp: spaced_append)
  have a: "hdr a" "1 \<le> n" "unat base + 8 \<le> unat a" "unat a \<le> 2 ^ 31"
    using spaced_block [OF sp(1), of a n] u sp(3) by (auto simp: hdr_def)
  have ap: "apart a base" using a(3) by (simp add: apart_def)
  have lst_a: "lst m base xs a" "unat (hsize m a) = n" using lst(1) by (simp_all add: lst_append)
  have "lst m1 base xs a"
    unfolding m1_def by (intro lst_frame [OF _ a(1) base ap] spaced_below [OF l a(4)] lst_a(1))
  moreover have "hsize m1 a = hsize m a + hsize m bp" "hptr m1 a = hptr m bp"
    using hdr_fields [OF a(1)] by (simp_all add: m1_def)
  moreover have "unat (hsize m a + hsize m bp) = n + k"
    using unat_add_small [of "hsize m a" "hsize m bp"] lst_a(2) bp u sp(3) by simp
  moreover have "lst m1 a ys base"
  proof (rule lst_cong [OF lst(2)])
    have "\<forall>x \<in> set ys. hdr (fst x) \<and> apart a (fst x)"
      by (rule spaced_above [OF sp(2) _ sp(3)]) (use a(2) bp(2) in simp)
    then show "\<forall>x \<in> set ys. hptr m1 (fst x) = hptr m (fst x) \<and> hsize m1 (fst x) = hsize m (fst x)"
      using hdr_other [OF a(1)] by (simp add: m1_def)
  qed fact
  ultimately show ?thesis by (simp add: lst_append)
qed

lemma join_prev_lst:
  assumes lst: "lst m base xs nx" "lst m bp ys base" and base: "hdr base" "hsize m base = 0"
    and sp: "spaced (unat base + 8) xs (unat bp)" "spaced (unat bp + 8 * k) ys u" "u \<le> 2 ^ 31"
    and bp: "aligned4 bp" "unat (hsize m bp) = k" "1 \<le> k"
  defines "m1 \<equiv> join_prev bp (last_hdr base xs) m"
  shows "\<exists>zs. lst m1 base zs base \<and> spaced (unat base + 8) zs u \<and> cells zs = cells xs \<union> bytes_of (bp, k) \<union> cells ys \<and>
      last_hdr base xs \<in> insert base (fst ` set zs) \<and> (\<exists>x \<in> set zs. bytes_of (bp, k) \<subseteq> bytes_of x)" (is ?list)
    and "hsize m1 base = 0" "within (hbytes (last_hdr base xs)) m m1"
proof -
  let ?p = "last_hdr base xs"
  have u: "unat bp + 8 * k \<le> u" using spaced_le [OF sp(2)] .
  have p: "hdr ?p" "xs \<noteq> [] \<Longrightarrow> apart ?p base" using last_hdr_bounds [OF base(1) sp(1)] u sp(3) by simp_all
  consider (far) "m1 = set_hptr ?p bp m"
    | (near) ys' a n where "xs = ys' @ [(a, n)]" "unat a + 8 * n = unat bp"
        "m1 = set_hptr a (hptr m bp) (set_hsize a (hsize m a + hsize m bp) m)"
  proof (cases xs rule: rev_cases)
    case Nil
    then have "base \<noteq> bp" using spaced_le [OF sp(1)] by auto
    then show ?thesis using Nil far base(2) by (simp add: m1_def join_prev_def)
  next
    case (snoc ys' x)
    obtain a n where x: "x = (a, n)" by (cases x)
    have "unat (hsize m a) = n" "unat a + 8 * n \<le> unat bp"
      using lst(1) spaced_block [OF sp(1), of a n] by (simp_all add: snoc x lst_append)
    then have "a + 8 * hsize m a = bp \<longleftrightarrow> unat a + 8 * n = unat bp"
      using unat_units [of a "hsize m a"] u sp(3) by (simp add: word_unat_eq_iff)
    moreover have "hdr a" "hdr bp" "apart a bp"
      using p(1) bp u sp(3) spaced_block [OF sp(1), of a n] by (auto simp: snoc x hdr_def apart_def)
    then have "hptr (set_hsize a v m) bp = hptr m bp" for v by (rule hdr_other(3))
    ultimately show ?thesis
      using far near [of ys' a n] by (cases "unat a + 8 * n = unat bp") (simp_all add: m1_def join_prev_def snoc x Let_def)
  qed
  note cases = this
  show ?list
  proof (cases rule: cases)
    case far
    have "spaced (unat base + 8) (xs @ (bp, k) # ys) u" using sp(1,2) bp by (auto simp: spaced_append)
    moreover have "lst m1 base (xs @ (bp, k) # ys) base"
      unfolding far by (rule join_prev_apart [OF lst base(1) sp bp])
    ultimately show ?thesis
      using last_hdr_in [of base xs] by (intro exI [of _ "xs @ (bp, k) # ys"]) auto
  next
    case (near ys' a n)
    have "lst m1 base (ys' @ (a, n + k) # ys) base"
      unfolding near(3) by (rule join_prev_joined [OF lst(1) [unfolded near(1)] lst(2) base(1) sp(1) [unfolded near(1)] sp(2,3) bp(2) near(2)])
    moreover have e: "unat a + 8 * (n + k) = unat bp + 8 * k" using near(2) by simp
    obtain l where "spaced (unat base + 8) ys' l" "l \<le> unat a" "1 \<le> n" "aligned4 a"
      using sp(1) near(1) by (auto simp: spaced_append)
    then have "spaced (unat base + 8) (ys' @ (a, n + k) # ys) u"
      unfolding spaced_append spaced.simps e using sp(2) by auto
    moreover have "bytes_of (a, n + k) = bytes_of (a, n) \<union> bytes_of (bp, k)" using near(2) by (auto simp: bytes_of_def)
    ultimately show ?thesis by (intro exI [of _ "ys' @ (a, n + k) # ys"]) (auto simp: near(1))
  qed
  have far: "hsize (set_hptr ?p v m) base = 0" for v
    using hdr_fields(4) [OF base(1)] hdr_other(4) [OF p(1) base(1)] p(2) base(2) by (cases xs) auto
  have "hsize m1 base = 0 \<and> within (hbytes ?p) m m1"
  proof (cases rule: cases)
    case (near ys' a n)
    then have "hdr a" "apart a base" using p by simp_all
    then show ?thesis using near base(2) hdr_other(2,4) [OF _ base(1)] within_hdr_both by auto
  qed (use far within_hdr(1) [OF p(1)] in simp)
  then show "hsize m1 base = 0" "within (hbytes ?p) m m1" by simp_all
qed

text \<open>
  The invariant of the allocator, with the list of the free blocks: \<^verbatim>\<open>base\<close> is below all of them, the
  end of the memory above, and \<^verbatim>\<open>freep\<close> points to a header of the list.
\<close>

definition heap_ok :: "addr \<Rightarrow> uheap \<Rightarrow> block list \<Rightarrow> bool" where
  "heap_ok base h bs \<longleftrightarrow>
     hdr base \<and> base \<noteq> 0 \<and> hsize (umem h) base = 0 \<and> lst (umem h) base bs base \<and>
     spaced (unat base + 8) bs (unat (ubrk h)) \<and> unat (ubrk h) \<le> 2 ^ 31 \<and> aligned4 (ubrk h) \<and>
     freep h \<in> insert base (fst ` set bs)"

lemma spaced_place:
  assumes "spaced l bs u" "l \<le> unat bp" "unat bp + 8 * k \<le> u" "1 \<le> k" "bytes_of (bp, k) \<inter> cells bs = {}"
  shows "\<exists>xs ys. bs = xs @ ys \<and> spaced l xs (unat bp) \<and> spaced (unat bp + 8 * k) ys u"
  using assms
proof (induction bs arbitrary: l)
  case Nil
  then show ?case by simp
next
  case (Cons x bs)
  obtain b n where x: "x = (b, n)" by (cases x)
  have b: "l \<le> unat b" "1 \<le> n" "aligned4 b" "spaced (unat b + 8 * n) bs u" using Cons.prems(1) x by simp_all
  have disj: "unat bp + 8 * k \<le> unat b \<or> unat b + 8 * n \<le> unat bp"
  proof (rule ccontr)
    assume "\<not> ?thesis"
    then have "max (unat b) (unat bp) \<in> bytes_of (bp, k) \<inter> bytes_of (b, n)"
      using b(2) Cons.prems(4) by (auto simp: bytes_of_def)
    then show False using Cons.prems(5) x by auto
  qed
  then show ?case
  proof
    assume "unat bp + 8 * k \<le> unat b"
    then show ?thesis using Cons.prems(2) b x by (intro exI [of _ "[]"] exI [of _ "x # bs"]) simp
  next
    assume "unat b + 8 * n \<le> unat bp"
    then obtain xs ys where "bs = xs @ ys" "spaced (unat b + 8 * n) xs (unat bp)" "spaced (unat bp + 8 * k) ys u"
      using Cons.IH [OF b(4) _ Cons.prems(3,4)] Cons.prems(5) by auto
    then show ?thesis using b x by (intro exI [of _ "x # xs"] exI [of _ ys]) simp
  qed
qed

text \<open>
  Giving back a block that overlaps no free one: the search ends, the bytes of the block become free,
  and nothing is written but headers of free blocks, \<^verbatim>\<open>base\<close> included.
\<close>

lemma ufree_ok:
  assumes ok: "heap_ok base h bs" and bp: "aligned4 bp" "unat (hsize (umem h) bp) = k" "1 \<le> k"
    and place: "unat base + 8 \<le> unat bp" "unat bp + 8 * k \<le> unat (ubrk h)" "bytes_of (bp, k) \<inter> cells bs = {}"
  shows "\<exists>h' bs'. ufree (bp + 8) h = Some h' \<and> heap_ok base h' bs' \<and> ubrk h' = ubrk h \<and>
    cells bs' = cells bs \<union> bytes_of (bp, k) \<and> (\<exists>x \<in> set bs'. bytes_of (bp, k) \<subseteq> bytes_of x) \<and>
    within (hbytes base \<union> cells bs') (umem h) (umem h')"
proof -
  let ?m = "umem h"
  note h = ok [unfolded heap_ok_def]
  obtain xs ys where bs: "bs = xs @ ys" and sp: "spaced (unat base + 8) xs (unat bp)" "spaced (unat bp + 8 * k) ys (unat (ubrk h))"
    using spaced_place [of "unat base + 8" bs "unat (ubrk h)" bp k] h place bp(3) by auto
  let ?p = "last_hdr base xs" and ?m1 = "join_next bp (last_hdr base xs) ?m"
  let ?m2 = "join_prev bp ?p ?m1"
  have "spaced (unat bp + 8) ys (unat (ubrk h))" using sp(2) bp(3) by (auto intro: spaced_lower)
  then have find: "free_find ?m bp (freep h) = Some ?p"
    using free_find_place [of ?m base xs ys bp "unat (ubrk h)" "freep h"] h bs sp(1) by auto
  obtain k' ys' where m1: "unat (hsize ?m1 bp) = k'" "k \<le> k'" "lst ?m1 bp ys' base" "spaced (unat bp + 8 * k') ys' (unat (ubrk h))"
    "bytes_of (bp, k') \<union> cells ys' = bytes_of (bp, k) \<union> cells ys"
    and m1': "lst ?m1 base xs (hptr ?m ?p)" "hsize ?m1 base = 0" "within (hbytes bp) ?m ?m1"
    using join_next_lst [of ?m base xs ys bp k "unat (ubrk h)"] h bs sp bp by auto
  obtain zs where zs: "lst ?m2 base zs base" "spaced (unat base + 8) zs (unat (ubrk h))"
    "cells zs = cells xs \<union> bytes_of (bp, k') \<union> cells ys'" "?p \<in> insert base (fst ` set zs)"
    "\<exists>x \<in> set zs. bytes_of (bp, k') \<subseteq> bytes_of x"
    and m2: "hsize ?m2 base = 0" "within (hbytes ?p) ?m1 ?m2"
    using join_prev_lst [OF m1'(1) m1(3) _ m1'(2) sp(1) m1(4) _ bp(1) m1(1)] m1(2) bp(3) h by auto
  have cells: "cells zs = cells bs \<union> bytes_of (bp, k)" using zs(3) m1(5) bs by auto
  have "hbytes bp \<subseteq> bytes_of (bp, k)" using bp(3) by (auto simp: hbytes_def bytes_of_def)
  moreover have "hbytes ?p \<subseteq> hbytes base \<union> cells zs"
    using zs(4) spaced_block [OF zs(2)] by (force simp: hbytes_def cells_def bytes_of_def)
  ultimately have "within (hbytes base \<union> cells zs) ?m ?m2"
    by (intro within_mono [OF within_trans [OF m1'(3) m2(2)]]) (use cells in blast)
  moreover have "bytes_of (bp, k) \<subseteq> bytes_of (bp, k')" using m1(2) by (auto simp: bytes_of_def)
  then have "\<exists>x \<in> set zs. bytes_of (bp, k) \<subseteq> bytes_of x" using zs(5) by blast
  ultimately show ?thesis
    using find zs(1,2,4) m2 h cells
    by (intro exI [of _ "h\<lparr>umem := ?m2, freep := ?p\<rparr>"] exI [of _ zs]) (simp add: ufree_def heap_ok_def)
qed

section \<open>Taking a block\<close>

lemma heap_okD:
  assumes "heap_ok base h bs"
  shows "hdr base" "base \<noteq> 0" "hsize (umem h) base = 0" "lst (umem h) base bs base"
    "spaced (unat base + 8) bs (unat (ubrk h))" "unat (ubrk h) \<le> 2 ^ 31" "aligned4 (ubrk h)"
    "freep h \<in> insert base (fst ` set bs)"
  using assms by (simp_all add: heap_ok_def)

lemma freep_not_null: "heap_ok base h bs \<Longrightarrow> freep h \<noteq> 0"
  using heap_okD(2,8) [of base h bs] spaced_block [OF heap_okD(5), of base h bs] by force

lemma bytes_of_subset:
  assumes "bytes_of (b, k) \<subseteq> bytes_of x" "1 \<le> k"
  shows "k \<le> snd x"
proof -
  have "unat b \<in> bytes_of (b, k)" "unat b + 8 * k - 1 \<in> bytes_of (b, k)" using assms(2) by (auto simp: bytes_of_def)
  then have "unat b \<in> bytes_of x" "unat b + 8 * k - 1 \<in> bytes_of x" using assms(1) by blast+
  then show ?thesis by (cases x) (auto simp: bytes_of_def)
qed

text \<open>The kernel never lets the memory of a process grow into its own half of the addresses.\<close>

definition grants :: "(uint32 \<Rightarrow> addr \<Rightarrow> bool) \<Rightarrow> bool" where
  "grants grant \<longleftrightarrow> (\<forall>n b. grant n b \<longrightarrow> unat b + unat n \<le> 2 ^ 31)"

lemma unat_mult8: "unat n < 2 ^ 29 \<Longrightarrow> unat (n * 8 :: uint32) = 8 * unat n"
  by (simp add: unat_word_ariths)

lemma morecore_ok:
  assumes ok: "heap_ok base h bs" and grant: "grants grant" and nu: "unat nu < 2 ^ 29"
  shows "morecore grant nu h = Some (0, h) \<or>
    (\<exists>h' bs'. morecore grant nu h = Some (freep h', h') \<and> heap_ok base h' bs' \<and> ubrk h \<le> ubrk h' \<and>
       cells bs' = cells bs \<union> {unat (ubrk h) ..< unat (ubrk h')} \<and> (\<exists>x \<in> set bs'. unat nu \<le> snd x) \<and>
       within (hbytes base \<union> cells bs') (umem h) (umem h'))"
proof -
  define n where "n = (if nu < 4096 then 4096 else nu)"
  have n: "unat nu \<le> unat n" "unat n < 2 ^ 29" "1 \<le> unat n" using nu by (auto simp: n_def word_less_nat_alt)
  show ?thesis
  proof (cases "grant (n * 8) (ubrk h)")
    case False
    then show ?thesis by (simp add: morecore_def u_sbrk_def n_def Let_def)
  next
    case True
    let ?b = "ubrk h"
    define h1 where "h1 = h\<lparr>ubrk := ?b + n * 8, umem := set_hsize ?b n (umem h)\<rparr>"
    have room: "unat ?b + 8 * unat n \<le> 2 ^ 31" using True grant unat_mult8 [OF n(2)] unfolding grants_def by metis
    have brk: "unat (ubrk h1) = unat ?b + 8 * unat n"
      using unat_units [of ?b n] room by (simp add: h1_def mult.commute)
    note o = heap_okD [OF ok]
    have hb: "hdr ?b" using o(7) room n(3) by (simp add: hdr_def)
    have below: "apart ?b base" "\<forall>x \<in> set bs. hdr (fst x) \<and> apart ?b (fst x)"
      using spaced_le [OF o(5)] spaced_below [OF o(5) order_refl o(6)] by (simp_all add: apart_def)
    have "aligned4 (ubrk h1)" using o(7) brk by (simp add: aligned4_def) presburger
    then have ok1: "heap_ok base h1 bs"
      using o lst_frame(2) [OF o(4) hb o(1) below] hdr_other(2) [OF hb o(1) below(1)] brk room
      by (auto simp: heap_ok_def h1_def intro: spaced_upper)
    have "unat (hsize (umem h1) ?b) = unat n" using hdr_fields(2) [OF hb] by (simp add: h1_def)
    moreover have "unat ?b + 8 * unat n \<le> unat (ubrk h1)" "unat base + 8 \<le> unat ?b" using brk spaced_le [OF o(5)] by simp_all
    moreover have "bytes_of (?b, unat n) \<inter> cells bs = {}" using cells_spaced [OF o(5)] by (auto simp: bytes_of_def)
    ultimately obtain h' bs' where h': "ufree (?b + 8) h1 = Some h'" "heap_ok base h' bs'" "ubrk h' = ubrk h1"
      "cells bs' = cells bs \<union> bytes_of (?b, unat n)" "\<exists>x \<in> set bs'. bytes_of (?b, unat n) \<subseteq> bytes_of x"
      "within (hbytes base \<union> cells bs') (umem h1) (umem h')"
      using ufree_ok [OF ok1 o(7) _ n(3)] by blast
    obtain x where "x \<in> set bs'" "unat n \<le> snd x" using h'(5) by (auto dest: bytes_of_subset [OF _ n(3)])
    then have big: "\<exists>x \<in> set bs'. unat nu \<le> snd x" using n(1) by (intro bexI [of _ x]) simp_all
    have "hbytes ?b \<subseteq> bytes_of (?b, unat n)" using n(3) by (auto simp: hbytes_def bytes_of_def)
    then have "hbytes ?b \<subseteq> cells bs'" unfolding h'(4) by blast
    moreover have "within (hbytes ?b) (umem h) (umem h1)" using within_hdr(2) [OF hb] by (simp add: h1_def)
    ultimately have "within (hbytes base \<union> cells bs') (umem h) (umem h')"
      using within_mono [OF within_trans [OF _ h'(6)]] by (metis Un_subset_iff order_refl sup.coboundedI2)
    moreover have "?b \<noteq> -1" using o(6) unat_neg_one_addr [of 0] by auto
    moreover have "ubrk h \<le> ubrk h'" using h'(3) brk by (simp add: word_le_nat_alt)
    moreover have "bytes_of (?b, unat n) = {unat ?b ..< unat (ubrk h')}" using brk h'(3) by (simp add: bytes_of_def)
    moreover have "morecore grant nu h = Some (freep h', h')"
      using True h'(1) calculation(2) by (simp add: morecore_def u_sbrk_def n_def [symmetric] h1_def Let_def)
    ultimately show ?thesis using h'(2,4) big by (intro disjI2 exI [of _ h'] exI [of _ bs']) simp
  qed
qed

text \<open>
  What \<^verbatim>\<open>malloc\<close> promises about a block of \<open>k\<close> headers at \<open>q\<close> taken out of the list \<open>bs\<close>: its bytes were
  free and are no longer, and nothing is written but free bytes and \<^verbatim>\<open>base\<close>.
\<close>

definition taken :: "addr \<Rightarrow> uheap \<Rightarrow> block list \<Rightarrow> nat \<Rightarrow> addr \<times> uheap \<Rightarrow> bool" where
  "taken base h bs k r \<longleftrightarrow> (\<exists>q h' bs'. r = (q + 8, h') \<and> heap_ok base h' bs' \<and> ubrk h' = ubrk h \<and>
     aligned4 q \<and> unat (hsize (umem h') q) = k \<and> unat base + 8 \<le> unat q \<and> unat q + 8 * k \<le> unat (ubrk h) \<and>
     bytes_of (q, k) \<inter> cells bs' = {} \<and> bytes_of (q, k) \<union> cells bs' = cells bs \<and>
     within (hbytes base \<union> cells bs) (umem h) (umem h'))"

lemma take_exact:
  assumes ok: "heap_ok base h (xs @ (p, k) # ys)" and k: "1 \<le> k"
  defines "m \<equiv> set_hptr (last_hdr base xs) (hptr (umem h) p) (umem h)"
  shows "taken base h (xs @ (p, k) # ys) k (p + 8, h\<lparr>umem := m, freep := last_hdr base xs\<rparr>)"
proof -
  note o = heap_okD [OF ok]
  let ?q = "last_hdr base xs"
  have sp: "spaced (unat base + 8) xs (unat p)" "spaced (unat p + 8 * k) ys (unat (ubrk h))" "aligned4 p"
    using o(5) by (auto simp: spaced_append intro: spaced_upper)
  have up: "unat p + 8 * k \<le> unat (ubrk h)" "unat base + 8 \<le> unat p" using spaced_le [OF sp(2)] spaced_le [OF sp(1)] .
  have q: "hdr ?q" "unat ?q + 8 \<le> unat p" "xs \<noteq> [] \<Longrightarrow> apart ?q base"
    using last_hdr_bounds [OF o(1) sp(1)] up o(6) by simp_all
  have hp: "hdr p" "apart ?q p" using sp(3) up o(6) k q(2) by (auto simp: hdr_def apart_def)
  have lst: "lst (umem h) base xs p" "unat (hsize (umem h) p) = k" "lst (umem h) p ys base"
    using o(4) by (simp_all add: lst_append)
  have "lst m base xs (hptr (umem h) p)"
    unfolding m_def by (rule lst_set_last [OF lst(1) o(1) sp(1)]) (use up o(6) in simp)
  moreover have "hptr m ?q = hptr (umem h) p" by (simp add: m_def hdr_fields [OF q(1)])
  moreover have "lst m ?q ys base"
    by (rule lst_cong [OF lst(3)])
      (use calculation hdr_other [OF q(1)] spaced_above [OF sp(2) _ o(6), of ?q] q(2) in \<open>auto simp: m_def\<close>)
  ultimately have "lst m base (xs @ ys) base" by (simp add: lst_split)
  moreover have "spaced (unat base + 8) (xs @ ys) (unat (ubrk h))"
    using sp(1) spaced_lower [OF sp(2), of "unat p"] unfolding spaced_append by auto
  moreover have "hsize m base = 0"
    using o(3) hdr_fields(4) [OF o(1)] hdr_other(4) [OF q(1) o(1)] q(3) by (cases xs) (auto simp: m_def)
  ultimately have "heap_ok base (h\<lparr>umem := m, freep := ?q\<rparr>) (xs @ ys)"
    using o last_hdr_in [of base xs] by (auto simp: heap_ok_def)
  moreover have "bytes_of (p, k) \<inter> cells (xs @ ys) = {}"
    using cells_spaced [OF sp(1)] cells_spaced [OF sp(2)] by (fastforce simp: bytes_of_def)
  moreover have "hbytes ?q \<subseteq> hbytes base \<union> cells xs"
    using last_hdr_in [of base xs] spaced_block [OF sp(1)] by (force simp: hbytes_def cells_def bytes_of_def)
  then have "within (hbytes base \<union> cells (xs @ (p, k) # ys)) (umem h) m"
    unfolding m_def by (intro within_mono [OF within_hdr(1) [OF q(1)]]) auto
  moreover have "hsize m p = hsize (umem h) p" unfolding m_def by (rule hdr_other(4) [OF q(1) hp])
  ultimately show ?thesis
    unfolding taken_def using sp(3) up lst(2)
    by (intro exI [of _ p] exI [of _ "h\<lparr>umem := m, freep := ?q\<rparr>"] exI [of _ "xs @ ys"]) auto
qed

lemma take_cut:
  assumes ok: "heap_ok base h (xs @ (p, n) # ys)" and k: "1 \<le> unat k" "unat k < n"
  defines "m1 \<equiv> set_hsize p (hsize (umem h) p - k) (umem h)"
  defines "q \<equiv> p + 8 * hsize m1 p"
  shows "taken base h (xs @ (p, n) # ys) (unat k) (q + 8, h\<lparr>umem := set_hsize q k m1, freep := last_hdr base xs\<rparr>)"
proof -
  note o = heap_okD [OF ok]
  let ?c = "n - unat k" and ?m2 = "set_hsize q k m1"
  obtain l where sp: "spaced (unat base + 8) xs l" "l \<le> unat p" "spaced (unat p + 8 * n) ys (unat (ubrk h))" "aligned4 p"
    using o(5) by (auto simp: spaced_append)
  have up: "unat p + 8 * n \<le> unat (ubrk h)" "unat base + 8 \<le> unat p" using spaced_le [OF sp(3)] spaced_le [OF sp(1)] sp(2) by simp_all
  have lst: "lst (umem h) base xs p" "unat (hsize (umem h) p) = n" "lst (umem h) p ys base"
    using o(4) by (simp_all add: lst_append)
  have hp: "hdr p" using sp(4) up o(6) k by (auto simp: hdr_def)
  have m1p: "unat (hsize m1 p) = ?c"
    using lst(2) k by (simp add: m1_def hdr_fields [OF hp] unat_sub word_le_nat_alt)
  then have q: "unat q = unat p + 8 * ?c" unfolding q_def using unat_units [of p "hsize m1 p"] up o(6) k by simp
  then have end_q: "unat q + 8 * unat k = unat p + 8 * n" using k by simp
  have hq: "hdr q" "apart q p" "apart q base" "apart p base" "aligned4 q"
    using q end_q sp(4) up o(6) k by (auto simp: hdr_def apart_def aligned4_def)
  have frame: "lst ?m2 r zs e" if "lst (umem h) r zs e" "hdr r" "apart p r \<or> r = p" "apart q r"
      "\<forall>x \<in> set zs. hdr (fst x) \<and> apart p (fst x)" "\<forall>x \<in> set zs. hdr (fst x) \<and> apart q (fst x)" for r zs e
    using that hdr_other [OF hp] hdr_other [OF hq(1)] hdr_fields [OF hp]
    by (intro lst_cong [OF that(1)]) (auto simp: m1_def)
  have "unat p \<le> 2 ^ 31" "unat q \<le> 2 ^ 31" using up o(6) end_q by simp_all
  then have below: "\<forall>x \<in> set xs. hdr (fst x) \<and> apart p (fst x)" "\<forall>x \<in> set xs. hdr (fst x) \<and> apart q (fst x)"
    using spaced_below [OF sp(1), of p] spaced_below [OF sp(1), of q] sp(2) q by simp_all
  have above: "\<forall>x \<in> set ys. hdr (fst x) \<and> apart p (fst x)" "\<forall>x \<in> set ys. hdr (fst x) \<and> apart q (fst x)"
    using spaced_above [OF sp(3) _ o(6), of p] spaced_above [OF sp(3) _ o(6), of q] k end_q by simp_all
  have "hsize ?m2 p = hsize m1 p" by (rule hdr_other(2) [OF hq(1) hp hq(2)])
  then have "lst ?m2 base (xs @ (p, ?c) # ys) base"
    using frame [OF lst(1) o(1) _ hq(3) below] frame [OF lst(3) hp _ hq(2) above] hq(4) m1p by (simp add: lst_append)
  moreover have "unat p + 8 * ?c \<le> unat p + 8 * n" by simp
  then have "spaced (unat base + 8) (xs @ (p, ?c) # ys) (unat (ubrk h))"
    using sp k spaced_lower [OF sp(3)] unfolding spaced_append spaced.simps by auto
  moreover have "hsize ?m2 base = 0"
    using o(3) hdr_other(2) [OF hq(1) o(1) hq(3)] hdr_other(2) [OF hp o(1) hq(4)] by (simp add: m1_def)
  ultimately have "heap_ok base (h\<lparr>umem := ?m2, freep := last_hdr base xs\<rparr>) (xs @ (p, ?c) # ys)"
    using o last_hdr_in [of base xs] by (auto simp: heap_ok_def)
  moreover have "bytes_of (p, n) = bytes_of (p, ?c) \<union> bytes_of (q, unat k)" "bytes_of (p, ?c) \<inter> bytes_of (q, unat k) = {}"
    using q end_q by (auto simp: bytes_of_def)
  moreover have "bytes_of (q, unat k) \<inter> (cells xs \<union> cells ys) = {}"
    using cells_spaced [OF sp(1)] cells_spaced [OF sp(3)] sp(2) q end_q by (fastforce simp: bytes_of_def)
  moreover have "hbytes p \<union> hbytes q \<subseteq> bytes_of (p, n)" using q end_q k by (auto simp: hbytes_def bytes_of_def)
  then have "within (hbytes base \<union> cells (xs @ (p, n) # ys)) (umem h) ?m2"
    unfolding m1_def by (intro within_mono [OF within_trans [OF within_hdr(2) [OF hp] within_hdr(2) [OF hq(1)]]]) auto
  ultimately show ?thesis
    unfolding taken_def using hq(5) hdr_fields(2) [OF hq(1)] q end_q up
    by (intro exI [of _ q] exI [of _ "h\<lparr>umem := ?m2, freep := last_hdr base xs\<rparr>"] exI [of _ "xs @ (p, ?c) # ys"]) auto
qed

lemma take_block_ok:
  assumes "heap_ok base h (xs @ (p, n) # ys)" "1 \<le> unat k" "k \<le> hsize (umem h) p"
  shows "taken base h (xs @ (p, n) # ys) (unat k) (take_block k (last_hdr base xs) p h)"
proof -
  have n: "unat (hsize (umem h) p) = n" using heap_okD(4) [OF assms(1)] by (simp add: lst_append)
  show ?thesis
  proof (cases "hsize (umem h) p = k")
    case True
    with n have "n = unat k" by simp
    with True show ?thesis using take_exact [of base h xs p "unat k" ys] assms(1,2) by (simp add: take_block_def)
  next
    case False
    with n assms(3) have "unat k < n" by (metis order_le_imp_less_or_eq word_less_nat_alt)
    with False show ?thesis using take_cut [OF assms(1,2)] by (simp add: take_block_def Let_def)
  qed
qed

section \<open>The search for a block\<close>

text \<open>The headers the loop of \<^verbatim>\<open>malloc\<close> visits: once around the list, up to \<^verbatim>\<open>freep\<close>.\<close>

fun path :: "memory \<Rightarrow> addr \<Rightarrow> addr list \<Rightarrow> bool" where
  "path m p [] \<longleftrightarrow> True"
| "path m p (c # cs) \<longleftrightarrow> hptr m p = c \<and> path m c cs"

lemma path_append: "path m p (xs @ c # ys) \<longleftrightarrow> path m p (xs @ [c]) \<and> path m c ys"
  by (induction xs arbitrary: p) auto

lemma lst_path: "lst m p bs q \<Longrightarrow> path m p (map fst bs @ [q])"
  by (induction m p bs q rule: lst.induct) auto

lemma spaced_distinct: "spaced l bs u \<Longrightarrow> distinct (map fst bs) \<and> (\<forall>b \<in> set (map fst bs). l \<le> unat b)"
proof (induction bs arbitrary: l)
  case (Cons x bs)
  obtain b n where x: "x = (b, n)" by (cases x)
  then have "distinct (map fst bs)" "\<forall>c \<in> set (map fst bs). unat b + 8 * n \<le> unat c" "1 \<le> n" "l \<le> unat b"
    using Cons by auto
  then show ?case by (fastforce simp: x)
qed simp

lemma once_around:
  assumes "heap_ok base h bs"
  obtains cs where "path (umem h) (freep h) cs" "distinct cs" "cs \<noteq> []" "last cs = freep h"
    "set cs = insert base (fst ` set bs)"
proof -
  note o = heap_okD [OF assms]
  have d: "distinct (base # map fst bs)" using spaced_distinct [OF o(5)] by auto
  have path: "path (umem h) base (map fst bs @ [base])" by (rule lst_path [OF o(4)])
  show thesis
  proof (cases "freep h = base")
    case True
    then show ?thesis using that [of "map fst bs @ [base]"] path d by auto
  next
    case False
    then have "freep h \<in> set (map fst bs)" using o(8) by simp
    then obtain us vs where bs: "map fst bs = us @ freep h # vs" by (metis split_list)
    have "path (umem h) base (us @ [freep h])" "path (umem h) (freep h) (vs @ [base])"
      using path path_append [of "umem h" base us "freep h" "vs @ [base]"] by (simp_all add: bs)
    then have "path (umem h) (freep h) (vs @ base # us @ [freep h])"
      using path_append [of "umem h" "freep h" vs base "us @ [freep h]"] by simp
    moreover have "set (map fst bs) = insert (freep h) (set us \<union> set vs)" unfolding bs by auto
    then have "fst ` set bs = insert (freep h) (set us \<union> set vs)" by simp
    moreover have "distinct (vs @ base # us @ [freep h])" using d unfolding bs by auto
    ultimately show ?thesis using that [of "vs @ base # us @ [freep h]"] by auto
  qed
qed

text \<open>The first header that is large enough, and the one before it; or a call of \<^verbatim>\<open>morecore\<close>.\<close>

lemma malloc_walk:
  assumes "path (umem h) prevp cs" "distinct cs" "cs \<noteq> []" "last cs = freep h"
  shows "(\<exists>as c ds. cs = as @ c # ds \<and> n \<le> hsize (umem h) c \<and>
      malloc_loop grant n prevp (hptr (umem h) prevp) h = Some (take_block n (last (prevp # as)) c h)) \<or>
    (\<forall>c \<in> set cs. \<not> n \<le> hsize (umem h) c) \<and>
      malloc_loop grant n prevp (hptr (umem h) prevp) h =
        (case morecore grant n h of
           None \<Rightarrow> None
         | Some (p, h) \<Rightarrow> if p = 0 then Some (0, h) else malloc_loop grant n p (hptr (umem h) p) h)"
  using assms
proof (induction cs arbitrary: prevp)
  case (Cons c cs)
  have c: "hptr (umem h) prevp = c" "path (umem h) c cs" using Cons.prems(1) by simp_all
  show ?case
  proof (cases "n \<le> hsize (umem h) c")
    case True
    then have "malloc_loop grant n prevp c h = Some (take_block n prevp c h)" by (subst malloc_loop.simps) simp
    then show ?thesis using True c(1) by (intro disjI1 exI [of _ "[]"] exI [of _ c] exI [of _ cs]) simp
  next
    case small: False
    show ?thesis
    proof (cases "cs = []")
      case True
      then have "c = freep h" using Cons.prems(4) by simp
      then have "malloc_loop grant n prevp c h =
          (case morecore grant n h of
             None \<Rightarrow> None
           | Some (p, h) \<Rightarrow> if p = 0 then Some (0, h) else malloc_loop grant n p (hptr (umem h) p) h)"
        using small by (subst malloc_loop.simps) simp
      then show ?thesis using small c(1) True by (intro disjI2) simp
    next
      case False
      then have "c \<noteq> freep h" using Cons.prems(2,4) last_in_set by fastforce
      then have step: "malloc_loop grant n prevp c h = malloc_loop grant n c (hptr (umem h) c) h"
        using small by (subst malloc_loop.simps) simp
      have "last cs = freep h" "distinct cs" using Cons.prems(2,4) False by simp_all
      from Cons.IH [OF c(2) this(2) False this(1)] show ?thesis
      proof
        assume "\<exists>as d ds. cs = as @ d # ds \<and> n \<le> hsize (umem h) d \<and>
          malloc_loop grant n c (hptr (umem h) c) h = Some (take_block n (last (c # as)) d h)"
        then obtain as d ds where "cs = as @ d # ds" "n \<le> hsize (umem h) d"
          "malloc_loop grant n c (hptr (umem h) c) h = Some (take_block n (last (c # as)) d h)" by blast
        then show ?thesis using step c(1)
          by (intro disjI1 exI [of _ "c # as"] exI [of _ d] exI [of _ ds]) simp
      qed (use step c(1) small in auto)
    qed
  qed
qed simp

lemma path_last: "path m p (as @ c # ds) \<Longrightarrow> hptr m (last (p # as)) = c"
  by (induction as arbitrary: p) auto

lemma before_block:
  assumes "lst m base bs base" "p \<in> insert base (fst ` set bs)" "hptr m p = c" "c \<noteq> base"
  shows "\<exists>xs n ys. bs = xs @ (c, n) # ys \<and> p = last_hdr base xs"
proof -
  obtain xs zs where bs: "bs = xs @ zs" "p = last_hdr base xs"
    using assms(2) by (auto elim!: in_fst_setE) (metis append_Nil last_hdr_simps(1), metis append.assoc append_Cons append_Nil fst_conv last_hdr_simps(3))
  then have "lst m p zs base" using assms(1) by (simp add: lst_split)
  then obtain n ys where "zs = (c, n) # ys" using assms(3,4) by (cases zs) auto
  then show ?thesis using bs by blast
qed

lemma found_block:
  assumes ok: "heap_ok base h bs" and path: "path (umem h) (freep h) (as @ c # ds)"
    and set: "set (as @ c # ds) \<subseteq> insert base (fst ` set bs)" and n: "1 \<le> unat n" "n \<le> hsize (umem h) c"
  shows "taken base h bs (unat n) (take_block n (last (freep h # as)) c h)"
proof -
  note o = heap_okD [OF ok]
  have "last (freep h # as) \<in> insert base (fst ` set bs)" using set o(8) by (cases as rule: rev_cases) auto
  moreover have "c \<noteq> base" using n o(3) by (auto simp: word_le_nat_alt)
  ultimately obtain xs k ys where "bs = xs @ (c, k) # ys" "last (freep h # as) = last_hdr base xs"
    using before_block [OF o(4) _ path_last [OF path]] by blast
  then show ?thesis using take_block_ok [of base h xs c k ys n] ok n by simp
qed

text \<open>The whole loop: it ends, with a block of the list, with one of the memory the kernel has added, or with 0.\<close>

lemma malloc_loop_ok:
  assumes ok: "heap_ok base h bs" and grant: "grants grant" and n: "1 \<le> unat n" "unat n < 2 ^ 29"
  shows "malloc_loop grant n (freep h) (hptr (umem h) (freep h)) h = Some (0, h) \<or>
    (\<exists>h1 bs1 r. malloc_loop grant n (freep h) (hptr (umem h) (freep h)) h = Some r \<and> ubrk h \<le> ubrk h1 \<and>
       cells bs1 = cells bs \<union> {unat (ubrk h) ..< unat (ubrk h1)} \<and>
       within (hbytes base \<union> cells bs1) (umem h) (umem h1) \<and> taken base h1 bs1 (unat n) r)"
proof -
  have found: "\<exists>r. malloc_loop grant n (freep g) (hptr (umem g) (freep g)) g = Some r \<and> taken base g cs (unat n) r"
    if g: "heap_ok base g cs" "\<exists>x \<in> set cs. unat n \<le> snd x" for g cs
  proof -
    obtain zs where zs: "path (umem g) (freep g) zs" "distinct zs" "zs \<noteq> []" "last zs = freep g" "set zs = insert base (fst ` set cs)"
      using once_around [OF g(1)] by blast
    obtain b k where b: "(b, k) \<in> set cs" "unat n \<le> k" using g(2) by auto
    then have "unat (hsize (umem g) b) = k" using heap_okD(4) [OF g(1)] by (auto simp: lst_append dest!: split_list)
    then have "\<not> (\<forall>c \<in> set zs. \<not> n \<le> hsize (umem g) c)" using b zs(5) by (auto simp: word_le_nat_alt intro!: bexI [of _ b] rev_image_eqI)
    then obtain as c ds where w: "zs = as @ c # ds" "n \<le> hsize (umem g) c"
      "malloc_loop grant n (freep g) (hptr (umem g) (freep g)) g = Some (take_block n (last (freep g # as)) c g)"
      using malloc_walk [OF zs(1-4), of n grant] by blast
    have "taken base g cs (unat n) (take_block n (last (freep g # as)) c g)"
      by (rule found_block [OF g(1) _ _ n(1) w(2), of as ds]) (use zs(1,5) w(1) in simp_all)
    with w(3) show ?thesis by blast
  qed
  obtain zs where zs: "path (umem h) (freep h) zs" "distinct zs" "zs \<noteq> []" "last zs = freep h" "set zs = insert base (fst ` set bs)"
    using once_around [OF ok] by blast
  from malloc_walk [OF zs(1-4), of n grant] show ?thesis
  proof (elim disjE exE conjE)
    fix as c ds
    assume w: "zs = as @ c # ds" "n \<le> hsize (umem h) c"
      "malloc_loop grant n (freep h) (hptr (umem h) (freep h)) h = Some (take_block n (last (freep h # as)) c h)"
    have "taken base h bs (unat n) (take_block n (last (freep h # as)) c h)"
      by (rule found_block [OF ok _ _ n(1) w(2), of as ds]) (use zs(1,5) w(1) in simp_all)
    with w(3) show ?thesis using within_refl by (intro disjI2 exI [of _ h] exI [of _ bs]) auto
  next
    assume more: "malloc_loop grant n (freep h) (hptr (umem h) (freep h)) h =
        (case morecore grant n h of
           None \<Rightarrow> None
         | Some (p, h) \<Rightarrow> if p = 0 then Some (0, h) else malloc_loop grant n p (hptr (umem h) p) h)"
    from morecore_ok [OF ok grant n(2)] show ?thesis
    proof (elim disjE exE conjE)
      fix h1 bs1
      assume h1: "morecore grant n h = Some (freep h1, h1)" "heap_ok base h1 bs1" "ubrk h \<le> ubrk h1"
        "cells bs1 = cells bs \<union> {unat (ubrk h) ..< unat (ubrk h1)}" "\<exists>x \<in> set bs1. unat n \<le> snd x"
        "within (hbytes base \<union> cells bs1) (umem h) (umem h1)"
      then show ?thesis
        using found [OF h1(2,5)] more freep_not_null [OF h1(2)]
        by (intro disjI2 exI [of _ h1] exI [of _ bs1]) auto
    qed (use more in simp)
  qed
qed

text \<open>
  Before the first call \<^verbatim>\<open>freep\<close> is 0 and nothing is free.
\<close>

definition heap_inv :: "addr \<Rightarrow> uheap \<Rightarrow> block list \<Rightarrow> bool" where
  "heap_inv base h bs \<longleftrightarrow>
     (if freep h = 0
      then bs = [] \<and> hdr base \<and> base \<noteq> 0 \<and> unat base + 8 \<le> unat (ubrk h) \<and> unat (ubrk h) \<le> 2 ^ 31 \<and> aligned4 (ubrk h)
      else heap_ok base h bs)"

definition start_heap :: "addr \<Rightarrow> uheap \<Rightarrow> uheap" where
  "start_heap base h =
     (if freep h = 0
      then h\<lparr>umem := set_hsize base 0 (set_hptr base base (umem h)), freep := base\<rparr> else h)"

lemma malloc_start:
  "malloc base grant nbytes h =
     (let h = start_heap base h in malloc_loop grant (units nbytes) (freep h) (hptr (umem h) (freep h)) h)"
  by (simp add: malloc_def start_heap_def Let_def)

lemma start_heap_ok:
  assumes "heap_inv base h bs"
  shows "heap_ok base (start_heap base h) bs" "ubrk (start_heap base h) = ubrk h"
    "within (hbytes base) (umem h) (umem (start_heap base h))"
proof -
  have "within (hbytes base) (umem h) (set_hsize base 0 (set_hptr base base (umem h)))" if "hdr base"
    using within_trans [OF within_hdr(1) [OF that] within_hdr(2) [OF that]] by simp
  then show "heap_ok base (start_heap base h) bs" "ubrk (start_heap base h) = ubrk h"
    "within (hbytes base) (umem h) (umem (start_heap base h))"
    using assms hdr_fields within_refl
    by (auto simp: heap_inv_def start_heap_def heap_ok_def split: if_splits)
qed

lemma units_enough: "unat nbytes \<le> 2 ^ 30 \<Longrightarrow> unat nbytes + 8 \<le> 8 * unat (units nbytes) \<and> 1 \<le> unat (units nbytes) \<and> unat (units nbytes) < 2 ^ 29"
proof -
  assume n: "unat nbytes \<le> 2 ^ 30"
  have "unat (nbytes + 8 - 1) = unat nbytes + 7" using n by (simp add: unat_word_ariths)
  then have "unat ((nbytes + 8 - 1) div 8) = (unat nbytes + 7) div 8" by (simp add: unat_div_distrib)
  then have "unat (units nbytes) = (unat nbytes + 7) div 8 + 1" unfolding units_def using n by (simp add: unat_word_ariths)
  then show ?thesis using n by auto
qed



text \<open>A request so large that the rounding wraps around is answered with a header and no byte behind it.\<close>

lemma units_wraps: "units 0xFFFFFFFF = 1"
  by (simp add: units_def)

end
