(* ===== verification/Shell.thy ===== *)
theory Shell
  imports Sysfile
begin

text \<open>
  The command parser of the shell (\<^verbatim>\<open>sh.c\<close>). A command line is a list of bytes without the final 0; a
  \<^verbatim>\<open>char*\<close> into it is an index, and reading at its end gives 0. The parsed words are pairs of pointers
  (\<^verbatim>\<open>q\<close>, \<^verbatim>\<open>eq\<close>); \<^verbatim>\<open>nulterminate\<close> makes strings of them. The functions that call each other take a bound on
  the depth of the calls; \<open>parse_total\<close> shows that four times the length of the line is enough.
\<close>

section \<open>Tokens\<close>

definition whitespace :: "uchar list" where "whitespace = [32, 9, 13, 10, 11]"
definition sh_symbols :: "uchar list" where "sh_symbols = [60, 124, 62, 38, 59, 40, 41]"

definition char_at :: "uchar list \<Rightarrow> nat \<Rightarrow> uchar" where
  "char_at buf i = (if i < length buf then buf ! i else 0)"

function skip_ws :: "uchar list \<Rightarrow> nat \<Rightarrow> nat" where
  "skip_ws buf s = (if s < length buf \<and> buf ! s \<in> set whitespace then skip_ws buf (Suc s) else s)"
  by pat_completeness auto
termination by (relation "measure (\<lambda>(buf, s). length buf - s)") auto

function word_end :: "uchar list \<Rightarrow> nat \<Rightarrow> nat" where
  "word_end buf s =
     (if s < length buf \<and> buf ! s \<notin> set whitespace \<and> buf ! s \<notin> set sh_symbols then word_end buf (Suc s) else s)"
  by pat_completeness auto
termination by (relation "measure (\<lambda>(buf, s). length buf - s)") auto

declare skip_ws.simps [simp del] word_end.simps [simp del]

text \<open>The kind of the token, its begin and end, and the position after the white space that follows.\<close>

definition gettoken :: "uchar list \<Rightarrow> nat \<Rightarrow> uchar \<times> nat \<times> nat \<times> nat" where
  "gettoken buf ps =
     (let s = skip_ws buf ps; c = char_at buf s;
          (ret, e) =
            (if c = 0 then (0, s)
             else if c \<in> {124, 40, 41, 59, 38, 60} then (c, s + 1)
             else if c = 62 then (if char_at buf (s + 1) = 62 then (43, s + 2) else (c, s + 1))
             else (97, word_end buf s))
      in (ret, s, e, skip_ws buf e))"

definition peek :: "uchar list \<Rightarrow> nat \<Rightarrow> uchar list \<Rightarrow> bool \<times> nat" where
  "peek buf ps toks = (let s = skip_ws buf ps; c = char_at buf s in (c \<noteq> 0 \<and> c \<in> set toks, s))"

lemma skip_ws_le: "s \<le> skip_ws buf s"
  by (induction buf s rule: skip_ws.induct) (subst skip_ws.simps, auto)

lemma skip_ws_bound: "s \<le> length buf \<Longrightarrow> skip_ws buf s \<le> length buf"
  by (induction buf s rule: skip_ws.induct) (subst skip_ws.simps, auto)

lemma word_end_le: "s \<le> word_end buf s"
  by (induction buf s rule: word_end.induct) (subst word_end.simps, auto)

lemma word_end_bound: "s \<le> length buf \<Longrightarrow> word_end buf s \<le> length buf"
  by (induction buf s rule: word_end.induct) (subst word_end.simps, auto)

lemma skip_ws_stops: "char_at buf (skip_ws buf s) \<notin> set whitespace"
  by (induction buf s rule: skip_ws.induct) (subst skip_ws.simps, auto simp: char_at_def whitespace_def)

lemma char_at_end: "char_at buf s \<noteq> 0 \<Longrightarrow> s < length buf"
  by (auto simp: char_at_def split: if_splits)

lemma gettoken_bounds:
  assumes "gettoken buf i = (ret, q, e, j)" "i \<le> length buf"
  shows "i \<le> j" "j \<le> length buf" "ret \<noteq> 0 \<Longrightarrow> i < j"
proof -
  let ?s = "skip_ws buf i" and ?c = "char_at buf (skip_ws buf i)"
  have s: "i \<le> ?s" "?s \<le> length buf" using skip_ws_le skip_ws_bound assms(2) by blast+
  have "?s \<le> e \<and> e \<le> length buf \<and> (ret \<noteq> 0 \<longrightarrow> ?s < e)"
  proof (cases "?c = 0")
    case True
    then show ?thesis using assms(1) s by (auto simp: gettoken_def Let_def)
  next
    case False
    then have in_buf: "?s < length buf" by (rule char_at_end)
    have "?s < word_end buf ?s" if "?c \<notin> set sh_symbols"
      using that in_buf skip_ws_stops [of buf i] word_end_le [of "Suc ?s" buf]
      by (subst word_end.simps) (auto simp: char_at_def)
    then show ?thesis
      using assms(1) False in_buf word_end_bound [of ?s buf] char_at_end [of buf "Suc ?s"]
      by (auto simp: gettoken_def Let_def sh_symbols_def split: if_splits)
  qed
  moreover have "j = skip_ws buf e" using assms(1) by (auto simp: gettoken_def Let_def split: if_splits prod.splits)
  ultimately show "i \<le> j" "j \<le> length buf" "ret \<noteq> 0 \<Longrightarrow> i < j"
    using s skip_ws_le [of e buf] skip_ws_bound [of e buf] by auto
qed

lemma peek_bounds:
  assumes "peek buf i toks = (b, j)"
  shows "i \<le> j" "i \<le> length buf \<Longrightarrow> j \<le> length buf" "b \<Longrightarrow> j < length buf \<and> buf ! j \<in> set toks"
  using assms skip_ws_le skip_ws_bound char_at_end [of buf j]
  by (auto simp: peek_def Let_def char_at_def)

lemma gettoken_progress: "gettoken buf i = (ret, q, e, j) \<Longrightarrow> ret \<noteq> 0 \<Longrightarrow> i < j \<and> i < length buf \<and> j \<le> length buf"
proof -
  assume a: "gettoken buf i = (ret, q, e, j)" "ret \<noteq> 0"
  have "char_at buf (skip_ws buf i) \<noteq> 0" using a by (auto simp: gettoken_def Let_def)
  then have "i < length buf" using char_at_end skip_ws_le [of i buf] by fastforce
  then show ?thesis using gettoken_bounds [OF a(1)] a(2) by simp
qed

lemma gettoken_le: "gettoken buf i = (ret, q, e, j) \<Longrightarrow> i \<le> j"
  using skip_ws_le [of i buf] skip_ws_le [of e buf] word_end_le [of "skip_ws buf i" buf]
  by (auto simp: gettoken_def Let_def split: if_splits)

section \<open>Commands\<close>

datatype 'w scmd =
    EXEC "'w list"
  | REDIR "'w scmd" 'w uint32 uint32
  | PIPE "'w scmd" "'w scmd"
  | LIST "'w scmd" "'w scmd"
  | BACK "'w scmd"

type_synonym word_ptrs = "nat \<times> nat"

definition MAXARGS :: nat where "MAXARGS = 10"

text \<open>The node for a redirection by its token: \<^verbatim>\<open><\<close>, \<^verbatim>\<open>>\<close> or \<^verbatim>\<open>+\<close> for two of the latter.\<close>

definition redir_node :: "'w scmd \<Rightarrow> uchar \<Rightarrow> 'w \<Rightarrow> 'w scmd" where
  "redir_node cmd tok w =
     (if tok = 60 then REDIR cmd w O_RDONLY 0
      else if tok = 62 then REDIR cmd w (O_WRONLY OR O_CREATE) 1
      else if tok = 43 then REDIR cmd w (O_WRONLY OR O_CREATE) 1
      else cmd)"

function parseredirs :: "word_ptrs scmd \<Rightarrow> uchar list \<Rightarrow> nat \<Rightarrow> string + word_ptrs scmd \<times> nat" where
  "parseredirs cmd buf ps =
     (let (b, i) = peek buf ps [60, 62] in
      if \<not> b then Inr (cmd, i)
      else
        let (tok, _, _, i1) = gettoken buf i; (tok2, q, eq, i2) = gettoken buf i1 in
        if tok2 \<noteq> 97 then Inl ''missing file for redirection''
        else parseredirs (redir_node cmd tok (q, eq)) buf i2)"
  by pat_completeness auto
termination
proof (relation "measure (\<lambda>(cmd, buf, s). length buf - s)")
  fix cmd :: "word_ptrs scmd" and buf :: "uchar list" and ps p0 b i p1 tok y q1 y1 e1 i1 p2 tok2 y2 q y3 eq i2
  assume "p0 = peek buf ps [60, 62]" "(b, i) = p0" "p1 = gettoken buf i" "(tok, y) = p1" "(q1, y1) = y" "(e1, i1) = y1"
    "p2 = gettoken buf i1" "(tok2, y2) = p2" "(q, y3) = y2" "(eq, i2) = y3" "\<not> tok2 \<noteq> 97"
  then have "ps \<le> i" "i \<le> i1" "i1 < i2" "i1 < length buf"
    using peek_bounds(1) [of buf ps "[60, 62]" b i] gettoken_le [of buf i tok q1 e1 i1] gettoken_progress [of buf i1 tok2 q eq i2] by auto
  then show "((redir_node cmd tok (q, eq), buf, i2), cmd, buf, ps) \<in> measure (\<lambda>(cmd, buf, s). length buf - s)" by auto
qed auto

declare parseredirs.simps [simp del]

lemma parseredirs_le: "parseredirs cmd buf i = Inr (c, j) \<Longrightarrow> i \<le> j \<and> (i \<le> length buf \<longrightarrow> j \<le> length buf)"
proof (induction cmd buf i rule: parseredirs.induct)
  case (1 cmd buf ps)
  obtain b i tok q1 e1 i1 tok2 q e i2 where
    p: "peek buf ps [60, 62] = (b, i)" "gettoken buf i = (tok, q1, e1, i1)" "gettoken buf i1 = (tok2, q, e, i2)"
    by (metis prod.exhaust)
  note bounds = peek_bounds [OF p(1)] gettoken_le [OF p(2)] gettoken_bounds(2) [OF p(2)]
  show ?case
  proof (cases "b \<and> tok2 = 97")
    case True
    then have "parseredirs (redir_node cmd tok (q, e)) buf i2 = Inr (c, j)"
      using 1(2) p by (subst (asm) parseredirs.simps) simp
    then have "i2 \<le> j \<and> (i2 \<le> length buf \<longrightarrow> j \<le> length buf)" using 1(1) p True by simp
    then show ?thesis using bounds gettoken_progress [OF p(3)] True by auto
  next
    case False
    then show ?thesis using 1(2) p bounds by (subst (asm) parseredirs.simps) (auto split: if_splits)
  qed
qed

text \<open>
  The node \<^verbatim>\<open>cmd\<close> of \<^verbatim>\<open>parseexec\<close> is the innermost one of \<^verbatim>\<open>ret\<close>; storing an argument into it changes it
  below the redirections around it.
\<close>

primrec add_arg :: "'w \<Rightarrow> 'w scmd \<Rightarrow> 'w scmd" where
  "add_arg w (EXEC ws) = EXEC (ws @ [w])"
| "add_arg w (REDIR c f m d) = REDIR (add_arg w c) f m d"
| "add_arg w (PIPE l r) = PIPE l r"
| "add_arg w (LIST l r) = LIST l r"
| "add_arg w (BACK c) = BACK c"

function exec_loop :: "word_ptrs scmd \<Rightarrow> nat \<Rightarrow> uchar list \<Rightarrow> nat \<Rightarrow> string + word_ptrs scmd \<times> nat" where
  "exec_loop ret argc buf ps =
     (let (b, i) = peek buf ps [124, 41, 38, 59] in
      if b then Inr (ret, i)
      else
        let (tok, q, eq, i1) = gettoken buf i in
        if tok = 0 then Inr (ret, i1)
        else if tok \<noteq> 97 then Inl ''syntax''
        else if argc + 1 \<ge> MAXARGS then Inl ''too many args''
        else
          (case parseredirs (add_arg (q, eq) ret) buf i1 of
             Inl e \<Rightarrow> Inl e
           | Inr (ret, i2) \<Rightarrow> exec_loop ret (argc + 1) buf i2))"
  by pat_completeness auto
termination
proof (relation "measure (\<lambda>(ret, argc, buf, s). length buf - s)")
  fix ret ret' :: "word_ptrs scmd" and buf :: "uchar list" and argc :: nat and ps p0 b i p1 tok y q y1 eq i1 r i2
  assume "p0 = peek buf ps [124, 41, 38, 59]" "(b, i) = p0" "p1 = gettoken buf i" "(tok, y) = p1" "(q, y1) = y" "(eq, i1) = y1"
    "tok \<noteq> 0" "parseredirs (add_arg (q, eq) ret) buf i1 = Inr r" "(ret', i2) = r"
  then have "ps \<le> i" "i < i1" "i < length buf" "i1 \<le> i2"
    using peek_bounds(1) [of buf ps "[124, 41, 38, 59]" b i] gettoken_progress [of buf i tok q eq i1]
      parseredirs_le [of "add_arg (q, eq) ret" buf i1 ret' i2] by auto
  then show "((ret', argc + 1, buf, i2), ret, argc, buf, ps) \<in> measure (\<lambda>(ret, argc, buf, s). length buf - s)" by auto
qed auto

declare exec_loop.simps [simp del]

section \<open>The parser\<close>

text \<open>\<open>None\<close>: the bound on the depth is used up. \<open>Inl\<close>: the shell calls \<^verbatim>\<open>panic\<close>, which ends it.\<close>

type_synonym 'a parsed = "(string + 'a) option"

definition pbind :: "'a parsed \<Rightarrow> ('a \<Rightarrow> 'b parsed) \<Rightarrow> 'b parsed" where
  "pbind r f = (case r of None \<Rightarrow> None | Some (Inl e) \<Rightarrow> Some (Inl e) | Some (Inr x) \<Rightarrow> f x)"

definition after_token :: "uchar list \<Rightarrow> nat \<Rightarrow> nat" where
  "after_token buf ps = (case gettoken buf ps of (_, _, _, i) \<Rightarrow> i)"

lemma after_peek:
  assumes "peek buf ps toks = (True, i)"
  shows "i < after_token buf i" "ps < after_token buf i" "i < length buf" "after_token buf i \<le> length buf"
proof -
  obtain ret q e j where g: "gettoken buf i = (ret, q, e, j)" by (metis prod.exhaust)
  have i: "i = skip_ws buf ps" "char_at buf i \<noteq> 0" using assms by (auto simp: peek_def Let_def)
  have "skip_ws buf i = i" using skip_ws_stops [of buf ps] i by (subst skip_ws.simps) (auto simp: char_at_def)
  then have "ret \<noteq> 0" using g i(2) by (auto simp: gettoken_def Let_def split: if_splits)
  then show "i < after_token buf i" "ps < after_token buf i" "i < length buf" "after_token buf i \<le> length buf"
    using gettoken_progress [OF g] peek_bounds(1) [OF assms] g by (simp_all add: after_token_def)
qed

function backs :: "'w scmd \<Rightarrow> uchar list \<Rightarrow> nat \<Rightarrow> 'w scmd \<times> nat" where
  "backs cmd buf ps =
     (case peek buf ps [38] of (b, i) \<Rightarrow> if b then backs (BACK cmd) buf (after_token buf i) else (cmd, i))"
  by pat_completeness auto
termination
  by (relation "measure (\<lambda>(cmd, buf, s). length buf - s)") (auto, metis after_peek(2,4) diff_less_mono2 order_less_le_trans)

declare backs.simps [simp del]

text \<open>
  The four functions that call each other, each with the ones it calls as arguments, and the knot: \<open>parse n\<close>
  is the function for a part of the grammar with calls nested at most \<open>n\<close> deep.
\<close>

type_synonym parser = "uchar list \<Rightarrow> nat \<Rightarrow> (word_ptrs scmd \<times> nat) parsed"

definition parseline :: "parser \<Rightarrow> parser \<Rightarrow> parser" where
  "parseline call_pipe call_line buf ps =
     pbind (call_pipe buf ps) (\<lambda>(cmd, i).
     case backs cmd buf i of (cmd, i) \<Rightarrow>
     case peek buf i [59] of (b, i) \<Rightarrow>
       if b then pbind (call_line buf (after_token buf i)) (\<lambda>(r, i). Some (Inr (LIST cmd r, i)))
       else Some (Inr (cmd, i)))"

definition parsepipe :: "parser \<Rightarrow> parser \<Rightarrow> parser" where
  "parsepipe call_exec call_pipe buf ps =
     pbind (call_exec buf ps) (\<lambda>(cmd, i).
     case peek buf i [124] of (b, i) \<Rightarrow>
       if b then pbind (call_pipe buf (after_token buf i)) (\<lambda>(r, i). Some (Inr (PIPE cmd r, i)))
       else Some (Inr (cmd, i)))"

definition parseblock :: "parser \<Rightarrow> parser" where
  "parseblock call_line buf ps =
     (case peek buf ps [40] of (b, i) \<Rightarrow>
        if \<not> b then Some (Inl ''parseblock'')
        else pbind (call_line buf (after_token buf i)) (\<lambda>(cmd, i).
             case peek buf i [41] of (b, i) \<Rightarrow>
               if \<not> b then Some (Inl ''syntax - missing )'')
               else Some (parseredirs cmd buf (after_token buf i))))"

definition parseexec :: "parser \<Rightarrow> parser" where
  "parseexec call_block buf ps =
     (case peek buf ps [40] of (b, i) \<Rightarrow>
        if b then call_block buf i
        else case parseredirs (EXEC []) buf i of
               Inl e \<Rightarrow> Some (Inl e)
             | Inr (ret, i) \<Rightarrow> Some (exec_loop ret 0 buf i))"

datatype part = Line | Pipeline | Simple | Block

primrec parse :: "nat \<Rightarrow> part \<Rightarrow> parser" where
  "parse 0 nt = (\<lambda>buf ps. None)"
| "parse (Suc n) nt =
     (case nt of
        Line \<Rightarrow> parseline (parse n Pipeline) (parse n Line)
      | Pipeline \<Rightarrow> parsepipe (parse n Simple) (parse n Pipeline)
      | Simple \<Rightarrow> parseexec (parse n Block)
      | Block \<Rightarrow> parseblock (parse n Line))"

text \<open>\<^verbatim>\<open>nulterminate\<close> stores a 0 behind every word; the byte behind the line is 0 already.\<close>

primrec nulterminate :: "word_ptrs scmd \<Rightarrow> uchar list \<Rightarrow> uchar list" where
  "nulterminate (EXEC ws) buf = fold (\<lambda>(q, e) b. b[e := 0]) ws buf"
| "nulterminate (REDIR c f m d) buf = (nulterminate c buf)[snd f := 0]"
| "nulterminate (PIPE l r) buf = nulterminate r (nulterminate l buf)"
| "nulterminate (LIST l r) buf = nulterminate r (nulterminate l buf)"
| "nulterminate (BACK c) buf = nulterminate c buf"

definition parsecmd :: "uchar list \<Rightarrow> (word_ptrs scmd \<times> uchar list) parsed" where
  "parsecmd buf =
     pbind (parse (4 * length buf + 4) Line buf 0) (\<lambda>(cmd, i).
     case peek buf i [] of (b, s) \<Rightarrow>
       if s \<noteq> length buf then Some (Inl ''syntax'') else Some (Inr (cmd, nulterminate cmd buf)))"

section \<open>The parser ends\<close>

lemma pbind_simps [simp]:
  "pbind None f = None" "pbind (Some (Inl e)) f = Some (Inl e)" "pbind (Some (Inr x)) f = f x"
  by (simp_all add: pbind_def)

lemma backs_le: "backs cmd buf i = (c, j) \<Longrightarrow> i \<le> j \<and> (i \<le> length buf \<longrightarrow> j \<le> length buf)"
proof (induction cmd buf i rule: backs.induct)
  case (1 cmd buf ps)
  obtain b i where p: "peek buf ps [38] = (b, i)" by fastforce
  show ?case
  proof (cases b)
    case True
    then have "backs (BACK cmd) buf (after_token buf i) = (c, j)" using 1(2) p by (subst (asm) backs.simps) simp
    moreover have "peek buf ps [38] = (True, i)" using p True by simp
    ultimately show ?thesis using 1(1) [OF p [symmetric] True] after_peek by fastforce
  next
    case False
    then show ?thesis using 1(2) p peek_bounds [OF p] by (subst (asm) backs.simps) auto
  qed
qed

lemma exec_loop_le: "exec_loop ret n buf i = Inr (c, j) \<Longrightarrow> i \<le> j \<and> (i \<le> length buf \<longrightarrow> j \<le> length buf)"
proof (induction ret n buf i rule: exec_loop.induct)
  case (1 ret argc buf ps)
  obtain b i tok q e i1 where p: "peek buf ps [124, 41, 38, 59] = (b, i)" "gettoken buf i = (tok, q, e, i1)"
    by (metis prod.exhaust)
  note bounds = peek_bounds [OF p(1)] gettoken_le [OF p(2)] gettoken_bounds(2) [OF p(2)]
  show ?case
  proof (cases "\<not> b \<and> tok = 97 \<and> argc + 1 < MAXARGS")
    case True
    then obtain r i2 where r: "parseredirs (add_arg (q, e) ret) buf i1 = Inr (r, i2)" "exec_loop r (argc + 1) buf i2 = Inr (c, j)"
      using 1(2) p by (subst (asm) exec_loop.simps) (auto split: sum.splits)
    then have "i2 \<le> j \<and> (i2 \<le> length buf \<longrightarrow> j \<le> length buf)"
      using 1(1) [OF p(1) [symmetric] refl _ p(2) [symmetric] refl refl refl] True by simp
    then show ?thesis using bounds parseredirs_le [OF r(1)] by auto
  next
    case False
    then show ?thesis using 1(2) p bounds by (subst (asm) exec_loop.simps) (auto split: if_splits)
  qed
qed

text \<open>The depth a part of the grammar needs at a position: a nested call is on less of the line or further down.\<close>

definition depth :: "part \<Rightarrow> nat \<Rightarrow> nat" where
  "depth nt r = 4 * r + (case nt of Line \<Rightarrow> 4 | Pipeline \<Rightarrow> 3 | Simple \<Rightarrow> 2 | Block \<Rightarrow> 1)"

definition fine :: "uchar list \<Rightarrow> nat \<Rightarrow> (word_ptrs scmd \<times> nat) parsed \<Rightarrow> bool" where
  "fine buf i r \<longleftrightarrow> (case r of None \<Rightarrow> False | Some (Inl e) \<Rightarrow> True | Some (Inr (c, j)) \<Rightarrow> i \<le> j \<and> j \<le> length buf)"

lemma fine_pbind:
  assumes "fine buf i r" "\<And>c j. r = Some (Inr (c, j)) \<Longrightarrow> i \<le> j \<Longrightarrow> j \<le> length buf \<Longrightarrow> fine buf k (f (c, j))"
  shows "fine buf k (pbind r f)"
  using assms by (auto simp: fine_def split: option.splits sum.splits)

lemma fine_mono: "fine buf i r \<Longrightarrow> k \<le> i \<Longrightarrow> fine buf k r"
  by (auto simp: fine_def split: option.splits sum.splits)

lemma fine_next:
  assumes "peek buf j toks = (True, k)" "i \<le> j" "\<And>k. i < k \<Longrightarrow> k \<le> length buf \<Longrightarrow> fine buf k (call buf k)"
  shows "fine buf i (pbind (call buf (after_token buf k)) (\<lambda>(r, j). Some (Inr (f r, j))))"
proof -
  note a = after_peek [OF assms(1)]
  have "fine buf (after_token buf k) (call buf (after_token buf k))" using assms(2,3) a by simp
  then show ?thesis by (rule fine_pbind) (use a assms(2) in \<open>simp add: fine_def\<close>)
qed

lemma parseline_fine:
  assumes "fine buf i (call_pipe buf i)" "\<And>k. i < k \<Longrightarrow> k \<le> length buf \<Longrightarrow> fine buf k (call_line buf k)"
  shows "fine buf i (parseline call_pipe call_line buf i)"
  unfolding parseline_def using assms(1)
proof (rule fine_pbind, goal_cases)
  case (1 c j)
  obtain c' j' b k where b: "backs c buf j = (c', j')" "peek buf j' [59] = (b, k)" by fastforce
  then show ?case
    using backs_le [OF b(1)] peek_bounds [OF b(2)] 1 fine_next [of buf j' "[59]" k i call_line "LIST c'"] assms(2)
    by (cases b) (auto simp: fine_def)
qed

lemma parsepipe_fine:
  assumes "fine buf i (call_exec buf i)" "\<And>k. i < k \<Longrightarrow> k \<le> length buf \<Longrightarrow> fine buf k (call_pipe buf k)"
  shows "fine buf i (parsepipe call_exec call_pipe buf i)"
  unfolding parsepipe_def using assms(1)
proof (rule fine_pbind, goal_cases)
  case (1 c j)
  obtain b k where b: "peek buf j [124] = (b, k)" by fastforce
  then show ?case
    using peek_bounds [OF b] 1 fine_next [of buf j "[124]" k i call_pipe "PIPE c"] assms(2) by (cases b) (auto simp: fine_def)
qed

lemma fine_redirs: "i \<le> j \<Longrightarrow> j \<le> length buf \<Longrightarrow> fine buf i (Some (parseredirs c buf j))"
  by (cases "parseredirs c buf j") (auto simp: fine_def dest!: parseredirs_le)

lemma parseblock_fine:
  assumes "\<And>k. i < k \<Longrightarrow> k \<le> length buf \<Longrightarrow> fine buf k (call_line buf k)"
  shows "fine buf i (parseblock call_line buf i)"
proof (cases "peek buf i [40]")
  case (Pair b k)
  show ?thesis
  proof (cases b)
    case True
    then have a: "i < after_token buf k" "after_token buf k \<le> length buf" using Pair after_peek [of buf i "[40]" k] by simp_all
    have "fine buf i (pbind (call_line buf (after_token buf k)) (\<lambda>(cmd, i). case peek buf i [41] of (b, i) \<Rightarrow>
        if \<not> b then Some (Inl ''syntax - missing )'') else Some (parseredirs cmd buf (after_token buf i))))"
      using assms [OF a]
    proof (rule fine_pbind, goal_cases)
      case (1 c j)
      obtain b' l where l: "peek buf j [41] = (b', l)" by fastforce
      then show ?case
        using 1 a after_peek [of buf j "[41]" l] fine_redirs [of i "after_token buf l"] by (cases b') (auto simp: fine_def)
    qed
    then show ?thesis using Pair True by (simp add: parseblock_def)
  qed (use Pair in \<open>simp add: parseblock_def fine_def\<close>)
qed

lemma parseexec_fine:
  assumes "\<And>k. i \<le> k \<Longrightarrow> k \<le> length buf \<Longrightarrow> fine buf k (call_block buf k)" "i \<le> length buf"
  shows "fine buf i (parseexec call_block buf i)"
proof (cases "peek buf i [40]")
  case (Pair b k)
  have k: "i \<le> k" "k \<le> length buf" using peek_bounds [OF Pair] assms(2) by simp_all
  have "fine buf i (call_block buf k)" using assms(1) [OF k] k(1) by (rule fine_mono)
  moreover have "fine buf i (case parseredirs (EXEC []) buf k of Inl e \<Rightarrow> Some (Inl e) | Inr (ret, i) \<Rightarrow> Some (exec_loop ret 0 buf i))"
    using k by (auto simp: fine_def dest!: parseredirs_le exec_loop_le split: sum.splits)
  ultimately show ?thesis using Pair by (cases b) (simp_all add: parseexec_def)
qed

lemma parse_total: "depth nt (length buf - i) \<le> n \<Longrightarrow> i \<le> length buf \<Longrightarrow> fine buf i (parse n nt buf i)"
proof (induction n arbitrary: nt i)
  case 0
  then show ?case by (simp add: depth_def split: part.splits)
next
  case (Suc n)
  have rec: "fine buf k (parse n mt buf k)" if "depth mt (length buf - k) \<le> n" "k \<le> length buf" for mt k
    using Suc.IH that .
  show ?case
    using Suc.prems
    by (cases nt) (auto simp: depth_def intro!: parseline_fine parsepipe_fine parseexec_fine parseblock_fine rec)
qed

end
