(* ===== verification/Shellprint.thy ===== *)
theory Shellprint
  imports Shell
begin

text \<open>
  What the parser of the shell computes. The words of a parsed command are maximal words of the line, and
  after \<^verbatim>\<open>nulterminate\<close> each is a string of its own. A printer for commands, with parentheses where the
  grammar needs them, is inverted by the parser.
\<close>

section \<open>The words of a command\<close>

definition wordchar :: "uchar \<Rightarrow> bool" where
  "wordchar c \<longleftrightarrow> c \<notin> set whitespace \<and> c \<notin> set sh_symbols"

fun is_word :: "uchar list \<Rightarrow> word_ptrs \<Rightarrow> bool" where
  "is_word buf (q, e) \<longleftrightarrow>
     q < e \<and> e \<le> length buf \<and> (\<forall>i\<in>{q..<e}. wordchar (buf ! i)) \<and> (e < length buf \<longrightarrow> \<not> wordchar (buf ! e))"

lemma word_end_word:
  "(\<forall>i\<in>{s..<word_end buf s}. wordchar (buf ! i)) \<and> (word_end buf s < length buf \<longrightarrow> \<not> wordchar (buf ! word_end buf s))"
proof (induction buf s rule: word_end.induct)
  case (1 buf s)
  show ?case
  proof (cases "s < length buf \<and> wordchar (buf ! s)")
    case True
    then have eq: "word_end buf s = word_end buf (Suc s)" by (subst word_end.simps) (simp add: wordchar_def)
    have ih: "\<forall>i\<in>{Suc s..<word_end buf (Suc s)}. wordchar (buf ! i)"
      "word_end buf (Suc s) < length buf \<Longrightarrow> \<not> wordchar (buf ! word_end buf (Suc s))"
      using 1 True unfolding wordchar_def by blast+
    have "wordchar (buf ! i)" if "i \<in> {s..<word_end buf (Suc s)}" for i
      using ih(1) True that by (cases "i = s") auto
    then show ?thesis unfolding eq using ih(2) by blast
  next
    case False
    then have "word_end buf s = s" by (subst word_end.simps) (auto simp: wordchar_def)
    then show ?thesis using False by auto
  qed
qed

lemma gettoken_word:
  assumes "gettoken buf i = (97, q, e, j)"
  shows "is_word buf (q, e)"
proof -
  let ?s = "skip_ws buf i" and ?c = "char_at buf (skip_ws buf i)"
  have c: "?c \<noteq> 0" "?c \<notin> set sh_symbols" "q = ?s" "e = word_end buf ?s"
    using assms by (auto simp: gettoken_def Let_def sh_symbols_def split: if_splits)
  have s: "?s < length buf" using c(1) by (rule char_at_end)
  have "wordchar (buf ! ?s)" using c(2) skip_ws_stops [of buf i] s by (simp add: wordchar_def char_at_def)
  then have "?s < word_end buf ?s"
    using s word_end_le [of "Suc ?s" buf] by (subst word_end.simps) (auto simp: wordchar_def)
  then show ?thesis using c word_end_word [of ?s buf] word_end_bound [of ?s buf] s by simp
qed

text \<open>The arguments of every simple command leave room for the final null pointer of \<^verbatim>\<open>argv\<close>.\<close>

primrec args_fit :: "'w scmd \<Rightarrow> bool" where
  "args_fit (EXEC ws) \<longleftrightarrow> length ws < MAXARGS"
| "args_fit (REDIR c f m d) \<longleftrightarrow> args_fit c"
| "args_fit (PIPE l r) \<longleftrightarrow> args_fit l \<and> args_fit r"
| "args_fit (LIST l r) \<longleftrightarrow> args_fit l \<and> args_fit r"
| "args_fit (BACK c) \<longleftrightarrow> args_fit c"

definition good :: "uchar list \<Rightarrow> word_ptrs scmd \<Rightarrow> bool" where
  "good buf c \<longleftrightarrow> (\<forall>w\<in>set_scmd c. is_word buf w) \<and> args_fit c"

text \<open>The number of arguments stored so far in the innermost node.\<close>

primrec stored :: "'w scmd \<Rightarrow> nat option" where
  "stored (EXEC ws) = Some (length ws)"
| "stored (REDIR c f m d) = stored c"
| "stored (PIPE l r) = None"
| "stored (LIST l r) = None"
| "stored (BACK c) = None"

lemma redir_node_good:
  "good buf cmd \<Longrightarrow> is_word buf w \<Longrightarrow> good buf (redir_node cmd tok w) \<and> stored (redir_node cmd tok w) = stored cmd"
  by (auto simp: redir_node_def good_def)

lemma add_arg_simps:
  assumes "stored cmd = Some n"
  shows "set_scmd (add_arg w cmd) = insert w (set_scmd cmd)" "stored (add_arg w cmd) = Some (n + 1)"
    "args_fit (add_arg w cmd) = (n + 1 < MAXARGS)"
  using assms by (induction cmd) auto

lemma add_arg_good:
  assumes "good buf cmd" "stored cmd = Some n" "is_word buf w" "n + 1 < MAXARGS"
  shows "good buf (add_arg w cmd) \<and> stored (add_arg w cmd) = Some (n + 1)"
  using assms(1,3,4) add_arg_simps [OF assms(2)] by (simp add: good_def)

lemma parseredirs_good:
  "parseredirs cmd buf i = Inr (c, j) \<Longrightarrow> good buf cmd \<Longrightarrow> good buf c \<and> stored c = stored cmd"
proof (induction cmd buf i rule: parseredirs.induct)
  case (1 cmd buf ps)
  obtain b i tok q1 e1 i1 tok2 q e i2 where
    p: "peek buf ps [60, 62] = (b, i)" "gettoken buf i = (tok, q1, e1, i1)" "gettoken buf i1 = (tok2, q, e, i2)"
    by (metis prod.exhaust)
  show ?case
  proof (cases "b \<and> tok2 = 97")
    case True
    then have "parseredirs (redir_node cmd tok (q, e)) buf i2 = Inr (c, j)"
      using 1(2) p by (subst (asm) parseredirs.simps) simp
    moreover have "is_word buf (q, e)" using gettoken_word p(3) True by simp
    ultimately show ?thesis using 1(1) p True redir_node_good [OF 1(3), of "(q, e)" tok] by simp
  next
    case False
    then show ?thesis using 1(2,3) p by (subst (asm) parseredirs.simps) (auto split: if_splits)
  qed
qed

lemma exec_loop_good:
  "exec_loop ret n buf i = Inr (c, j) \<Longrightarrow> good buf ret \<Longrightarrow> stored ret = Some n \<Longrightarrow> good buf c"
proof (induction ret n buf i rule: exec_loop.induct)
  case (1 ret argc buf ps)
  obtain b i tok q e i1 where p: "peek buf ps [124, 41, 38, 59] = (b, i)" "gettoken buf i = (tok, q, e, i1)"
    by (metis prod.exhaust)
  show ?case
  proof (cases "\<not> b \<and> tok = 97 \<and> argc + 1 < MAXARGS")
    case True
    then obtain r i2 where r: "parseredirs (add_arg (q, e) ret) buf i1 = Inr (r, i2)" "exec_loop r (argc + 1) buf i2 = Inr (c, j)"
      using 1(2) p by (subst (asm) exec_loop.simps) (auto split: sum.splits)
    have "is_word buf (q, e)" using gettoken_word p(2) True by simp
    then have "good buf r \<and> stored r = Some (argc + 1)"
      using parseredirs_good [OF r(1)] add_arg_good [OF 1(3,4), of "(q, e)"] True by simp
    then show ?thesis
      using 1(1) [OF p(1) [symmetric] refl _ p(2) [symmetric] refl refl refl] True r by simp
  next
    case False
    then show ?thesis using 1(2,3) p by (subst (asm) exec_loop.simps) (auto split: if_splits)
  qed
qed

lemma backs_good: "backs cmd buf i = (c, j) \<Longrightarrow> good buf cmd \<Longrightarrow> good buf c"
proof (induction cmd buf i rule: backs.induct)
  case (1 cmd buf ps)
  obtain b i where p: "peek buf ps [38] = (b, i)" by fastforce
  have "good buf (BACK cmd)" using 1(3) by (simp add: good_def)
  moreover have "backs cmd buf ps = (if b then backs (BACK cmd) buf (after_token buf i) else (cmd, i))"
    using p by (subst backs.simps) simp
  ultimately show ?case using 1(1) [OF p [symmetric]] 1(2,3) by (cases b) simp_all
qed

definition yields_good :: "uchar list \<Rightarrow> (word_ptrs scmd \<times> nat) parsed \<Rightarrow> bool" where
  "yields_good buf r \<longleftrightarrow> (\<forall>c j. r = Some (Inr (c, j)) \<longrightarrow> good buf c)"

lemma yields_good_bind:
  assumes "yields_good buf r" "\<And>c j. good buf c \<Longrightarrow> yields_good buf (f (c, j))"
  shows "yields_good buf (pbind r f)"
  unfolding yields_good_def
proof (intro allI impI)
  fix c j
  assume "pbind r f = Some (Inr (c, j))"
  then obtain c' j' where r: "r = Some (Inr (c', j'))" "f (c', j') = Some (Inr (c, j))"
    by (auto simp: pbind_def split: option.splits sum.splits)
  have "good buf c'" using assms(1) r(1) by (simp add: yields_good_def)
  then show "good buf c" using assms(2) [of c' j'] r(2) unfolding yields_good_def by blast
qed

lemma yields_good_ret [simp]:
  "yields_good buf (Some (Inr (c, j))) = good buf c" "yields_good buf (Some (Inl e))" "yields_good buf None"
  by (auto simp: yields_good_def)

lemma good_nodes:
  "good buf l \<Longrightarrow> good buf r \<Longrightarrow> good buf (PIPE l r)" "good buf l \<Longrightarrow> good buf r \<Longrightarrow> good buf (LIST l r)" "good buf (EXEC [])"
  by (auto simp: good_def MAXARGS_def)

lemma yields_good_redirs: "good buf c \<Longrightarrow> yields_good buf (Some (parseredirs c buf i))"
  using parseredirs_good by (fastforce simp: yields_good_def)

lemma parse_good: "yields_good buf (parse n nt buf i)"
proof (induction n arbitrary: nt i)
  case (Suc n)
  note steps = yields_good_bind Suc.IH
  have "yields_good buf (parseline (parse n Pipeline) (parse n Line) buf i)"
    unfolding parseline_def
    by (auto intro!: steps good_nodes split: prod.splits) (erule (1) backs_good)+
  moreover have "yields_good buf (parsepipe (parse n Simple) (parse n Pipeline) buf i)"
    unfolding parsepipe_def by (auto intro!: steps good_nodes split: prod.splits)
  moreover have "yields_good buf (parseblock (parse n Line) buf i)"
    unfolding parseblock_def by (auto intro!: steps yields_good_redirs split: prod.splits)
  moreover have "yields_good buf (parseexec (parse n Block) buf i)"
  proof (cases "peek buf i [40]")
    case (Pair b k)
    have "yields_good buf (case parseredirs (EXEC []) buf k of Inl e \<Rightarrow> Some (Inl e) | Inr (ret, i) \<Rightarrow> Some (exec_loop ret 0 buf i))"
    proof (cases "parseredirs (EXEC []) buf k")
      case (Inr r)
      obtain c j where r: "r = (c, j)" by fastforce
      then have "good buf c" "stored c = Some 0" using parseredirs_good [of "EXEC []" buf k c j] Inr good_nodes(3) by simp_all
      then have "yields_good buf (Some (exec_loop c 0 buf j))" using exec_loop_good unfolding yields_good_def by blast
      then show ?thesis using Inr r by simp
    qed simp
    then show ?thesis using Pair Suc.IH by (cases b) (simp_all add: parseexec_def)
  qed
  ultimately show ?case by (cases nt) simp_all
qed simp

section \<open>The strings nulterminate makes\<close>

definition cstring :: "uchar list \<Rightarrow> nat \<Rightarrow> uchar list" where
  "cstring buf q = takeWhile (\<lambda>c. c \<noteq> 0) (drop q buf)"

definition slice :: "uchar list \<Rightarrow> word_ptrs \<Rightarrow> uchar list" where
  "slice buf = (\<lambda>(q, e). take (e - q) (drop q buf))"

lemma nulterminate_length [simp]: "length (nulterminate c buf) = length buf"
proof (induction c arbitrary: buf)
  case (EXEC ws)
  show ?case by (induction ws arbitrary: buf) auto
qed auto

lemma nulterminate_nth:
  "i < length buf \<Longrightarrow> nulterminate c buf ! i = (if i \<in> snd ` set_scmd c then 0 else buf ! i)"
proof (induction c arbitrary: buf)
  case (EXEC ws)
  then show ?case
  proof (induction ws arbitrary: buf)
    case (Cons w ws)
    then show ?case by (cases w) (auto simp: nth_list_update image_iff)
  qed simp
next
  case (REDIR c f m d)
  then show ?case by (cases "i = snd f") (simp_all add: REDIR.IH)
qed (simp_all add: image_Un)

lemma end_not_inside:
  assumes "is_word buf (q, e)" "is_word buf w" "i \<in> {q..<e}"
  shows "i \<noteq> snd w"
  using assms by (cases w) auto

lemma nulterminate_string:
  assumes "0 \<notin> set buf" "\<forall>w\<in>set_scmd c. is_word buf w" "(q, e) \<in> set_scmd c"
  shows "cstring (nulterminate c buf) q = slice buf (q, e)"
proof -
  let ?b = "nulterminate c buf"
  have w: "is_word buf (q, e)" using assms(2,3) by blast
  have inside: "?b ! i = buf ! i" "?b ! i \<noteq> 0" if "i \<in> {q..<e}" for i
  proof -
    have "i \<notin> snd ` set_scmd c" using end_not_inside [OF w _ that] assms(2) by blast
    moreover have "i < length buf" using that w by simp
    ultimately show "?b ! i = buf ! i" "?b ! i \<noteq> 0"
      using nulterminate_nth [of i buf c] assms(1) by (auto dest: nth_mem)
  qed
  have "drop q ?b = slice buf (q, e) @ drop e ?b"
    using w inside(1) by (intro nth_equalityI) (auto simp: slice_def nth_append add.commute)
  moreover have "takeWhile (\<lambda>c. c \<noteq> 0) (drop e ?b) = []"
  proof (cases "e < length buf")
    case True
    have "e \<in> snd ` set_scmd c" using assms(3) by force
    then have "?b ! e = 0" using nulterminate_nth [OF True] by simp
    then show ?thesis using True by (simp add: Cons_nth_drop_Suc [symmetric])
  qed simp
  moreover have "\<forall>x\<in>set (slice buf (q, e)). x \<noteq> 0"
    using assms(1) by (auto simp: slice_def dest: in_set_takeD in_set_dropD)
  ultimately show ?thesis by (simp add: cstring_def)
qed

section \<open>Printing\<close>

text \<open>A token as text, with a blank after it.\<close>

datatype tok = W "uchar list" | S uchar

primrec tok_text :: "tok \<Rightarrow> uchar list" where
  "tok_text (W w) = w @ [32]"
| "tok_text (S c) = [c, 32]"

primrec tok_ok :: "tok \<Rightarrow> bool" where
  "tok_ok (W w) \<longleftrightarrow> w \<noteq> [] \<and> (\<forall>c\<in>set w. wordchar c \<and> c \<noteq> 0)"
| "tok_ok (S c) \<longleftrightarrow> c \<in> set sh_symbols"

definition toks_text :: "tok list \<Rightarrow> uchar list" where
  "toks_text ts = concat (map tok_text ts)"

text \<open>How loosely the outermost operator of a command binds; parentheses where it is too loose.\<close>

primrec level :: "'w scmd \<Rightarrow> nat" where
  "level (EXEC ws) = 0"
| "level (REDIR c f m d) = 0"
| "level (PIPE l r) = 1"
| "level (BACK c) = 2"
| "level (LIST l r) = 3"

definition wrap :: "nat \<Rightarrow> 'w scmd \<Rightarrow> tok list \<Rightarrow> tok list" where
  "wrap k c ts = (if level c \<le> k then ts else S 40 # ts @ [S 41])"

definition redir_toks :: "uchar list \<times> uint32 \<times> uint32 \<Rightarrow> tok list" where
  "redir_toks = (\<lambda>(f, m, d). [S (if d = 0 then 60 else 62), W f])"

primrec cmd_toks :: "uchar list scmd \<Rightarrow> tok list" where
  "cmd_toks (EXEC ws) = map W ws"
| "cmd_toks (REDIR c f m d) = wrap 0 c (cmd_toks c) @ redir_toks (f, m, d)"
| "cmd_toks (PIPE l r) = wrap 0 l (cmd_toks l) @ S 124 # wrap 1 r (cmd_toks r)"
| "cmd_toks (BACK c) = wrap 2 c (cmd_toks c) @ [S 38]"
| "cmd_toks (LIST l r) = wrap 2 l (cmd_toks l) @ S 59 # cmd_toks r"

definition print_cmd :: "uchar list scmd \<Rightarrow> uchar list" where
  "print_cmd c = toks_text (cmd_toks c)"

text \<open>
  The commands the shell can express: words are not empty and have no separators, a simple command has
  at most nine arguments, and a redirection is one of the two the parser knows.
\<close>

definition redir_ok :: "'w \<times> uint32 \<times> uint32 \<Rightarrow> bool" where
  "redir_ok = (\<lambda>(f, m, d). m = O_RDONLY \<and> d = 0 \<or> m = O_WRONLY OR O_CREATE \<and> d = 1)"

primrec redirs_ok :: "'w scmd \<Rightarrow> bool" where
  "redirs_ok (EXEC ws) \<longleftrightarrow> True"
| "redirs_ok (REDIR c f m d) \<longleftrightarrow> redirs_ok c \<and> redir_ok (f, m, d)"
| "redirs_ok (PIPE l r) \<longleftrightarrow> redirs_ok l \<and> redirs_ok r"
| "redirs_ok (LIST l r) \<longleftrightarrow> redirs_ok l \<and> redirs_ok r"
| "redirs_ok (BACK c) \<longleftrightarrow> redirs_ok c"

definition cmd_ok :: "uchar list scmd \<Rightarrow> bool" where
  "cmd_ok c \<longleftrightarrow> (\<forall>w\<in>set_scmd c. tok_ok (W w)) \<and> args_fit c \<and> redirs_ok c"

section \<open>Tokens of a printed line\<close>

text \<open>The rest of the line from a position on is a list of tokens.\<close>

definition here :: "uchar list \<Rightarrow> nat \<Rightarrow> tok list \<Rightarrow> bool" where
  "here buf i ts \<longleftrightarrow> i \<le> length buf \<and> drop i buf = toks_text ts \<and> list_all tok_ok ts"

definition starts :: "uchar list \<Rightarrow> tok list \<Rightarrow> bool" where
  "starts cs ts = (case ts of S c # _ \<Rightarrow> c \<in> set cs | _ \<Rightarrow> False)"

lemma starts_simps [simp]:
  "\<not> starts cs []" "\<not> starts cs (W w # ts)" "starts cs (S c # ts) \<longleftrightarrow> c \<in> set cs"
  by (simp_all add: starts_def)

lemma toks_text_simps [simp]: "toks_text [] = []" "toks_text (t # ts) = tok_text t @ toks_text ts"
  by (simp_all add: toks_text_def)

lemma tok_first:
  assumes "tok_ok t"
  shows "\<exists>c cs. tok_text t = c # cs \<and> c \<notin> set whitespace \<and> c \<noteq> 0"
proof (cases t)
  case (W w)
  then show ?thesis using assms by (cases w) (auto simp: wordchar_def)
next
  case (S c)
  then show ?thesis using assms by (auto simp: sh_symbols_def whitespace_def)
qed

lemma drop_char: "drop i buf = c # cs \<Longrightarrow> i < length buf \<and> buf ! i = c \<and> drop (Suc i) buf = cs"
  by (metis drop_Suc drop_eq_Nil2 leI list.discI list.sel(1) list.sel(3) nth_via_drop tl_drop)

lemma here_end: "here buf i [] \<Longrightarrow> i = length buf"
  by (simp add: here_def)

lemma here_char:
  assumes "here buf i (t # ts)"
  shows "i < length buf" "char_at buf i = hd (tok_text t)" "buf ! i \<notin> set whitespace" "char_at buf i \<noteq> 0"
proof -
  obtain c cs where c: "tok_text t = c # cs" "c \<notin> set whitespace" "c \<noteq> 0"
    using tok_first [of t] assms by (auto simp: here_def)
  then have "drop i buf = c # cs @ toks_text ts" using assms by (simp add: here_def)
  then show "i < length buf" "char_at buf i = hd (tok_text t)" "buf ! i \<notin> set whitespace" "char_at buf i \<noteq> 0"
    using drop_char c by (fastforce simp: char_at_def)+
qed

lemma here_skip:
  assumes "here buf i ts"
  shows "skip_ws buf i = i"
proof -
  have "\<not> (i < length buf \<and> buf ! i \<in> set whitespace)"
  proof (cases ts)
    case Nil
    then show ?thesis using here_end [of buf i] assms by simp
  next
    case (Cons t ts')
    then show ?thesis using here_char [of buf i t ts'] assms by simp
  qed
  then show ?thesis by (subst skip_ws.simps) (rule if_not_P)
qed

lemma blank_skip: "i < length buf \<Longrightarrow> buf ! i = 32 \<Longrightarrow> here buf (Suc i) ts \<Longrightarrow> skip_ws buf i = Suc i"
  by (subst skip_ws.simps) (simp add: here_skip whitespace_def)

lemma peek_here:
  assumes "here buf i ts" "set toks \<subseteq> set sh_symbols"
  shows "peek buf i toks = (starts toks ts, i)"
proof (cases ts)
  case Nil
  then show ?thesis using assms(1) here_end here_skip by (fastforce simp: peek_def Let_def char_at_def)
next
  case (Cons t ts')
  then have h: "here buf i (t # ts')" "tok_ok t" using assms(1) by (simp_all add: here_def)
  note c = here_char(2,4) [OF h(1)]
  have "hd (tok_text t) \<in> set toks \<longleftrightarrow> starts toks (t # ts')"
  proof (cases t)
    case (W w)
    then show ?thesis using h(2) assms(2) by (cases w) (auto simp: wordchar_def)
  qed simp
  then show ?thesis using c Cons here_skip [OF assms(1)] by (simp add: peek_def Let_def)
qed

lemma gettoken_sym:
  assumes "here buf i (S c # ts)"
  shows "gettoken buf i = (c, i, i + 1, i + 2)" "here buf (i + 2) ts"
proof -
  have d: "drop i buf = c # 32 # toks_text ts" "tok_ok (S c)" using assms by (simp_all add: here_def)
  have 1: "i < length buf" "buf ! i = c" "drop (Suc i) buf = 32 # toks_text ts" using drop_char [OF d(1)] by simp_all
  have 2: "Suc i < length buf" "buf ! Suc i = 32" "drop (Suc (Suc i)) buf = toks_text ts" using drop_char [OF 1(3)] by simp_all
  show h: "here buf (i + 2) ts" using 2 assms by (simp add: here_def)
  then have "skip_ws buf (Suc i) = i + 2" using blank_skip [of "Suc i"] 2 by simp
  moreover have "char_at buf i = c" "char_at buf (Suc i) = 32" using 1 2 by (simp_all add: char_at_def)
  ultimately show "gettoken buf i = (c, i, i + 1, i + 2)"
    using d(2) here_skip [OF assms] by (auto simp: gettoken_def Let_def sh_symbols_def)
qed

lemma word_end_here:
  assumes "drop i buf = w @ c # cs" "\<forall>x\<in>set w. wordchar x" "\<not> wordchar c"
  shows "word_end buf i = i + length w"
  using assms
proof (induction w arbitrary: i)
  case Nil
  then have "i < length buf" "buf ! i = c" using drop_char [of i buf c cs] by simp_all
  then show ?case using Nil(3) by (subst word_end.simps) (auto simp: wordchar_def)
next
  case (Cons x w)
  then have d: "i < length buf" "buf ! i = x" "drop (Suc i) buf = w @ c # cs" using drop_char [of i buf x "w @ c # cs"] by simp_all
  then have "word_end buf (Suc i) = Suc i + length w" using Cons by simp
  then show ?case using d Cons(3) by (subst word_end.simps) (auto simp: wordchar_def)
qed

lemma gettoken_W:
  assumes "here buf i (W w # ts)"
  shows "gettoken buf i = (97, i, i + length w, i + length w + 1)" "here buf (i + length w + 1) ts"
    "slice buf (i, i + length w) = w"
proof -
  let ?e = "i + length w"
  have d: "drop i buf = w @ 32 # toks_text ts" "tok_ok (W w)" "i \<le> length buf" using assms by (simp_all add: here_def)
  have "drop ?e buf = drop (length w) (drop i buf)" by (simp add: add.commute)
  then have e0: "drop ?e buf = 32 # toks_text ts" using d(1) by simp
  have e: "?e < length buf" "buf ! ?e = 32" "drop (Suc ?e) buf = toks_text ts" using drop_char [OF e0] by simp_all
  show h: "here buf (?e + 1) ts" using e assms by (simp add: here_def)
  then have sk: "skip_ws buf ?e = ?e + 1" using blank_skip [of ?e] e by simp
  show "slice buf (i, ?e) = w" using d(1) by (simp add: slice_def)
  have "word_end buf i = ?e" using word_end_here [OF d(1)] d(2) by (simp add: wordchar_def whitespace_def)
  moreover have "char_at buf i \<notin> set sh_symbols" "char_at buf i \<noteq> 0"
    using here_char [OF assms] d(2) by (cases w; simp add: wordchar_def)+
  ultimately show "gettoken buf i = (97, i, ?e, ?e + 1)"
    using here_skip [OF assms] sk by (auto simp: gettoken_def Let_def sh_symbols_def)
qed

lemma gettoken_end: "here buf i [] \<Longrightarrow> gettoken buf i = (0, i, i, i)"
  using here_skip [of buf i "[]"] here_end [of buf i] by (simp add: gettoken_def Let_def char_at_def)

lemma after_sym: "here buf i (S c # ts) \<Longrightarrow> after_token buf i = i + 2 \<and> here buf (i + 2) ts"
  using gettoken_sym by (simp add: after_token_def)

section \<open>The parser on a printed line\<close>

text \<open>The command with its words as text, and redirections around a command, the first one innermost.\<close>

abbreviation spelled :: "uchar list \<Rightarrow> word_ptrs scmd \<Rightarrow> uchar list scmd" where
  "spelled buf \<equiv> map_scmd (slice buf)"

definition redirs :: "('w \<times> uint32 \<times> uint32) list \<Rightarrow> 'w scmd \<Rightarrow> 'w scmd" where
  "redirs rs c = fold (\<lambda>(f, m, d) c. REDIR c f m d) rs c"

definition redirs_toks :: "(uchar list \<times> uint32 \<times> uint32) list \<Rightarrow> tok list" where
  "redirs_toks rs = concat (map redir_toks rs)"

lemma redirs_simps [simp]:
  "redirs [] c = c" "redirs ((f, m, d) # rs) c = redirs rs (REDIR c f m d)"
  "redirs_toks [] = []" "redirs_toks (r # rs) = redir_toks r @ redirs_toks rs"
  by (simp_all add: redirs_def redirs_toks_def)

lemma parseredirs_none:
  assumes "here buf i ts" "\<not> starts [60, 62] ts"
  shows "parseredirs c buf i = Inr (c, i)"
  using peek_here [OF assms(1), of "[60, 62]"] assms(2) by (subst parseredirs.simps) (simp add: sh_symbols_def)

lemma parseredirs_step:
  assumes "here buf i (redir_toks (f, m, d) @ ts)" "redir_ok (f, m, d)"
  shows "\<exists>w j. parseredirs c buf i = parseredirs (REDIR c w m d) buf j \<and> here buf j ts \<and> slice buf w = f"
proof -
  let ?s = "if d = 0 then 60 else (62 :: uchar)"
  have h: "here buf i (S ?s # W f # ts)" using assms(1) by (simp add: redir_toks_def)
  note g1 = gettoken_sym [OF h]
  note g2 = gettoken_W [OF g1(2)]
  have "peek buf i [60, 62] = (True, i)" using peek_here [OF h, of "[60, 62]"] by (simp add: sh_symbols_def)
  moreover have "redir_node c ?s w = REDIR c w m d" for w
    using assms(2) by (auto simp: redir_node_def redir_ok_def)
  ultimately have "parseredirs c buf i = parseredirs (REDIR c (i + 2, i + 2 + length f) m d) buf (i + 2 + length f + 1)"
    using g1(1) g2(1) by (subst parseredirs.simps) simp
  then show ?thesis using g2(2,3) by blast
qed

lemma parseredirs_all:
  assumes "here buf i (redirs_toks rs @ ts)" "\<forall>r\<in>set rs. redir_ok r" "\<not> starts [60, 62] ts"
  shows "\<exists>c' j. parseredirs c buf i = Inr (c', j) \<and> here buf j ts \<and> spelled buf c' = redirs rs (spelled buf c)"
  using assms
proof (induction rs arbitrary: c i)
  case Nil
  then show ?case using parseredirs_none [of buf i ts c] by simp
next
  case (Cons r rs)
  obtain f m d where r: "r = (f, m, d)" by (cases r)
  have h: "here buf i (redir_toks (f, m, d) @ redirs_toks rs @ ts)" "redir_ok (f, m, d)" using Cons.prems r by simp_all
  obtain w j where w: "parseredirs c buf i = parseredirs (REDIR c w m d) buf j" "here buf j (redirs_toks rs @ ts)" "slice buf w = f"
    using parseredirs_step [OF h] by blast
  then show ?case using Cons.IH [OF w(2), of "REDIR c w m d"] Cons.prems r by simp
qed

text \<open>What may follow a simple command, a pipeline and a line.\<close>

abbreviation ends :: "uchar list \<Rightarrow> tok list \<Rightarrow> bool" where
  "ends cs ts \<equiv> ts = [] \<or> starts cs ts"

lemma exec_loop_stop:
  assumes "here buf i ts" "ends [124, 41, 38, 59] ts"
  shows "exec_loop c n buf i = Inr (c, i)"
proof (cases "ts = []")
  case True
  then have "peek buf i [124, 41, 38, 59] = (False, i)" using peek_here [OF assms(1), of "[124, 41, 38, 59]"] by (simp add: sh_symbols_def)
  then show ?thesis using gettoken_end [of buf i] assms(1) True by (subst exec_loop.simps) simp
next
  case False
  then have "peek buf i [124, 41, 38, 59] = (True, i)"
    using peek_here [OF assms(1), of "[124, 41, 38, 59]"] assms(2) by (simp add: sh_symbols_def)
  then show ?thesis by (subst exec_loop.simps) simp
qed

lemma ends_starts: "ends cs ts \<Longrightarrow> set cs \<inter> set cs' = {} \<Longrightarrow> \<not> starts cs' ts"
  by (auto simp: starts_def split: list.splits tok.splits)

lemma exec_loop_words:
  assumes "here buf i (map W ws @ redirs_toks rs @ ts)" "ws \<noteq> []" "n + length ws < MAXARGS"
    "\<forall>r\<in>set rs. redir_ok r" "ends [124, 41, 38, 59] ts"
  shows "\<exists>c j. exec_loop (EXEC qs) n buf i = Inr (c, j) \<and> here buf j ts \<and>
    spelled buf c = redirs rs (EXEC (map (slice buf) qs @ ws))"
  using assms
proof (induction ws arbitrary: qs n i)
  case (Cons w ws)
  let ?q = "(i, i + length w)" and ?j = "i + length w + 1"
  have h: "here buf i (W w # map W ws @ redirs_toks rs @ ts)" using Cons.prems by simp
  note g = gettoken_W [OF h]
  have "peek buf i [124, 41, 38, 59] = (False, i)" using peek_here [OF h, of "[124, 41, 38, 59]"] by (simp add: sh_symbols_def)
  then have step: "exec_loop (EXEC qs) n buf i =
      (case parseredirs (EXEC (qs @ [?q])) buf ?j of Inl e \<Rightarrow> Inl e | Inr (ret, i2) \<Rightarrow> exec_loop ret (n + 1) buf i2)"
    using g(1) Cons.prems(3) by (subst exec_loop.simps) simp
  show ?case
  proof (cases ws)
    case Nil
    then have "here buf ?j (redirs_toks rs @ ts)" using g(2) by simp
    from parseredirs_all [OF this Cons.prems(4) ends_starts [OF Cons.prems(5)], of "EXEC (qs @ [?q])"]
    obtain c j where "parseredirs (EXEC (qs @ [?q])) buf ?j = Inr (c, j)" "here buf j ts"
      "spelled buf c = redirs rs (EXEC (map (slice buf) (qs @ [?q])))" by auto
    then show ?thesis using step exec_loop_stop [OF _ Cons.prems(5)] g(3) Nil by simp
  next
    case (Cons v vs)
    then have "parseredirs (EXEC (qs @ [?q])) buf ?j = Inr (EXEC (qs @ [?q]), ?j)" using parseredirs_none [OF g(2)] by simp
    then show ?thesis using step Cons.IH [OF g(2), of "n + 1" "qs @ [?q]"] Cons.prems g(3) Cons by simp
  qed
qed simp

text \<open>A larger bound on the depth does not change a result, so that a result at any bound is the result.\<close>

definition upto :: "'a parsed \<Rightarrow> 'a parsed \<Rightarrow> bool" where
  "upto r r' \<longleftrightarrow> r = None \<or> r' = r"

lemma upto_refl [simp, intro]: "upto r r"
  by (simp add: upto_def)

lemma upto_bind: "upto r r' \<Longrightarrow> (\<And>x. upto (f x) (f' x)) \<Longrightarrow> upto (pbind r f) (pbind r' f')"
  by (auto simp: upto_def pbind_def split: option.splits sum.splits)

lemma parse_more: "upto (parse n nt buf i) (parse (Suc n) nt buf i)"
proof (induction n arbitrary: nt i)
  case (Suc n)
  have "upto (parseline (parse n Pipeline) (parse n Line) buf i) (parseline (parse (Suc n) Pipeline) (parse (Suc n) Line) buf i)"
    "upto (parsepipe (parse n Simple) (parse n Pipeline) buf i) (parsepipe (parse (Suc n) Simple) (parse (Suc n) Pipeline) buf i)"
    "upto (parseexec (parse n Block) buf i) (parseexec (parse (Suc n) Block) buf i)"
    "upto (parseblock (parse n Line) buf i) (parseblock (parse (Suc n) Line) buf i)"
    unfolding parseline_def parsepipe_def parseexec_def parseblock_def
    by (auto intro!: upto_bind Suc.IH simp del: parse.simps split: prod.split)
  then show ?case by (cases nt) (simp_all only: parse.simps part.case)
qed (simp add: upto_def)

lemma parse_any: "parse n nt buf i = Some r \<Longrightarrow> n \<le> m \<Longrightarrow> parse m nt buf i = Some r"
proof (induction m)
  case (Suc m)
  then show ?case using parse_more [of m nt buf i] by (cases "n = Suc m") (auto simp: upto_def simp del: parse.simps)
qed simp

definition runs :: "part \<Rightarrow> uchar list \<Rightarrow> nat \<Rightarrow> word_ptrs scmd \<Rightarrow> nat \<Rightarrow> bool" where
  "runs nt buf i c j \<longleftrightarrow> (\<exists>n. parse n nt buf i = Some (Inr (c, j)))"

lemma runs_two:
  assumes "runs nt buf i c j" "runs nt' buf i' c' j'"
  obtains n where "parse n nt buf i = Some (Inr (c, j))" "parse n nt' buf i' = Some (Inr (c', j'))"
proof -
  obtain n m where "parse n nt buf i = Some (Inr (c, j))" "parse m nt' buf i' = Some (Inr (c', j'))"
    using assms by (auto simp: runs_def)
  then show ?thesis using that [of "max n m"] parse_any [of n nt buf i _ "max n m"] parse_any [of m nt' buf i' _ "max n m"] by simp
qed

lemma runs_Suc:
  assumes "parse (Suc n) nt buf i = Some (Inr (c, j))"
  shows "runs nt buf i c j"
  using assms by (auto simp: runs_def simp del: parse.simps)

lemma runs_line:
  assumes "runs Pipeline buf i c0 i0" "backs c0 buf i0 = (c, i1)" "here buf i1 ts" "\<not> starts [59] ts"
  shows "runs Line buf i c i1"
proof -
  obtain n where n: "parse n Pipeline buf i = Some (Inr (c0, i0))" using assms(1) by (auto simp: runs_def)
  have "peek buf i1 [59] = (False, i1)" using peek_here [OF assms(3), of "[59]"] assms(4) by (simp add: sh_symbols_def)
  then have "parse (Suc n) Line buf i = Some (Inr (c, i1))" using n assms(2) by (simp add: parseline_def)
  then show ?thesis by (rule runs_Suc)
qed

lemma runs_list:
  assumes "runs Pipeline buf i c0 i0" "backs c0 buf i0 = (c, i1)" "here buf i1 (S 59 # ts)" "runs Line buf (i1 + 2) r j"
  shows "runs Line buf i (LIST c r) j"
proof -
  obtain n where n: "parse n Pipeline buf i = Some (Inr (c0, i0))" "parse n Line buf (i1 + 2) = Some (Inr (r, j))"
    using runs_two [OF assms(1,4)] .
  have "peek buf i1 [59] = (True, i1)" using peek_here [OF assms(3), of "[59]"] by (simp add: sh_symbols_def)
  then have "parse (Suc n) Line buf i = Some (Inr (LIST c r, j))"
    using n assms(2) after_sym [OF assms(3)] by (simp add: parseline_def)
  then show ?thesis by (rule runs_Suc)
qed

lemma runs_pipe_end:
  assumes "runs Simple buf i c i1" "here buf i1 ts" "\<not> starts [124] ts"
  shows "runs Pipeline buf i c i1"
proof -
  obtain n where n: "parse n Simple buf i = Some (Inr (c, i1))" using assms(1) by (auto simp: runs_def)
  have "peek buf i1 [124] = (False, i1)" using peek_here [OF assms(2), of "[124]"] assms(3) by (simp add: sh_symbols_def)
  then have "parse (Suc n) Pipeline buf i = Some (Inr (c, i1))" using n by (simp add: parsepipe_def)
  then show ?thesis by (rule runs_Suc)
qed

lemma runs_pipe:
  assumes "runs Simple buf i c i1" "here buf i1 (S 124 # ts)" "runs Pipeline buf (i1 + 2) r j"
  shows "runs Pipeline buf i (PIPE c r) j"
proof -
  obtain n where n: "parse n Simple buf i = Some (Inr (c, i1))" "parse n Pipeline buf (i1 + 2) = Some (Inr (r, j))"
    using runs_two [OF assms(1,3)] .
  have "peek buf i1 [124] = (True, i1)" using peek_here [OF assms(2), of "[124]"] by (simp add: sh_symbols_def)
  then have "parse (Suc n) Pipeline buf i = Some (Inr (PIPE c r, j))"
    using n after_sym [OF assms(2)] by (simp add: parsepipe_def)
  then show ?thesis by (rule runs_Suc)
qed

lemma runs_paren:
  assumes "here buf i (S 40 # us)" "runs Line buf (i + 2) c i1" "here buf i1 (S 41 # ts)"
    "parseredirs c buf (i1 + 2) = Inr (c', j)"
  shows "runs Simple buf i c' j"
proof -
  obtain n where n: "parse n Line buf (i + 2) = Some (Inr (c, i1))" using assms(2) by (auto simp: runs_def)
  have p: "peek buf i [40] = (True, i)" "peek buf i1 [41] = (True, i1)"
    using peek_here [OF assms(1), of "[40]"] peek_here [OF assms(3), of "[41]"] by (simp_all add: sh_symbols_def)
  then have "parse (Suc n) Block buf i = Some (Inr (c', j))"
    using n after_sym [OF assms(1)] after_sym [OF assms(3)] assms(4) by (simp add: parseblock_def)
  then have "parse (Suc (Suc n)) Simple buf i = Some (Inr (c', j))" using p(1) by (simp only: parse.simps part.case parseexec_def) simp
  then show ?thesis by (rule runs_Suc)
qed

lemma runs_exec:
  assumes "here buf i (map W ws @ redirs_toks rs @ ts)" "length ws < MAXARGS" "\<forall>r\<in>set rs. redir_ok r" "ends [124, 41, 38, 59] ts"
  shows "\<exists>c j. runs Simple buf i c j \<and> here buf j ts \<and> spelled buf c = redirs rs (EXEC ws)"
proof -
  have nstart: "\<not> starts [40] (map W ws @ redirs_toks rs @ ts)"
    using ends_starts [OF assms(4), of "[40]"] by (cases ws; cases rs) (auto simp: redir_toks_def split: if_splits)
  then have "peek buf i [40] = (False, i)" using peek_here [OF assms(1), of "[40]"] by (simp add: sh_symbols_def)
  then have run: "parse (Suc 0) Simple buf i =
      (case parseredirs (EXEC []) buf i of Inl e \<Rightarrow> Some (Inl e) | Inr (ret, i) \<Rightarrow> Some (exec_loop ret 0 buf i))"
    by (simp add: parseexec_def)
  show ?thesis
  proof (cases "ws = []")
    case True
    then have "here buf i (redirs_toks rs @ ts)" using assms(1) by simp
    from parseredirs_all [OF this assms(3) ends_starts [OF assms(4)], of "EXEC []"]
    obtain c j where c: "parseredirs (EXEC []) buf i = Inr (c, j)" "here buf j ts" "spelled buf c = redirs rs (EXEC [])" by auto
    then have "parse (Suc 0) Simple buf i = Some (Inr (c, j))" using run exec_loop_stop [OF c(2) assms(4)] by simp
    then have "runs Simple buf i c j" by (rule runs_Suc)
    then show ?thesis using c True by auto
  next
    case False
    then have "\<not> starts [60, 62] (map W ws @ redirs_toks rs @ ts)" by (cases ws) auto
    then have "parseredirs (EXEC []) buf i = Inr (EXEC [], i)" using parseredirs_none [OF assms(1)] by simp
    moreover obtain c j where c: "exec_loop (EXEC []) 0 buf i = Inr (c, j)" "here buf j ts" "spelled buf c = redirs rs (EXEC ws)"
      using exec_loop_words [OF assms(1) False _ assms(3,4), of 0 "[]"] assms(2) by auto
    ultimately have "parse (Suc 0) Simple buf i = Some (Inr (c, j))" using run by simp
    then have "runs Simple buf i c j" by (rule runs_Suc)
    then show ?thesis using c by auto
  qed
qed

text \<open>What each function of the grammar does on a printed command.\<close>

definition simple_ok :: "uchar list scmd \<Rightarrow> bool" where
  "simple_ok c \<longleftrightarrow> (\<forall>buf i rs ts. here buf i (wrap 0 c (cmd_toks c) @ redirs_toks rs @ ts) \<longrightarrow> (\<forall>r\<in>set rs. redir_ok r) \<longrightarrow>
     ends [124, 41, 38, 59] ts \<longrightarrow> (\<exists>c' j. runs Simple buf i c' j \<and> here buf j ts \<and> spelled buf c' = redirs rs c))"

definition pipe_ok :: "uchar list scmd \<Rightarrow> bool" where
  "pipe_ok c \<longleftrightarrow> (\<forall>buf i ts. here buf i (wrap 1 c (cmd_toks c) @ ts) \<longrightarrow> ends [41, 38, 59] ts \<longrightarrow>
     (\<exists>c' j. runs Pipeline buf i c' j \<and> here buf j ts \<and> spelled buf c' = c))"

definition back_ok :: "uchar list scmd \<Rightarrow> bool" where
  "back_ok c \<longleftrightarrow> (\<forall>buf i ts. here buf i (wrap 2 c (cmd_toks c) @ ts) \<longrightarrow> ends [41, 38, 59] ts \<longrightarrow>
     (\<exists>c0 i0 c' j. runs Pipeline buf i c0 i0 \<and> backs c0 buf i0 = backs c' buf j \<and> here buf j ts \<and> spelled buf c' = c))"

definition line_ok :: "uchar list scmd \<Rightarrow> bool" where
  "line_ok c \<longleftrightarrow> (\<forall>buf i ts. here buf i (cmd_toks c @ ts) \<longrightarrow> ends [41] ts \<longrightarrow>
     (\<exists>c' j. runs Line buf i c' j \<and> here buf j ts \<and> spelled buf c' = c))"

lemma backs_stop:
  assumes "here buf i ts" "\<not> starts [38] ts"
  shows "backs c buf i = (c, i)"
  using peek_here [OF assms(1), of "[38]"] assms(2) by (subst backs.simps) (simp add: sh_symbols_def)

lemma backs_step:
  assumes "here buf i (S 38 # ts)"
  shows "backs c buf i = backs (BACK c) buf (i + 2)"
  using peek_here [OF assms, of "[38]"] after_sym [OF assms] by (subst backs.simps) (simp add: sh_symbols_def)

lemma simple_pipe:
  assumes "simple_ok c" "level c \<noteq> 1"
  shows "pipe_ok c"
  unfolding pipe_ok_def
proof (intro allI impI)
  fix buf i ts
  assume a: "here buf i (wrap 1 c (cmd_toks c) @ ts)" "ends [41, 38, 59] ts"
  have "wrap 1 c (cmd_toks c) = wrap 0 c (cmd_toks c)" using assms(2) by (auto simp: wrap_def)
  moreover have "ends [124, 41, 38, 59] ts" using a(2) by (auto simp: starts_def split: list.splits tok.splits)
  ultimately obtain c' j where c: "runs Simple buf i c' j" "here buf j ts" "spelled buf c' = c"
    using assms(1) a(1) unfolding simple_ok_def by (metis append_Nil empty_iff list.set(1) redirs_simps(1,3))
  have "\<not> starts [124] ts" using ends_starts [OF a(2)] by simp
  then show "\<exists>c' j. runs Pipeline buf i c' j \<and> here buf j ts \<and> spelled buf c' = c"
    using runs_pipe_end [OF c(1,2)] c(2,3) by blast
qed

lemma pipe_back:
  assumes "pipe_ok c" "level c \<noteq> 2"
  shows "back_ok c"
proof -
  have "wrap 2 c (cmd_toks c) = wrap 1 c (cmd_toks c)" using assms(2) by (auto simp: wrap_def)
  then show ?thesis using assms(1) unfolding back_ok_def pipe_ok_def by metis
qed

lemma back_line:
  assumes "back_ok c" "level c \<le> 2"
  shows "line_ok c"
  unfolding line_ok_def
proof (intro allI impI)
  fix buf i ts
  assume a: "here buf i (cmd_toks c @ ts)" "ends [41] ts"
  have e: "ends [41, 38, 59] ts" "\<not> starts [38] ts" "\<not> starts [59] ts"
    using a(2) ends_starts [OF a(2)] by (auto simp: starts_def split: list.splits tok.splits)
  have "here buf i (wrap 2 c (cmd_toks c) @ ts)" using a(1) assms(2) by (simp add: wrap_def)
  then obtain c0 i0 c' j where
    b: "runs Pipeline buf i c0 i0" "backs c0 buf i0 = backs c' buf j" "here buf j ts" "spelled buf c' = c"
    using assms(1) e(1) unfolding back_ok_def by metis
  have "backs c0 buf i0 = (c', j)" using b(2) backs_stop [OF b(3) e(2)] by simp
  from runs_line [OF b(1) this b(3) e(3)] show "\<exists>c' j. runs Line buf i c' j \<and> here buf j ts \<and> spelled buf c' = c"
    using b(3,4) by blast
qed

lemma line_simple:
  assumes "line_ok c" "level c \<noteq> 0"
  shows "simple_ok c"
  unfolding simple_ok_def
proof (intro allI impI)
  fix buf i rs ts
  assume a: "here buf i (wrap 0 c (cmd_toks c) @ redirs_toks rs @ ts)" "\<forall>r\<in>set rs. redir_ok r" "ends [124, 41, 38, 59] ts"
  have h: "here buf i (S 40 # cmd_toks c @ S 41 # redirs_toks rs @ ts)" using a(1) assms(2) by (simp add: wrap_def)
  have "here buf (i + 2) (cmd_toks c @ S 41 # redirs_toks rs @ ts)" using after_sym [OF h] by simp
  then obtain c1 i1 where l: "runs Line buf (i + 2) c1 i1" "here buf i1 (S 41 # redirs_toks rs @ ts)" "spelled buf c1 = c"
    using assms(1) unfolding line_ok_def by (metis list.set_intros(1) starts_simps(3))
  have "here buf (i1 + 2) (redirs_toks rs @ ts)" using after_sym [OF l(2)] by simp
  from parseredirs_all [OF this a(2) ends_starts [OF a(3)], of c1]
  obtain c' j where "parseredirs c1 buf (i1 + 2) = Inr (c', j)" "here buf j ts" "spelled buf c' = redirs rs c" using l(3) by auto
  then show "\<exists>c' j. runs Simple buf i c' j \<and> here buf j ts \<and> spelled buf c' = redirs rs c"
    using runs_paren [OF h l(1,2)] by blast
qed

lemma exec_simple: "length ws < MAXARGS \<Longrightarrow> simple_ok (EXEC ws)"
  unfolding simple_ok_def using runs_exec by (simp add: wrap_def)

lemma redir_simple:
  assumes "simple_ok c" "redir_ok (f, m, d)"
  shows "simple_ok (REDIR c f m d)"
  unfolding simple_ok_def
proof (intro allI impI)
  fix buf i rs ts
  assume a: "here buf i (wrap 0 (REDIR c f m d) (cmd_toks (REDIR c f m d)) @ redirs_toks rs @ ts)"
    "\<forall>r\<in>set rs. redir_ok r" "ends [124, 41, 38, 59] ts"
  have "here buf i (wrap 0 c (cmd_toks c) @ redirs_toks ((f, m, d) # rs) @ ts)" using a(1) by (simp add: wrap_def)
  moreover have "\<forall>r\<in>set ((f, m, d) # rs). redir_ok r" using a(2) assms(2) by simp
  ultimately show "\<exists>c' j. runs Simple buf i c' j \<and> here buf j ts \<and> spelled buf c' = redirs rs (REDIR c f m d)"
    using assms(1) a(3) unfolding simple_ok_def by (metis redirs_simps(2))
qed

lemma pipe_pipe:
  assumes "simple_ok l" "pipe_ok r"
  shows "pipe_ok (PIPE l r)"
  unfolding pipe_ok_def
proof (intro allI impI)
  fix buf i ts
  assume a: "here buf i (wrap 1 (PIPE l r) (cmd_toks (PIPE l r)) @ ts)" "ends [41, 38, 59] ts"
  have "here buf i (wrap 0 l (cmd_toks l) @ redirs_toks [] @ S 124 # wrap 1 r (cmd_toks r) @ ts)" using a(1) by (simp add: wrap_def)
  then obtain l' j where l: "runs Simple buf i l' j" "here buf j (S 124 # wrap 1 r (cmd_toks r) @ ts)" "spelled buf l' = l"
    using assms(1) [unfolded simple_ok_def, rule_format, of buf i "[]" "S 124 # wrap 1 r (cmd_toks r) @ ts"] by auto
  obtain r' k where r: "runs Pipeline buf (j + 2) r' k" "here buf k ts" "spelled buf r' = r"
    using assms(2) a(2) after_sym [OF l(2)] unfolding pipe_ok_def by metis
  then show "\<exists>c' j. runs Pipeline buf i c' j \<and> here buf j ts \<and> spelled buf c' = PIPE l r"
    using runs_pipe [OF l(1,2) r(1)] l(3) by (intro exI [of _ "PIPE l' r'"] exI [of _ k]) simp
qed

lemma back_back:
  assumes "back_ok c"
  shows "back_ok (BACK c)"
  unfolding back_ok_def
proof (intro allI impI)
  fix buf i ts
  assume a: "here buf i (wrap 2 (BACK c) (cmd_toks (BACK c)) @ ts)" "ends [41, 38, 59] ts"
  have "here buf i (wrap 2 c (cmd_toks c) @ S 38 # ts)" using a(1) by (simp add: wrap_def)
  then obtain c0 i0 c' j where
    b: "runs Pipeline buf i c0 i0" "backs c0 buf i0 = backs c' buf j" "here buf j (S 38 # ts)" "spelled buf c' = c"
    using assms [unfolded back_ok_def, rule_format, of buf i "S 38 # ts"] by auto
  then show "\<exists>c0 i0 c' j. runs Pipeline buf i c0 i0 \<and> backs c0 buf i0 = backs c' buf j \<and> here buf j ts \<and> spelled buf c' = BACK c"
    using backs_step [OF b(3), of c'] after_sym [OF b(3)] by (intro exI [of _ c0] exI [of _ i0] exI [of _ "BACK c'"] exI [of _ "j + 2"]) simp
qed

lemma list_line:
  assumes "back_ok l" "line_ok r"
  shows "line_ok (LIST l r)"
  unfolding line_ok_def
proof (intro allI impI)
  fix buf i ts
  assume a: "here buf i (cmd_toks (LIST l r) @ ts)" "ends [41] ts"
  have "here buf i (wrap 2 l (cmd_toks l) @ S 59 # cmd_toks r @ ts)" using a(1) by simp
  then obtain c0 i0 l' j where
    b: "runs Pipeline buf i c0 i0" "backs c0 buf i0 = backs l' buf j" "here buf j (S 59 # cmd_toks r @ ts)" "spelled buf l' = l"
    using assms(1) [unfolded back_ok_def, rule_format, of buf i "S 59 # cmd_toks r @ ts"] by auto
  have e: "backs c0 buf i0 = (l', j)" using b(2) backs_stop [OF b(3)] by simp
  obtain r' k where r: "runs Line buf (j + 2) r' k" "here buf k ts" "spelled buf r' = r"
    using assms(2) a(2) after_sym [OF b(3)] unfolding line_ok_def by metis
  then show "\<exists>c' j. runs Line buf i c' j \<and> here buf j ts \<and> spelled buf c' = LIST l r"
    using runs_list [OF b(1) e b(3) r(1)] b(4) by (intro exI [of _ "LIST l' r'"] exI [of _ k]) simp
qed

lemma all_ok: "args_fit c \<Longrightarrow> redirs_ok c \<Longrightarrow> simple_ok c \<and> pipe_ok c \<and> back_ok c \<and> line_ok c"
proof (induction c)
  case (EXEC ws)
  then show ?case using exec_simple [of ws] simple_pipe [of "EXEC ws"] pipe_back [of "EXEC ws"] back_line [of "EXEC ws"] by simp
next
  case (REDIR c f m d)
  let ?c = "REDIR c f m d"
  have "simple_ok ?c" using REDIR redir_simple by simp
  then show ?case using simple_pipe [of ?c] pipe_back [of ?c] back_line [of ?c] by simp
next
  case (PIPE l r)
  let ?c = "PIPE l r"
  have "pipe_ok ?c" using PIPE pipe_pipe by simp
  then show ?case using pipe_back [of ?c] back_line [of ?c] line_simple [of ?c] by simp
next
  case (LIST l r)
  let ?c = "LIST l r"
  have "line_ok ?c" using LIST list_line by simp
  then show ?case using line_simple [of ?c] simple_pipe [of ?c] pipe_back [of ?c] by simp
next
  case (BACK c)
  let ?c = "BACK c"
  have "back_ok ?c" using BACK back_back by simp
  then show ?case using back_line [of ?c] line_simple [of ?c] simple_pipe [of ?c] by simp
qed

section \<open>The whole parser\<close>

text \<open>
  On every line the parser returns or reports an error; it never stores more than nine arguments, and each
  word it stores is a maximal word of the line, which \<^verbatim>\<open>nulterminate\<close> has made a string of its own.
\<close>

theorem parsecmd_words:
  assumes "0 \<notin> set buf"
  shows "\<exists>r. parsecmd buf = Some r \<and> (\<forall>c buf'. r = Inr (c, buf') \<longrightarrow>
    args_fit c \<and> (\<forall>w\<in>set_scmd c. is_word buf w \<and> cstring buf' (fst w) = slice buf w))"
proof -
  let ?n = "4 * length buf + 4"
  have "fine buf 0 (parse ?n Line buf 0)" by (rule parse_total) (simp_all add: depth_def)
  then obtain r where r: "parse ?n Line buf 0 = Some r" by (auto simp: fine_def split: option.splits)
  show ?thesis
  proof (cases r)
    case (Inr x)
    obtain c i b s where x: "x = (c, i)" "peek buf i [] = (b, s)" by fastforce
    have g: "\<forall>w\<in>set_scmd c. is_word buf w" "args_fit c"
      using parse_good [of buf ?n Line 0] r Inr x by (simp_all add: good_def)
    have "cstring (nulterminate c buf) (fst w) = slice buf w" if "w \<in> set_scmd c" for w
      using nulterminate_string [OF assms g(1), of "fst w" "snd w"] that by simp
    then show ?thesis using g x Inr r by (auto simp: parsecmd_def simp del: parse.simps is_word.simps)
  qed (use r in \<open>simp add: parsecmd_def del: parse.simps\<close>)
qed

lemma cmd_toks_ok: "\<forall>w\<in>set_scmd c. tok_ok (W w) \<Longrightarrow> list_all tok_ok (cmd_toks c)"
  by (induction c) (auto simp: list_all_iff wrap_def redir_toks_def sh_symbols_def simp del: tok_ok.simps(1) split: if_splits)

lemma toks_text_no_zero: "list_all tok_ok ts \<Longrightarrow> 0 \<notin> set (toks_text ts)"
proof (induction ts)
  case (Cons t ts)
  then show ?case by (cases t) (auto simp: sh_symbols_def)
qed simp

text \<open>
  C37. The parser inverts the printer. Every command built from simple commands with up to nine words,
  redirections, pipes, lists and background commands has a text, with parentheses where the grammar needs
  them, that \<^verbatim>\<open>parsecmd\<close> accepts completely; the tree it returns is the command, with every word a pointer
  to the string itself in the line that \<^verbatim>\<open>nulterminate\<close> has cut.
\<close>

theorem parse_print_roundtrip:
  assumes "cmd_ok c"
  shows "\<exists>c' buf'. parsecmd (print_cmd c) = Some (Inr (c', buf')) \<and> map_scmd (\<lambda>w. cstring buf' (fst w)) c' = c"
proof -
  let ?buf = "print_cmd c" and ?n = "4 * length (print_cmd c) + 4"
  have ok: "list_all tok_ok (cmd_toks c)" using assms cmd_toks_ok by (simp add: cmd_ok_def)
  then have nz: "0 \<notin> set ?buf" unfolding print_cmd_def by (rule toks_text_no_zero)
  have "here ?buf 0 (cmd_toks c @ [])" using ok by (simp add: here_def print_cmd_def)
  then obtain c' j where l: "runs Line ?buf 0 c' j" "here ?buf j []" "spelled ?buf c' = c"
    using all_ok assms unfolding cmd_ok_def line_ok_def by metis
  have "fine ?buf 0 (parse ?n Line ?buf 0)" by (rule parse_total) (simp_all add: depth_def)
  then obtain r where r: "parse ?n Line ?buf 0 = Some r" by (auto simp: fine_def split: option.splits)
  obtain m where m: "parse m Line ?buf 0 = Some (Inr (c', j))" using l(1) by (auto simp: runs_def)
  have "r = Inr (c', j)"
    using parse_any [OF r, of "max ?n m"] parse_any [OF m, of "max ?n m"] by simp
  moreover have "peek ?buf j [] = (False, length ?buf)" using peek_here [OF l(2), of "[]"] here_end [OF l(2)] by simp
  ultimately have p: "parsecmd ?buf = Some (Inr (c', nulterminate c' ?buf))" using r by (simp add: parsecmd_def del: parse.simps)
  then have "cstring (nulterminate c' ?buf) (fst w) = slice ?buf w" if "w \<in> set_scmd c'" for w
    using parsecmd_words [OF nz] that by auto
  then have "map_scmd (\<lambda>w. cstring (nulterminate c' ?buf) (fst w)) c' = spelled ?buf c'" by (intro scmd.map_cong) simp_all
  then show ?thesis using p l(3) by auto
qed

text \<open>The command \<^verbatim>\<open>(a; b <f) | c &\<close>.\<close>

theorem parse_print_roundtrip_witness:
  "\<exists>c' buf'. parsecmd (print_cmd (BACK (PIPE (LIST (EXEC [[97]]) (REDIR (EXEC [[98]]) [102] O_RDONLY 0)) (EXEC [[99]])))) = Some (Inr (c', buf')) \<and>
     map_scmd (\<lambda>w. cstring buf' (fst w)) c' = BACK (PIPE (LIST (EXEC [[97]]) (REDIR (EXEC [[98]]) [102] O_RDONLY 0)) (EXEC [[99]]))"
  by (rule parse_print_roundtrip)
    (simp add: cmd_ok_def redir_ok_def MAXARGS_def wordchar_def whitespace_def sh_symbols_def)

end
